(* ===== verification/Prelude.thy ===== *)
theory Prelude
  imports
    Main
    "HOL-Library.AList"
    "HOL-Library.Multiset"
    "HOL-Library.List_Lexorder"
    "HOL-Library.Char_ord"
begin

section \<open>Prelude: what the components share\<close>

text \<open>
  The Python constructs every component of ECN uses, once: results of code that may raise
  (a sum, \<open>Inl\<close> the exception), insertion-ordered dicts (an association list with distinct
  keys, \<open>AList.update\<close> being \<open>d[k] = v\<close>), bounded deques, list slices, the decimal rendering
  of an integer and the UTF-8 encoding of a string; with the generic lemmas the component
  proofs rest on and the \<^theory_text>\<open>named_theorems\<close> collections they are gathered in.

  A \<^typ>\<open>string\<close> is a list of code points below 256, ordered by code point as Python
  orders strings. Times are integers (microseconds since the epoch); Python floats that
  the program compares are rationals.
\<close>

named_theorems dict_simps \<open>equations of insertion-ordered dicts\<close>
named_theorems dict_intros \<open>preservation of distinct keys\<close>
named_theorems inj_facts \<open>injectivity of the encoders\<close>
named_theorems handler_intros \<open>contracts of the transaction handlers\<close>

subsection \<open>Code that may raise\<close>

fun bindE :: "'e + 'a \<Rightarrow> ('a \<Rightarrow> 'e + 'b) \<Rightarrow> 'e + 'b" where
  "bindE (Inl e) f = Inl e"
| "bindE (Inr x) f = f x"

definition ensure :: "'e \<Rightarrow> bool \<Rightarrow> 'e + unit" where
  "ensure e b = (if b then Inr () else Inl e)"

lemma bindE_Inr_iff:
  "bindE m f = Inr y \<longleftrightarrow> (\<exists>x. m = Inr x \<and> f x = Inr y)"
  by (cases m) auto

lemma bindE_Inl_iff:
  "bindE m f = Inl e \<longleftrightarrow> m = Inl e \<or> (\<exists>x. m = Inr x \<and> f x = Inl e)"
  by (cases m) auto

lemma ensure_Inr_iff: "ensure e b = Inr u \<longleftrightarrow> b"
  by (simp add: ensure_def)

lemma ensure_Inl_iff: "ensure e b = Inl e' \<longleftrightarrow> \<not> b \<and> e' = e"
  by (auto simp: ensure_def)

lemmas result_iffs = bindE_Inr_iff bindE_Inl_iff ensure_Inr_iff ensure_Inl_iff

text \<open>A comprehension whose element may raise: the first exception ends it.\<close>

fun mapE :: "('a \<Rightarrow> 'e + 'b) \<Rightarrow> 'a list \<Rightarrow> 'e + 'b list" where
  "mapE f [] = Inr []"
| "mapE f (x # xs) = bindE (f x) (\<lambda>y. bindE (mapE f xs) (\<lambda>ys. Inr (y # ys)))"

lemma mapE_map: "(\<And>x. x \<in> set xs \<Longrightarrow> f (g x) = Inr (h x)) \<Longrightarrow> mapE f (map g xs) = Inr (map h xs)"
  by (induction xs) auto

text \<open>
  How a request to the server can fail: an \<open>HTTPException\<close> with its status, or an exception no
  handler catches, which the server answers with status 500.
\<close>

datatype http_error = Http nat | Crash

subsection \<open>Insertion-ordered dicts\<close>

type_synonym 'v dict = "(string \<times> 'v) list"

abbreviation dget :: "('k \<times> 'v) list \<Rightarrow> 'k \<Rightarrow> 'v option" where
  "dget d k \<equiv> map_of d k"

abbreviation dset :: "'k \<Rightarrow> 'v \<Rightarrow> ('k \<times> 'v) list \<Rightarrow> ('k \<times> 'v) list" where
  "dset k v d \<equiv> AList.update k v d"

abbreviation dpop :: "'k \<Rightarrow> ('k \<times> 'v) list \<Rightarrow> ('k \<times> 'v) list" where
  "dpop k d \<equiv> AList.delete k d"

abbreviation dkeys :: "('k \<times> 'v) list \<Rightarrow> 'k list" where
  "dkeys d \<equiv> map fst d"

abbreviation dvalues :: "('k \<times> 'v) list \<Rightarrow> 'v list" where
  "dvalues d \<equiv> map snd d"

abbreviation wf_dict :: "('k \<times> 'v) list \<Rightarrow> bool" where
  "wf_dict d \<equiv> distinct (map fst d)"

text \<open>\<open>d.get(k, default)\<close>.\<close>

definition dget_or :: "('k \<times> 'v) list \<Rightarrow> 'k \<Rightarrow> 'v \<Rightarrow> 'v" where
  "dget_or d k v = (case map_of d k of None \<Rightarrow> v | Some x \<Rightarrow> x)"

lemma dget_dset [simp, dict_simps]: "dget (dset k v d) k' = (if k' = k then Some v else dget d k')"
  by (simp add: update_conv')

lemma dget_dpop [dict_simps]: "dget (dpop k d) k' = (if k' = k then None else dget d k')"
  by (simp add: delete_conv')

lemma wf_dset [simp, intro, dict_intros]: "wf_dict d \<Longrightarrow> wf_dict (dset k v d)"
  by (rule distinct_update)

lemma wf_dpop [simp, intro, dict_intros]: "wf_dict d \<Longrightarrow> wf_dict (dpop k d)"
  by (rule distinct_delete)

lemma set_dkeys_dset [simp, dict_simps]: "fst ` set (dset k v d) = insert k (fst ` set d)"
  by (simp add: dom_update)

lemma dkeys_dset_mem [dict_simps]: "k \<in> fst ` set d \<Longrightarrow> dkeys (dset k v d) = dkeys d"
  by (induction d) auto

lemma dget_None_iff: "dget d k = None \<longleftrightarrow> k \<notin> fst ` set d"
  by (rule map_of_eq_None_iff)

lemma dget_Some_key: "dget d k = Some v \<Longrightarrow> k \<in> fst ` set d"
  by (auto dest!: map_of_SomeD simp: image_iff intro: rev_bexI)

lemma dset_append_new [dict_simps]: "k \<notin> fst ` set d \<Longrightarrow> dset k v d = d @ [(k, v)]"
  by (induction d) auto

lemma length_dset_new: "k \<notin> fst ` set d \<Longrightarrow> length (dset k v d) = Suc (length d)"
  by (simp add: dset_append_new)

lemma length_dset_mem: "k \<in> fst ` set d \<Longrightarrow> length (dset k v d) = length d"
  by (induction d) auto

lemma dget_or_dset [simp, dict_simps]:
  "dget_or (dset k v d) k' x = (if k' = k then v else dget_or d k' x)"
  by (simp add: dget_or_def)

text \<open>A map is the index of a set of records by one of their fields.\<close>

definition indexed :: "('a \<Rightarrow> 'k) \<Rightarrow> 'a set \<Rightarrow> ('k \<Rightarrow> 'a option) \<Rightarrow> bool" where
  "indexed f A m \<longleftrightarrow> (\<forall>i k. m i = Some k \<longleftrightarrow> k \<in> A \<and> f k = i)"

lemma indexed_Some: "indexed f A m \<Longrightarrow> m i = Some k \<longleftrightarrow> k \<in> A \<and> f k = i"
  by (simp add: indexed_def)

lemma indexed_empty: "indexed f {} (\<lambda>i. None)"
  by (simp add: indexed_def)

lemma indexed_inj: "indexed f A m \<Longrightarrow> inj_on f A"
proof (rule inj_onI)
  fix x y assume ix: "indexed f A m" and "x \<in> A" "y \<in> A" "f x = f y"
  then have "m (f x) = Some x" "m (f x) = Some y" by (simp_all add: indexed_Some [OF ix])
  then show "x = y" by simp
qed

lemma indexed_unique:
  assumes "indexed f A m" and "indexed f A m'"
  shows "m = m'"
proof (rule ext)
  fix i
  have "m i = Some k \<longleftrightarrow> m' i = Some k" for k
    by (simp add: indexed_Some [OF assms(1)] indexed_Some [OF assms(2)])
  from this [of "the (m i)"] this [of "the (m' i)"] show "m i = m' i" by (cases "m i"; cases "m' i") auto
qed

lemma indexed_upd:
  assumes "indexed f A m" and "m (f k) = None \<or> m (f k) = Some k"
  shows "indexed f (insert k A) (m(f k := Some k))"
proof -
  have "a = k" if "a \<in> A" "f a = f k" for a
    using assms(2) indexed_Some [OF assms(1), of "f k" a] that by auto
  then show ?thesis using assms(1) by (auto simp: indexed_def)
qed

lemma indexed_del:
  assumes "indexed f A m" and "k \<in> A"
  shows "indexed f (A - {k}) (m(f k := None))"
proof -
  have "a = k" if "a \<in> A" "f a = f k" for a
    using indexed_inj [OF assms(1)] assms(2) that by (auto dest: inj_onD)
  then show ?thesis using assms(1) by (auto simp: indexed_def)
qed

text \<open>The sum of the values of a dict of integers, and how a store changes it.\<close>

definition dsum :: "('k \<times> int) list \<Rightarrow> int" where
  "dsum d = sum_list (map snd d)"

lemma dsum_Nil [simp]: "dsum [] = 0" and dsum_Cons [simp]: "dsum ((k, v) # d) = v + dsum d"
  by (simp_all add: dsum_def)

lemma dsum_dset_mem:
  "wf_dict d \<Longrightarrow> dget d k = Some v0 \<Longrightarrow> dsum (dset k v d) = dsum d - v0 + v"
proof (induction d)
  case Nil
  then show ?case by simp
next
  case (Cons p d)
  then show ?case by (cases p) (auto split: if_splits)
qed

lemma dsum_dset_new: "k \<notin> fst ` set d \<Longrightarrow> dsum (dset k v d) = dsum d + v"
  by (induction d) auto

lemma dsum_dset:
  "wf_dict d \<Longrightarrow> dsum (dset k v d) = dsum d - dget_or d k 0 + v"
  by (cases "dget d k")
     (auto simp: dget_or_def dsum_dset_mem dsum_dset_new dest: dget_Some_key
       iff: dget_None_iff [THEN sym])

subsection \<open>Sorting a dict's items by key\<close>

definition sorted_items :: "('k::linorder \<times> 'v) list \<Rightarrow> ('k \<times> 'v) list" where
  "sorted_items d = sort_key fst d"

lemma mset_sorted_items [simp]: "mset (sorted_items d) = mset d"
  by (simp add: sorted_items_def)

lemma set_sorted_items [simp]: "set (sorted_items d) = set d"
  by (simp add: sorted_items_def)

lemma length_sorted_items [simp]: "length (sorted_items d) = length d"
  by (simp add: sorted_items_def)

lemma sorted_items_perm:
  assumes "mset d = mset d'" and "wf_dict d"
  shows "sorted_items d = sorted_items d'"
proof -
  have "inj_on fst (set d)" using assms(2) by (simp add: distinct_map)
  then have "sort_key fst d = sort_key fst d'"
    by (intro sort_key_inj_key_eq) (simp_all add: assms(1))
  then show ?thesis by (simp add: sorted_items_def)
qed

lemma wf_sorted_items [simp]: "wf_dict (sorted_items d) = wf_dict d"
  by (metis mset_sorted_items mset_eq_imp_distinct_iff mset_map)

lemma dget_sorted_items [simp]: "wf_dict d \<Longrightarrow> dget (sorted_items d) = dget d"
  by (rule map_of_eqI) (auto simp: image_iff intro!: map_of_is_SomeI dest: map_of_SomeD)

subsection \<open>Slices and bounded deques\<close>

text \<open>\<open>xs[i:]\<close> and \<open>xs[:i]\<close>, a negative \<open>i\<close> counting from the end.\<close>

definition slice_index :: "int \<Rightarrow> 'a list \<Rightarrow> nat" where
  "slice_index i xs = nat (if i < 0 then i + int (length xs) else i)"

definition slice_from :: "int \<Rightarrow> 'a list \<Rightarrow> 'a list" where
  "slice_from i xs = drop (slice_index i xs) xs"

definition slice_to :: "int \<Rightarrow> 'a list \<Rightarrow> 'a list" where
  "slice_to i xs = take (slice_index i xs) xs"

lemma slice_nat [simp]: "slice_from (int n) xs = drop n xs" "slice_to (int n) xs = take n xs"
  by (simp_all add: slice_from_def slice_to_def slice_index_def)

text \<open>\<open>collections.deque(maxlen=n)\<close>: appending drops from the left what exceeds \<open>n\<close>.\<close>

definition push_bounded :: "nat \<Rightarrow> 'a list \<Rightarrow> 'a \<Rightarrow> 'a list" where
  "push_bounded n xs x = (let ys = xs @ [x] in drop (length ys - n) ys)"

lemma length_push_bounded: "length (push_bounded n xs x) = min n (Suc (length xs))"
  by (simp add: push_bounded_def Let_def)

lemma length_push_bounded_le: "length (push_bounded n xs x) \<le> n"
  by (simp add: length_push_bounded)

lemma push_bounded_room: "length xs < n \<Longrightarrow> push_bounded n xs x = xs @ [x]"
  by (simp add: push_bounded_def Let_def)

lemma push_bounded_full: "length xs = n \<Longrightarrow> 0 < n \<Longrightarrow> push_bounded n xs x = tl xs @ [x]"
  by (cases xs) (simp_all add: push_bounded_def Let_def)

lemma set_push_bounded: "set (push_bounded n xs x) \<subseteq> insert x (set xs)"
  by (auto simp: push_bounded_def Let_def dest: in_set_dropD)

end
