(* ===== verification/PyText.thy ===== *)
theory PyText
  imports Prelude
begin

section \<open>Text: decimal numbers, UTF-8, JSON string literals\<close>

text \<open>
  The renderings of the Python standard library that the program hashes or signs:
  \<open>str(int)\<close>, \<open>s.encode("utf-8")\<close> and the string literals of \<open>json.dumps\<close> (with its default
  \<open>ensure_ascii=True\<close>). Each comes with the lemma that it can be read back in front of any
  continuation, which is what makes the encodings built from them injective.
\<close>

subsection \<open>Decimal integers\<close>

abbreviation code :: "char \<Rightarrow> nat" where
  "code c \<equiv> of_char c"

definition digit_char :: "nat \<Rightarrow> char" where
  "digit_char d = char_of (48 + d)"

definition is_digit :: "char \<Rightarrow> bool" where
  "is_digit c \<longleftrightarrow> 48 \<le> code c \<and> code c \<le> 57"

fun str_nat :: "nat \<Rightarrow> string" where
  "str_nat n = (if n < 10 then [digit_char n] else str_nat (n div 10) @ [digit_char (n mod 10)])"

declare str_nat.simps [simp del]

definition str_int :: "int \<Rightarrow> string" where
  "str_int i = (if i < 0 then ''-'' @ str_nat (nat (- i)) else str_nat (nat i))"

definition nat_value :: "string \<Rightarrow> nat" where
  "nat_value = foldl (\<lambda>a c. 10 * a + (code c - 48)) 0"

lemma code_digit_char: "d < 10 \<Longrightarrow> code (digit_char d) = 48 + d"
  by (simp add: digit_char_def)

lemma is_digit_digit_char: "d < 10 \<Longrightarrow> is_digit (digit_char d)"
  by (simp add: is_digit_def code_digit_char)

lemma str_nat_digits: "c \<in> set (str_nat n) \<Longrightarrow> is_digit c"
proof (induction n rule: str_nat.induct)
  case (1 n)
  then show ?case
    by (subst (asm) (2) str_nat.simps) (auto split: if_splits intro: is_digit_digit_char)
qed

lemma str_nat_nonempty [simp]: "str_nat n \<noteq> []"
  by (subst str_nat.simps) simp

lemma nat_value_str_nat [simp]: "nat_value (str_nat n) = n"
proof (induction n rule: str_nat.induct)
  case (1 n)
  show ?case
  proof (cases "n < 10")
    case True
    then show ?thesis
      by (subst str_nat.simps) (simp add: nat_value_def code_digit_char)
  next
    case False
    then have "nat_value (str_nat n) = 10 * nat_value (str_nat (n div 10)) + n mod 10"
      by (subst str_nat.simps) (simp add: nat_value_def code_digit_char)
    with 1 False show ?thesis by simp
  qed
qed

text \<open>A continuation that does not begin with a digit ends a number.\<close>

definition no_digit_head :: "string \<Rightarrow> bool" where
  "no_digit_head r \<longleftrightarrow> (case r of [] \<Rightarrow> True | c # _ \<Rightarrow> \<not> is_digit c)"

lemma no_digit_head_simps [simp]:
  "no_digit_head []" "no_digit_head (c # r) \<longleftrightarrow> \<not> is_digit c"
  by (simp_all add: no_digit_head_def)

lemma digit_prefix_unique:
  assumes "xs @ r = ys @ r'" and "\<forall>c\<in>set xs. is_digit c" and "\<forall>c\<in>set ys. is_digit c"
    and "no_digit_head r" and "no_digit_head r'"
  shows "xs = ys \<and> r = r'"
  using assms
proof (induction xs arbitrary: ys)
  case Nil
  then show ?case by (cases ys) auto
next
  case (Cons x xs)
  then show ?case by (cases ys) auto
qed

lemma str_nat_unique:
  assumes "str_nat n @ r = str_nat m @ r'" "no_digit_head r" "no_digit_head r'"
  shows "n = m \<and> r = r'"
proof -
  have "str_nat n = str_nat m \<and> r = r'"
    using assms by (intro digit_prefix_unique) (auto intro: str_nat_digits)
  then show ?thesis by (metis nat_value_str_nat)
qed

lemma hd_str_nat: "\<exists>c r. str_nat n = c # r \<and> is_digit c"
  by (metis list.exhaust list.set_intros(1) str_nat_digits str_nat_nonempty)

lemma minus_no_digit [simp]: "\<not> is_digit (CHR ''-'')"
  by (simp add: is_digit_def)

lemma str_int_unique [inj_facts]:
  assumes "str_int i @ r = str_int j @ r'" "no_digit_head r" "no_digit_head r'"
  shows "i = j \<and> r = r'"
proof -
  obtain c s d t where "str_nat (nat i) = c # s" "is_digit c" "str_nat (nat j) = d # t" "is_digit d"
    using hd_str_nat by metis
  then have "(i < 0) = (j < 0)"
    using assms(1) by (auto simp: str_int_def split: if_splits)
  then show ?thesis
    using assms by (auto simp: str_int_def split: if_splits dest!: str_nat_unique)
qed

lemma str_int_inject [simp]: "str_int i = str_int j \<longleftrightarrow> i = j"
  using str_int_unique [of i "[]" j "[]"] by auto

lemma str_int_chars: "c \<in> set (str_int i) \<Longrightarrow> c = CHR ''-'' \<or> is_digit c"
  by (auto simp: str_int_def split: if_splits intro: str_nat_digits)

lemma hd_str_int: "\<exists>c r. str_int i = c # r \<and> (c = CHR ''-'' \<or> is_digit c)"
  using hd_str_nat [of "nat i"] by (auto simp: str_int_def)

subsection \<open>UTF-8\<close>

definition utf8_char :: "char \<Rightarrow> string" where
  "utf8_char c = (if code c < 128 then [c]
     else [char_of (192 + code c div 64), char_of (128 + code c mod 64)])"

definition utf8 :: "string \<Rightarrow> string" where
  "utf8 s = concat (map utf8_char s)"

lemma utf8_simps [simp]: "utf8 [] = []" "utf8 (c # s) = utf8_char c @ utf8 s"
  "utf8 (s @ t) = utf8 s @ utf8 t"
  by (simp_all add: utf8_def)

lemma code_less_256: "code c < 256"
  using nat_of_char_less_256 by simp

lemma code_div_less: "code c div 64 < 4" "code c div 16 < 16"
  by (rule less_mult_imp_div_less, simp add: code_less_256 [simplified])+

lemma code_eq_iff: "code c = code d \<longleftrightarrow> c = d"
  by simp

lemma utf8_char_unique:
  assumes "utf8_char c @ r = utf8_char d @ r'"
  shows "c = d \<and> r = r'"
proof (cases "code c < 128")
  case True
  show ?thesis
  proof (cases "code d < 128")
    case True
    with \<open>code c < 128\<close> assms show ?thesis by (simp add: utf8_char_def)
  next
    case False
    have "code d div 64 < 4" by (rule code_div_less)
    then have "code (char_of (192 + code d div 64) :: char) \<ge> 128" by simp
    with True False assms show ?thesis by (auto simp: utf8_char_def)
  qed
next
  case False
  have c4: "code c div 64 < 4" and d4: "code d div 64 < 4"
    by (rule code_div_less)+
  show ?thesis
  proof (cases "code d < 128")
    case True
    have "code (char_of (192 + code c div 64) :: char) \<ge> 128" using c4 by simp
    with True False assms show ?thesis by (auto simp: utf8_char_def)
  next
    case False
    with \<open>\<not> code c < 128\<close> assms
    have "code (char_of (192 + code c div 64) :: char) = code (char_of (192 + code d div 64) :: char)"
      and "code (char_of (128 + code c mod 64) :: char) = code (char_of (128 + code d mod 64) :: char)"
      and r: "r = r'"
      by (simp_all add: utf8_char_def)
    then have "code c div 64 = code d div 64" and "code c mod 64 = code d mod 64"
      using c4 d4 by simp_all
    then have "code c = code d" by (metis div_mult_mod_eq)
    with r show ?thesis by (simp add: code_eq_iff)
  qed
qed

lemma utf8_char_nonempty [simp]: "utf8_char c \<noteq> []"
  by (simp add: utf8_char_def)

lemma utf8_inject [simp, inj_facts]: "utf8 s = utf8 t \<longleftrightarrow> s = t"
proof
  assume "utf8 s = utf8 t"
  then show "s = t"
  proof (induction s arbitrary: t)
    case Nil
    then show ?case by (cases t) auto
  next
    case (Cons c s)
    then obtain d t' where "t = d # t'" by (cases t) auto
    with Cons show ?case by (auto dest!: utf8_char_unique)
  qed
qed simp

lemma utf8_ascii: "(\<forall>c\<in>set s. code c < 128) \<Longrightarrow> utf8 s = s"
  by (induction s) (auto simp: utf8_char_def)

subsection \<open>A separator read back from the right\<close>

lemma last_separator_unique [inj_facts]:
  assumes "xs @ c # ys = xs' @ c # ys'" and "c \<notin> set ys" and "c \<notin> set ys'"
  shows "xs = xs' \<and> ys = ys'"
proof -
  have prefix: "takeWhile (\<lambda>d. d \<noteq> c) (rev zs @ c # rev us) = rev zs" if "c \<notin> set zs" for zs us
    using that by (subst takeWhile_append2) auto
  have "rev ys @ c # rev xs = rev ys' @ c # rev xs'"
    using arg_cong [OF assms(1), of rev] by simp
  with prefix [OF assms(2), of xs] prefix [OF assms(3), of xs'] show ?thesis by auto
qed

subsection \<open>Hexadecimal digits\<close>

definition hex_char :: "nat \<Rightarrow> char" where
  "hex_char d = (if d < 10 then char_of (48 + d) else char_of (87 + d))"

definition hex_value :: "char \<Rightarrow> nat" where
  "hex_value c = (if code c < 58 then code c - 48 else code c - 87)"

definition is_lower_hex :: "char \<Rightarrow> bool" where
  "is_lower_hex c \<longleftrightarrow> (48 \<le> code c \<and> code c \<le> 57) \<or> (97 \<le> code c \<and> code c \<le> 102)"

lemma hex_value_hex_char [simp]: "d < 16 \<Longrightarrow> hex_value (hex_char d) = d"
  by (simp add: hex_value_def hex_char_def)

lemma is_lower_hex_not_colon: "is_lower_hex c \<Longrightarrow> c \<noteq> CHR '':''"
  by (auto simp: is_lower_hex_def)

lemma is_lower_hex_ascii: "is_lower_hex c \<Longrightarrow> code c < 128"
  by (auto simp: is_lower_hex_def)

lemma is_lower_hex_not_upper: "is_lower_hex c \<Longrightarrow> c \<noteq> CHR ''D'' \<and> c \<noteq> CHR ''F''"
  by (auto simp: is_lower_hex_def)

subsection \<open>JSON string literals\<close>

text \<open>
  \<open>json.dumps\<close> of a string: a backslash escape for the quote, the backslash and the five
  control characters that have one; other characters outside \<open>' '..'~'\<close> as \<open>\u00XX\<close>.
\<close>

abbreviation quote :: char where "quote \<equiv> CHR 0x22"
abbreviation backslash :: char where "backslash \<equiv> CHR 0x5C"

definition json_escape :: "char \<Rightarrow> string" where
  "json_escape c =
     (if c = quote then [backslash, quote]
      else if c = backslash then [backslash, backslash]
      else if c = CHR 0x08 then [backslash, CHR ''b'']
      else if c = CHR 0x0C then [backslash, CHR ''f'']
      else if c = CHR 0x0A then [backslash, CHR ''n'']
      else if c = CHR 0x0D then [backslash, CHR ''r'']
      else if c = CHR 0x09 then [backslash, CHR ''t'']
      else if 32 \<le> code c \<and> code c \<le> 126 then [c]
      else [backslash, CHR ''u'', CHR ''0'', CHR ''0'', hex_char (code c div 16), hex_char (code c mod 16)])"

definition json_string :: "string \<Rightarrow> string" where
  "json_string s = quote # concat (map json_escape s) @ [quote]"

text \<open>Reading one character back.\<close>

fun json_unescape :: "string \<Rightarrow> (char \<times> string) option" where
  "json_unescape [] = None"
| "json_unescape (c # r) =
     (if c \<noteq> backslash then Some (c, r)
      else case r of
        [] \<Rightarrow> None
      | d # r' \<Rightarrow>
          if d = CHR ''b'' then Some (CHR 0x08, r')
          else if d = CHR ''f'' then Some (CHR 0x0C, r')
          else if d = CHR ''n'' then Some (CHR 0x0A, r')
          else if d = CHR ''r'' then Some (CHR 0x0D, r')
          else if d = CHR ''t'' then Some (CHR 0x09, r')
          else if d = CHR ''u'' then
            (case r' of x1 # x2 # x3 # x4 # r'' \<Rightarrow> Some (char_of (16 * hex_value x3 + hex_value x4), r'')
             | _ \<Rightarrow> None)
          else Some (d, r'))"

lemma json_unescape_escape: "json_unescape (json_escape c @ r) = Some (c, r)"
proof -
  have "code c div 16 < 16" by (rule code_div_less)
  then show ?thesis by (auto simp: json_escape_def)
qed

lemma json_escape_unique:
  "json_escape c @ r = json_escape d @ r' \<Longrightarrow> c = d \<and> r = r'"
  by (metis json_unescape_escape option.inject prod.inject)

lemma json_escape_nonempty: "json_escape c \<noteq> []"
  by (simp add: json_escape_def)

lemma json_escape_no_quote: "json_escape c @ r \<noteq> quote # r'"
  by (auto simp: json_escape_def)

lemma json_escapes_unique:
  "concat (map json_escape s) @ quote # r = concat (map json_escape t) @ quote # r' \<Longrightarrow> s = t \<and> r = r'"
proof (induction s arbitrary: t)
  case Nil
  then show ?case by (cases t) (auto dest: json_escape_no_quote [THEN notE, OF sym])
next
  case (Cons c s)
  then obtain d t' where t: "t = d # t'"
    by (cases t) (auto dest: json_escape_no_quote [THEN notE])
  with Cons.prems have "json_escape c @ concat (map json_escape s) @ quote # r
      = json_escape d @ concat (map json_escape t') @ quote # r'" by simp
  then have "c = d" and "concat (map json_escape s) @ quote # r = concat (map json_escape t') @ quote # r'"
    by (blast dest: json_escape_unique)+
  with Cons.IH t show ?case by simp
qed

lemma json_string_unique [inj_facts]:
  "json_string s @ r = json_string t @ r' \<Longrightarrow> s = t \<and> r = r'"
  by (auto simp: json_string_def dest: json_escapes_unique)

lemma json_escape_ascii: "d \<in> set (json_escape c) \<Longrightarrow> code d < 128"
proof -
  assume d: "d \<in> set (json_escape c)"
  have "code c div 16 < 16" by (rule code_div_less)
  with d show ?thesis by (auto simp: json_escape_def hex_char_def split: if_splits)
qed

lemma json_string_ascii: "d \<in> set (json_string s) \<Longrightarrow> code d < 128"
  by (auto simp: json_string_def dest: json_escape_ascii)

subsection \<open>Methods of strings\<close>

text \<open>
  \<open>s.strip()\<close>, \<open>s.lower()\<close> and \<open>s.split(c)\<close> on code points below 256: the white space, and the
  capital letters of ASCII and Latin-1 (without the multiplication sign).
\<close>

definition py_space :: "char \<Rightarrow> bool" where
  "py_space c \<longleftrightarrow> code c \<in> {9, 10, 11, 12, 13, 28, 29, 30, 31, 32, 133, 160}"

definition strip :: "string \<Rightarrow> string" where
  "strip s = rev (dropWhile py_space (rev (dropWhile py_space s)))"

definition lower_char :: "char \<Rightarrow> char" where
  "lower_char c =
     (if 65 \<le> code c \<and> code c \<le> 90 \<or> 192 \<le> code c \<and> code c \<le> 222 \<and> code c \<noteq> 215
      then char_of (code c + 32) else c)"

definition lower :: "string \<Rightarrow> string" where
  "lower s = map lower_char s"

fun split_on :: "char \<Rightarrow> string \<Rightarrow> string list" where
  "split_on c [] = [[]]"
| "split_on c (x # xs) =
     (if x = c then [] # split_on c xs
      else case split_on c xs of [] \<Rightarrow> [[x]] | p # ps \<Rightarrow> (x # p) # ps)"

text \<open>An environment variable read with \<open>os.environ.get(name, "").strip()\<close>.\<close>

definition env_text :: "string option \<Rightarrow> string" where
  "env_text v = strip (case v of None \<Rightarrow> [] | Some s \<Rightarrow> s)"

lemma split_on_nonempty [simp]: "split_on c s \<noteq> []"
  by (induction c s rule: split_on.induct) (auto split: list.split)

lemma split_on_none: "c \<notin> set s \<Longrightarrow> split_on c s = [s]"
  by (induction c s rule: split_on.induct) auto

lemma split_on_cons: "c \<notin> set s \<Longrightarrow> split_on c (s @ c # t) = s # split_on c t"
  by (induction s) auto

text \<open>What a split gives back: no part has the separator, and the parts are the text.\<close>

lemma split_on_parts: "p \<in> set (split_on c s) \<Longrightarrow> c \<notin> set p"
proof (induction c s arbitrary: p rule: split_on.induct)
  case (2 c x xs)
  obtain q qs where q: "split_on c xs = q # qs" using split_on_nonempty [of c xs] by (cases "split_on c xs") auto
  with 2 show ?case by (auto split: if_splits)
qed simp

lemma split_on_single: "split_on c s = [x] \<Longrightarrow> s = x"
proof (induction c s arbitrary: x rule: split_on.induct)
  case (2 c y ys)
  then show ?case by (auto split: if_splits list.splits)
qed simp

lemma split_on_more: "split_on c s = x # y # ys \<Longrightarrow> \<exists>t. s = x @ c # t \<and> split_on c t = y # ys"
proof (induction c s arbitrary: x rule: split_on.induct)
  case (2 c z zs)
  obtain q qs where q: "split_on c zs = q # qs" using split_on_nonempty [of c zs] by (cases "split_on c zs") auto
  show ?case
  proof (cases "z = c")
    case True
    with 2(3) show ?thesis by auto
  next
    case False
    with 2(3) q have "x = z # q" "split_on c zs = q # y # ys" by auto
    with 2(2) [OF False] False show ?thesis by fastforce
  qed
qed simp

lemma split_on_three:
  "split_on c s = [x, y, z] \<longleftrightarrow> s = x @ c # y @ c # z \<and> c \<notin> set x \<and> c \<notin> set y \<and> c \<notin> set z"
  (is "?l \<longleftrightarrow> ?r")
proof
  assume l: ?l
  then have "c \<notin> set x \<and> c \<notin> set y \<and> c \<notin> set z" using split_on_parts [of _ c s] by simp
  moreover from split_on_more [OF l] obtain t where t: "s = x @ c # t" "split_on c t = [y, z]" by blast
  moreover from split_on_more [OF t(2)] obtain t' where "t = y @ c # t'" "split_on c t' = [z]" by blast
  ultimately show ?r using split_on_single by blast
qed (simp add: split_on_cons split_on_none)

end
