(* ===== verification/Json.thy ===== *)
theory Json
  imports PyText
begin

section \<open>Canonical JSON\<close>

text \<open>
  JSON values without floats, \<open>json.dumps\<close> with the compact separators, and the canonical
  form of \<open>ecn/state_manager.py\<close> (\<open>_canonical_json\<close>: the keys of every object sorted). The
  result of the theory is that the canonical form is injective up to the order of object
  keys: the text of a value can be read back (\<open>json_dumps_unique\<close>).
\<close>

datatype json =
    JNull
  | JBool bool
  | JInt int
  | JStr string
  | JList "json list"
  | JObj "(string \<times> json) list"

fun json_dumps :: "json \<Rightarrow> string"
  and json_dumps_elems :: "json list \<Rightarrow> string"
  and json_dumps_items :: "(string \<times> json) list \<Rightarrow> string"
where
  "json_dumps JNull = ''null''"
| "json_dumps (JBool b) = (if b then ''true'' else ''false'')"
| "json_dumps (JInt i) = str_int i"
| "json_dumps (JStr s) = json_string s"
| "json_dumps (JList xs) = ''['' @ json_dumps_elems xs @ '']''"
| "json_dumps (JObj kvs) = ''{'' @ json_dumps_items kvs @ ''}''"
| "json_dumps_elems [] = []"
| "json_dumps_elems (x # xs) =
     json_dumps x @ (if xs = [] then [] else '','' @ json_dumps_elems xs)"
| "json_dumps_items [] = []"
| "json_dumps_items ((k, v) # kvs) =
     json_string k @ '':'' @ json_dumps v @ (if kvs = [] then [] else '','' @ json_dumps_items kvs)"

fun sort_keys :: "json \<Rightarrow> json" where
  "sort_keys (JList xs) = JList (map sort_keys xs)"
| "sort_keys (JObj kvs) = JObj (sorted_items (map (\<lambda>(k, v). (k, sort_keys v)) kvs))"
| "sort_keys j = j"

definition canonical_json :: "json \<Rightarrow> string" where
  "canonical_json j = utf8 (json_dumps (sort_keys j))"

subsection \<open>Reading the text back\<close>

lemma digit_neq [simp]:
  "is_digit c \<Longrightarrow> c \<noteq> CHR ''n''" "is_digit c \<Longrightarrow> c \<noteq> CHR ''t''" "is_digit c \<Longrightarrow> c \<noteq> CHR ''f''"
  "is_digit c \<Longrightarrow> c \<noteq> CHR 0x22" "is_digit c \<Longrightarrow> c \<noteq> CHR ''[''" "is_digit c \<Longrightarrow> c \<noteq> CHR ''{''"
  "is_digit c \<Longrightarrow> c \<noteq> CHR '']''" "is_digit c \<Longrightarrow> c \<noteq> CHR ''}''" "is_digit c \<Longrightarrow> c \<noteq> CHR '',''"
  by (auto simp: is_digit_def)

lemma separators_no_digit [simp]:
  "\<not> is_digit (CHR '','')" "\<not> is_digit (CHR '']'')" "\<not> is_digit (CHR ''}'')" "\<not> is_digit (CHR 0x22)"
  "\<not> is_digit (CHR ''n'')" "\<not> is_digit (CHR ''t'')" "\<not> is_digit (CHR ''f'')"
  "\<not> is_digit (CHR ''['')" "\<not> is_digit (CHR ''{'')"
  by (auto simp: is_digit_def)

text \<open>The first character of a value's text tells its kind.\<close>

fun json_head :: "json \<Rightarrow> char \<Rightarrow> bool" where
  "json_head JNull c \<longleftrightarrow> c = CHR ''n''"
| "json_head (JBool b) c \<longleftrightarrow> c = (if b then CHR ''t'' else CHR ''f'')"
| "json_head (JInt i) c \<longleftrightarrow> c = CHR ''-'' \<or> is_digit c"
| "json_head (JStr s) c \<longleftrightarrow> c = quote"
| "json_head (JList xs) c \<longleftrightarrow> c = CHR ''[''"
| "json_head (JObj kvs) c \<longleftrightarrow> c = CHR ''{''"

lemma json_dumps_head: "\<exists>c r. json_dumps j = c # r \<and> json_head j c"
  using hd_str_int by (cases j) (auto simp: json_string_def)

lemma json_head_not_closing: "json_head j c \<Longrightarrow> c \<noteq> CHR '']'' \<and> c \<noteq> CHR ''}'' \<and> c \<noteq> CHR '',''"
  by (cases j) auto

lemma json_dumps_not_closing [simp]:
  "json_dumps j @ r \<noteq> CHR '']'' # r'" "CHR '']'' # r' \<noteq> json_dumps j @ r"
  using json_dumps_head [of j] by (auto dest!: json_head_not_closing)

lemma json_string_not_closing [simp]:
  "json_string k @ r \<noteq> CHR ''}'' # r'" "CHR ''}'' # r' \<noteq> json_string k @ r"
  by (auto simp: json_string_def)

lemma same_head_same_kind:
  "json_dumps a @ r = json_dumps b @ r' \<Longrightarrow> \<exists>c. json_head a c \<and> json_head b c"
  using json_dumps_head [of a] json_dumps_head [of b] by auto

lemma json_dumps_unique_all:
  "json_dumps a @ r = json_dumps b @ r' \<Longrightarrow> no_digit_head r \<Longrightarrow> no_digit_head r' \<Longrightarrow> a = b \<and> r = r'"
  "json_dumps_elems xs @ CHR '']'' # r = json_dumps_elems ys @ CHR '']'' # r' \<Longrightarrow> xs = ys \<and> r = r'"
  "json_dumps_items kvs @ CHR ''}'' # r = json_dumps_items lvs @ CHR ''}'' # r' \<Longrightarrow> kvs = lvs \<and> r = r'"
proof (induction a and xs and kvs arbitrary: b r r' and ys r r' and lvs r r'
    rule: json_dumps_json_dumps_elems_json_dumps_items.induct)
  case 1
  then have "b = JNull"
    using same_head_same_kind [OF 1(1)] by (cases b) (auto split: if_splits)
  with 1 show ?case by auto
next
  case (2 x)
  then have "b = JBool x"
    using same_head_same_kind [OF 2(1)] by (cases b) (auto split: if_splits)
  with 2 show ?case by auto
next
  case (3 i)
  then obtain j where "b = JInt j"
    using same_head_same_kind [OF 3(1)] by (cases b) (auto split: if_splits)
  with 3 show ?case by (auto dest: str_int_unique)
next
  case (4 s)
  then obtain t where "b = JStr t"
    using same_head_same_kind [OF 4(1)] by (cases b) (auto split: if_splits)
  with 4 show ?case by (auto dest: json_string_unique)
next
  case (5 xs)
  obtain ys where b: "b = JList ys"
    using same_head_same_kind [OF 5(2)] by (cases b) (auto split: if_splits)
  with 5(2) have "json_dumps_elems xs @ CHR '']'' # r = json_dumps_elems ys @ CHR '']'' # r'"
    by simp
  then have "xs = ys \<and> r = r'" by (rule 5(1))
  with b show ?case by simp
next
  case (6 kvs)
  obtain lvs where b: "b = JObj lvs"
    using same_head_same_kind [OF 6(2)] by (cases b) (auto split: if_splits)
  with 6(2) have "json_dumps_items kvs @ CHR ''}'' # r = json_dumps_items lvs @ CHR ''}'' # r'"
    by simp
  then have "kvs = lvs \<and> r = r'" by (rule 6(1))
  with b show ?case by simp
next
  case 7
  then show ?case by (cases ys) auto
next
  case (8 x xs)
  from 8(3) obtain y ys' where ys: "ys = y # ys'" by (cases ys) auto
  let ?t = "\<lambda>zs r. (if zs = [] then [] else '','' @ json_dumps_elems zs) @ CHR '']'' # r"
  have "x = y \<and> ?t xs r = ?t ys' r'"
    using 8(3) ys by (intro 8(1)) auto
  then have xy: "x = y" and tails: "?t xs r = ?t ys' r'" by simp_all
  have "xs = ys' \<and> r = r'"
  proof (cases "xs = []")
    case True
    with tails show ?thesis by (simp split: if_splits)
  next
    case False
    with tails show ?thesis by (intro 8(2)) (simp_all split: if_splits)
  qed
  with xy ys show ?case by simp
next
  case 9
  then show ?case by (cases lvs) auto
next
  case (10 k v kvs)
  from 10(3) obtain l w lvs' where lvs: "lvs = (l, w) # lvs'" by (cases lvs) auto
  let ?t = "\<lambda>zs r. (if zs = [] then [] else '','' @ json_dumps_items zs) @ CHR ''}'' # r"
  have "k = l \<and> CHR '':'' # json_dumps v @ ?t kvs r = CHR '':'' # json_dumps w @ ?t lvs' r'"
    using 10(3) lvs by (intro json_string_unique) simp
  then have kl: "k = l" and vw: "json_dumps v @ ?t kvs r = json_dumps w @ ?t lvs' r'" by simp_all
  from vw have "v = w \<and> ?t kvs r = ?t lvs' r'" by (rule 10(1)) simp_all
  then have "v = w" and tails: "?t kvs r = ?t lvs' r'" by simp_all
  moreover have "kvs = lvs' \<and> r = r'"
  proof (cases "kvs = []")
    case True
    with tails show ?thesis by (simp split: if_splits)
  next
    case False
    with tails show ?thesis by (intro 10(2)) (simp_all split: if_splits)
  qed
  ultimately show ?case using kl lvs by simp
qed

lemma json_dumps_unique [simp, inj_facts]: "json_dumps a = json_dumps b \<longleftrightarrow> a = b"
  using json_dumps_unique_all(1) [of a "[]" b "[]"] by auto

lemma canonical_json_eq_iff: "canonical_json a = canonical_json b \<longleftrightarrow> sort_keys a = sort_keys b"
  by (simp add: canonical_json_def)

text \<open>The text is ASCII, so its UTF-8 encoding is the text itself.\<close>

lemma str_int_ascii: "c \<in> set (str_int i) \<Longrightarrow> code c < 128"
  using str_int_chars [of c i] by (auto simp: is_digit_def)

lemma json_dumps_ascii_all:
  "\<forall>c\<in>set (json_dumps a). code c < 128"
  "\<forall>c\<in>set (json_dumps_elems xs). code c < 128"
  "\<forall>c\<in>set (json_dumps_items kvs). code c < 128"
  by (induction a and xs and kvs rule: json_dumps_json_dumps_elems_json_dumps_items.induct)
     (auto dest: json_string_ascii str_int_ascii)

lemma canonical_json_text: "canonical_json j = json_dumps (sort_keys j)"
  by (simp add: canonical_json_def utf8_ascii json_dumps_ascii_all)

text \<open>Objects that differ in the order of their keys only have the same canonical form.\<close>

lemma sort_keys_obj_perm:
  assumes "mset kvs = mset lvs" and "wf_dict kvs"
  shows "sort_keys (JObj kvs) = sort_keys (JObj lvs)"
proof -
  let ?f = "\<lambda>(k, v). (k, sort_keys v)"
  have "map fst (map ?f kvs) = map fst kvs" by (induction kvs) auto
  then have "wf_dict (map ?f kvs)" using assms(2) by (simp only:)
  moreover have "mset (map ?f kvs) = mset (map ?f lvs)" using assms(1) by simp
  ultimately show ?thesis by (simp add: sorted_items_perm)
qed

lemma sort_keys_obj_inject:
  assumes "sort_keys (JObj kvs) = sort_keys (JObj lvs)"
  shows "mset (map (\<lambda>(k, v). (k, sort_keys v)) kvs) = mset (map (\<lambda>(k, v). (k, sort_keys v)) lvs)"
proof -
  have "sorted_items (map (\<lambda>(k, v). (k, sort_keys v)) kvs)
      = sorted_items (map (\<lambda>(k, v). (k, sort_keys v)) lvs)" using assms by simp
  then show ?thesis by (metis mset_sorted_items)
qed

end
