(* ===== verification/WorldState.thy ===== *)
theory WorldState
  imports Json
begin

section \<open>World states, transactions and their JSON form\<close>

text \<open>
  The data every node computes on. A world state is the dict of
  \<open>ecn/execution_engine.py\<close> with its two documented keys, either of which may be absent:
  \<open>balances\<close> (account to integer) and \<open>products\<close> (the product dicts of
  \<open>ecn/use_cases/supply_chain.py\<close>). A transaction is the schema of \<open>TransactionRequest\<close> in
  \<open>ecn/api.py\<close>: every field but the type is optional, and an absent field is a key that the
  dict of \<open>to_ecn_tx\<close> lacks, so that reading it raises \<open>KeyError\<close>.

  The theory shows that the canonical JSON of a well-formed state determines the state up to
  the order of dict keys (\<open>world_canonical_eq_iff\<close>).
\<close>

datatype pstatus = Manufactured | In_transit | At_customs | Quarantined | Delivered

record product =
  p_status :: pstatus
  p_location :: string
  p_owner :: string
  p_checks :: "string list option"
  p_quarantine_reason :: "string option"

record world =
  w_balances :: "int dict option"
  w_products :: "product dict option"

record tx =
  tx_type :: "string option"
  tx_product_id :: "string option"
  tx_destination :: "string option"
  tx_shipper :: "string option"
  tx_receiver :: "string option"
  tx_at_customs :: "bool option"
  tx_check_name :: "string option"
  tx_inspector :: "string option"
  tx_reason :: "string option"
  tx_released_by :: "string option"
  tx_from :: "string option"
  tx_to :: "string option"
  tx_amount :: "int option"

definition blank_tx :: "string \<Rightarrow> tx" where
  "blank_tx ty = \<lparr>tx_type = Some ty, tx_product_id = None, tx_destination = None, tx_shipper = None,
     tx_receiver = None, tx_at_customs = None, tx_check_name = None, tx_inspector = None,
     tx_reason = None, tx_released_by = None, tx_from = None, tx_to = None, tx_amount = None\<rparr>"

text \<open>The exceptions of the handlers: \<open>KeyError\<close>, and each \<open>ValueError\<close> with its data.\<close>

datatype exec_error =
    KeyErr string
  | UnknownType "string option"
  | NonPositiveAmount int
  | SenderNotFound string
  | ReceiverNotFound string
  | InsufficientFunds string int int
  | ProductNotFound string
  | CannotShip string pstatus
  | CannotReceive string pstatus
  | AlreadyQuarantined string
  | NotQuarantined string

text \<open>\<open>tx["key"]\<close> and \<open>state["key"]\<close>.\<close>

definition need :: "string \<Rightarrow> 'a option \<Rightarrow> exec_error + 'a" where
  "need k v = (case v of None \<Rightarrow> Inl (KeyErr k) | Some x \<Rightarrow> Inr x)"

lemma need_Inr_iff: "need k v = Inr x \<longleftrightarrow> v = Some x"
  by (cases v) (auto simp: need_def)

lemma need_Inl_iff: "need k v = Inl e \<longleftrightarrow> v = None \<and> e = KeyErr k"
  by (cases v) (auto simp: need_def)

lemma need_Some [simp]: "need k (Some x) = Inr x" and need_None [simp]: "need k None = Inl (KeyErr k)"
  by (simp_all add: need_def)

lemmas exec_iffs = result_iffs need_Inr_iff need_Inl_iff

subsection \<open>Well-formed states\<close>

definition wf_world :: "world \<Rightarrow> bool" where
  "wf_world w \<longleftrightarrow> pred_option wf_dict (w_balances w) \<and> pred_option wf_dict (w_products w)"

definition balances_of :: "world \<Rightarrow> int dict" where
  "balances_of w = (case w_balances w of None \<Rightarrow> [] | Some b \<Rightarrow> b)"

definition products_of :: "world \<Rightarrow> product dict" where
  "products_of w = (case w_products w of None \<Rightarrow> [] | Some p \<Rightarrow> p)"

lemma balances_of_simps [simp]:
  "w_balances w = Some b \<Longrightarrow> balances_of w = b" "w_balances w = None \<Longrightarrow> balances_of w = []"
  by (simp_all add: balances_of_def)

lemma products_of_simps [simp]:
  "w_products w = Some p \<Longrightarrow> products_of w = p" "w_products w = None \<Longrightarrow> products_of w = []"
  by (simp_all add: products_of_def)

lemma wf_world_balances: "wf_world w \<Longrightarrow> wf_dict (balances_of w)"
  by (cases "w_balances w") (simp_all add: wf_world_def)

lemma wf_world_products: "wf_world w \<Longrightarrow> wf_dict (products_of w)"
  by (cases "w_products w") (simp_all add: wf_world_def)

text \<open>Two states with the same keys and values, whatever the order of insertion.\<close>

definition same_world :: "world \<Rightarrow> world \<Rightarrow> bool" where
  "same_world v w \<longleftrightarrow>
     map_option map_of (w_balances v) = map_option map_of (w_balances w) \<and>
     map_option map_of (w_products v) = map_option map_of (w_products w)"

lemma same_world_refl [simp]: "same_world w w"
  by (simp add: same_world_def)

lemma same_world_balances: "same_world v w \<Longrightarrow> dget (balances_of v) = dget (balances_of w)"
  by (cases "w_balances v"; cases "w_balances w") (auto simp: same_world_def)

lemma same_world_products: "same_world v w \<Longrightarrow> dget (products_of v) = dget (products_of w)"
  by (cases "w_products v"; cases "w_products w") (auto simp: same_world_def)

subsection \<open>The JSON form of a state\<close>

fun status_text :: "pstatus \<Rightarrow> string" where
  "status_text Manufactured = ''manufactured''"
| "status_text In_transit = ''in_transit''"
| "status_text At_customs = ''at_customs''"
| "status_text Quarantined = ''quarantined''"
| "status_text Delivered = ''delivered''"

lemma status_text_inject [simp]: "status_text s = status_text t \<longleftrightarrow> s = t"
  by (cases s; cases t) auto

definition opt_item :: "string \<Rightarrow> ('a \<Rightarrow> json) \<Rightarrow> 'a option \<Rightarrow> json dict" where
  "opt_item k f v = (case v of None \<Rightarrow> [] | Some x \<Rightarrow> [(k, f x)])"

definition product_items :: "product \<Rightarrow> json dict" where
  "product_items p =
     [(''status'', JStr (status_text (p_status p))),
      (''location'', JStr (p_location p)),
      (''owner'', JStr (p_owner p))]
     @ opt_item ''checks'' (\<lambda>cs. JList (map JStr cs)) (p_checks p)
     @ opt_item ''quarantine_reason'' JStr (p_quarantine_reason p)"

definition json_values :: "('v \<Rightarrow> json) \<Rightarrow> 'v dict \<Rightarrow> json dict" where
  "json_values f d = map (\<lambda>(k, v). (k, f v)) d"

definition world_items :: "world \<Rightarrow> json dict" where
  "world_items w =
     opt_item ''balances'' (\<lambda>b. JObj (json_values JInt b)) (w_balances w)
     @ opt_item ''products'' (\<lambda>p. JObj (json_values (\<lambda>q. JObj (product_items q)) p)) (w_products w)"

definition world_json :: "world \<Rightarrow> json" where
  "world_json w = JObj (world_items w)"

lemma fst_json_values [simp]: "map fst (json_values f d) = map fst d"
  by (induction d) (auto simp: json_values_def)

lemma dget_json_values: "dget (json_values f d) k = map_option f (dget d k)"
  by (induction d) (auto simp: json_values_def)

lemma wf_product_items: "wf_dict (product_items p)"
  by (simp add: product_items_def opt_item_def split: option.split)

lemma wf_world_items: "wf_dict (world_items w)"
  by (simp add: world_items_def opt_item_def split: option.split)

subsection \<open>The canonical form determines the state\<close>

lemma mset_eq_dget_eq:
  assumes "mset d = mset d'" and "wf_dict d"
  shows "dget d = dget d'"
proof -
  have "wf_dict d'" using assms by (metis mset_eq_imp_distinct_iff mset_map)
  moreover have "set d = set d'" using assms(1) by (rule mset_eq_setD)
  ultimately show ?thesis using assms(2) by (simp add: map_of_inject_set)
qed

lemma dget_eq_mset_eq:
  assumes "dget d = dget d'" and "wf_dict d" and "wf_dict d'"
  shows "mset d = mset d'"
proof -
  have "set d = set d'" using assms by (metis map_of_inject_set)
  moreover have "distinct d" "distinct d'" using assms(2,3) by (simp_all add: distinct_map)
  ultimately show ?thesis by (simp add: set_eq_iff_mset_eq_distinct)
qed

lemma sort_keys_obj_iff:
  assumes "wf_dict kvs" and "wf_dict lvs"
  shows "sort_keys (JObj kvs) = sort_keys (JObj lvs)
    \<longleftrightarrow> (\<forall>k. map_option sort_keys (dget kvs k) = map_option sort_keys (dget lvs k))"
    (is "?eq \<longleftrightarrow> ?pointwise")
proof -
  have wf: "wf_dict (json_values sort_keys kvs)" "wf_dict (json_values sort_keys lvs)"
    using assms by simp_all
  have "?eq \<longleftrightarrow> sorted_items (json_values sort_keys kvs) = sorted_items (json_values sort_keys lvs)"
    by (simp add: json_values_def)
  also have "\<dots> \<longleftrightarrow> mset (json_values sort_keys kvs) = mset (json_values sort_keys lvs)"
    using wf by (metis mset_sorted_items sorted_items_perm)
  also have "\<dots> \<longleftrightarrow> dget (json_values sort_keys kvs) = dget (json_values sort_keys lvs)"
    using wf mset_eq_dget_eq dget_eq_mset_eq by blast
  finally show ?thesis by (simp add: fun_eq_iff dget_json_values)
qed

lemma sort_keys_values_iff:
  assumes "wf_dict d" and "wf_dict d'" and "\<And>x y. sort_keys (f x) = sort_keys (f y) \<longleftrightarrow> x = y"
  shows "sort_keys (JObj (json_values f d)) = sort_keys (JObj (json_values f d')) \<longleftrightarrow> dget d = dget d'"
proof -
  have "map_option sort_keys (map_option f a) = map_option sort_keys (map_option f b) \<longleftrightarrow> a = b" for a b
    using assms(3) by (cases a; cases b) auto
  then show ?thesis
    using assms(1,2) by (subst sort_keys_obj_iff) (auto simp: dget_json_values fun_eq_iff)
qed

lemma inj_JStr: "map JStr xs = map JStr ys \<longleftrightarrow> xs = ys"
  by (simp add: inj_map_eq_map inj_def)

lemma sort_keys_JStrs [simp]: "map (sort_keys \<circ> JStr) xs = map JStr xs"
  by simp

lemma product_items_lookup:
  "dget (product_items p) ''status'' = Some (JStr (status_text (p_status p)))"
  "dget (product_items p) ''location'' = Some (JStr (p_location p))"
  "dget (product_items p) ''owner'' = Some (JStr (p_owner p))"
  "dget (product_items p) ''checks'' = map_option (\<lambda>cs. JList (map JStr cs)) (p_checks p)"
  "dget (product_items p) ''quarantine_reason'' = map_option JStr (p_quarantine_reason p)"
  by (simp_all add: product_items_def opt_item_def split: option.split)

lemma sort_keys_product_inject:
  "sort_keys (JObj (product_items p)) = sort_keys (JObj (product_items q)) \<longleftrightarrow> p = q"
proof
  assume "sort_keys (JObj (product_items p)) = sort_keys (JObj (product_items q))"
  then have eq: "map_option sort_keys (dget (product_items p) k)
      = map_option sort_keys (dget (product_items q) k)" for k
    by (simp only: sort_keys_obj_iff [OF wf_product_items wf_product_items])
  have "p_checks p = p_checks q"
    using eq [of "''checks''"]
    by (cases "p_checks p"; cases "p_checks q") (auto simp: product_items_lookup inj_JStr)
  moreover have "p_quarantine_reason p = p_quarantine_reason q"
    using eq [of "''quarantine_reason''"]
    by (cases "p_quarantine_reason p"; cases "p_quarantine_reason q") (auto simp: product_items_lookup)
  ultimately show "p = q"
    using eq [of "''status''"] eq [of "''location''"] eq [of "''owner''"]
    by (simp add: product_items_lookup)
qed simp

lemma world_items_lookup:
  "dget (world_items w) k =
    (if k = ''balances'' then map_option (\<lambda>b. JObj (json_values JInt b)) (w_balances w)
     else if k = ''products''
       then map_option (\<lambda>p. JObj (json_values (\<lambda>q. JObj (product_items q)) p)) (w_products w)
     else None)"
  by (simp add: world_items_def opt_item_def split: option.split)

lemma opt_values_iff:
  assumes "pred_option wf_dict a" and "pred_option wf_dict b"
    and "\<And>x y. sort_keys (f x) = sort_keys (f y) \<longleftrightarrow> x = y"
  shows "map_option sort_keys (map_option (\<lambda>d. JObj (json_values f d)) a)
      = map_option sort_keys (map_option (\<lambda>d. JObj (json_values f d)) b)
    \<longleftrightarrow> map_option map_of a = map_option map_of b"
  using assms sort_keys_values_iff [where f = f]
  by (cases a; cases b) (simp_all del: sort_keys.simps)

lemma world_canonical_eq_iff:
  assumes "wf_world v" and "wf_world w"
  shows "canonical_json (world_json v) = canonical_json (world_json w) \<longleftrightarrow> same_world v w"
proof -
  have "canonical_json (world_json v) = canonical_json (world_json w)
    \<longleftrightarrow> (\<forall>k. map_option sort_keys (dget (world_items v) k) = map_option sort_keys (dget (world_items w) k))"
    unfolding canonical_json_eq_iff world_json_def
    by (rule sort_keys_obj_iff [OF wf_world_items wf_world_items])
  also have "\<dots> \<longleftrightarrow>
      map_option sort_keys (dget (world_items v) ''balances'') = map_option sort_keys (dget (world_items w) ''balances'')
    \<and> map_option sort_keys (dget (world_items v) ''products'') = map_option sort_keys (dget (world_items w) ''products'')"
    by (metis world_items_lookup)
  also have "\<dots> \<longleftrightarrow> same_world v w"
    using assms opt_values_iff [where f = JInt] opt_values_iff [where f = "\<lambda>q. JObj (product_items q)"]
    by (simp add: world_items_lookup same_world_def wf_world_def sort_keys_product_inject
      del: sort_keys.simps(2))
  finally show ?thesis .
qed

end
