(* ===== verification/ExecutionEngine.thy ===== *)
theory ExecutionEngine
  imports WorldState
begin

section \<open>The deterministic execution engine\<close>

text \<open>
  \<open>ecn/execution_engine.py\<close>: the three financial handlers, the registry of handlers and
  \<open>execute\<close>. A handler is a function of the state and the transaction, its exceptions the
  \<open>Inl\<close> values; the deep copies of the source are what a HOL value is anyway.

  The locales \<open>world_handler\<close> and \<open>handler_registry\<close> state what the engine needs from a
  handler (it keeps states well-formed and balances non-negative, it depends on the state's
  keys and values only) and prove the same of \<open>execute\<close>.
\<close>

type_synonym handler = "world \<Rightarrow> tx \<Rightarrow> exec_error + world"
type_synonym registry = "string \<rightharpoonup> handler"

subsection \<open>Handlers\<close>

text \<open>\<open>d[k] += x\<close> for a key that is present.\<close>

definition dadd :: "string \<Rightarrow> int \<Rightarrow> int dict \<Rightarrow> int dict" where
  "dadd k x d = dset k (dget_or d k 0 + x) d"

definition handle_transfer :: handler where
  "handle_transfer w t =
     bindE (need ''from'' (tx_from t)) (\<lambda>sender.
     bindE (need ''to'' (tx_to t)) (\<lambda>receiver.
     bindE (need ''amount'' (tx_amount t)) (\<lambda>amount.
     if amount \<le> 0 then Inl (NonPositiveAmount amount)
     else bindE (need ''balances'' (w_balances w)) (\<lambda>balances.
       case dget balances sender of
         None \<Rightarrow> Inl (SenderNotFound sender)
       | Some funds \<Rightarrow>
         if dget balances receiver = None then Inl (ReceiverNotFound receiver)
         else if funds < amount then Inl (InsufficientFunds sender funds amount)
         else Inr (w\<lparr>w_balances := Some (dadd receiver amount (dadd sender (- amount) balances))\<rparr>)))))"

definition handle_mint :: handler where
  "handle_mint w t =
     bindE (need ''to'' (tx_to t)) (\<lambda>receiver.
     bindE (need ''amount'' (tx_amount t)) (\<lambda>amount.
     if amount \<le> 0 then Inl (NonPositiveAmount amount)
     else bindE (need ''balances'' (w_balances w)) (\<lambda>balances.
       Inr (w\<lparr>w_balances := Some (dset receiver (dget_or balances receiver 0 + amount) balances)\<rparr>))))"

definition handle_burn :: handler where
  "handle_burn w t =
     bindE (need ''from'' (tx_from t)) (\<lambda>sender.
     bindE (need ''amount'' (tx_amount t)) (\<lambda>amount.
     if amount \<le> 0 then Inl (NonPositiveAmount amount)
     else bindE (need ''balances'' (w_balances w)) (\<lambda>balances.
       case dget balances sender of
         None \<Rightarrow> Inl (SenderNotFound sender)
       | Some funds \<Rightarrow>
         if funds < amount then Inl (InsufficientFunds sender funds amount)
         else Inr (w\<lparr>w_balances := Some (dadd sender (- amount) balances)\<rparr>))))"

subsection \<open>The registry and execute\<close>

definition handlers0 :: registry where
  "handlers0 = [''transfer'' \<mapsto> handle_transfer, ''mint'' \<mapsto> handle_mint, ''burn'' \<mapsto> handle_burn]"

definition register_handler :: "string \<Rightarrow> handler \<Rightarrow> registry \<Rightarrow> registry" where
  "register_handler ty h R = R(ty \<mapsto> h)"

definition execute :: "registry \<Rightarrow> world \<Rightarrow> tx \<Rightarrow> exec_error + world" where
  "execute R w t =
     (case Option.bind (tx_type t) R of
        None \<Rightarrow> Inl (UnknownType (tx_type t))
      | Some h \<Rightarrow> h w t)"

subsection \<open>Dicts of balances\<close>

lemma dget_dadd [simp, dict_simps]:
  "dget (dadd k x d) k' = (if k' = k then Some (dget_or d k 0 + x) else dget d k')"
  by (simp add: dadd_def)

lemma wf_dadd [simp, intro, dict_intros]: "wf_dict d \<Longrightarrow> wf_dict (dadd k x d)"
  by (simp add: dadd_def)

lemma dget_or_dadd [simp, dict_simps]:
  "dget_or (dadd k x d) k' 0 = (if k' = k then dget_or d k 0 + x else dget_or d k' 0)"
  by (simp add: dadd_def)

lemma dsum_dadd [simp]: "wf_dict d \<Longrightarrow> dsum (dadd k x d) = dsum d + x"
  by (simp add: dadd_def dsum_dset)

lemma dget_or_Some [simp]: "dget d k = Some v \<Longrightarrow> dget_or d k x = v"
  and dget_or_None [simp]: "dget d k = None \<Longrightarrow> dget_or d k x = x"
  by (simp_all add: dget_or_def)

text \<open>The total supply of a state, the quantity that transfers keep.\<close>

definition total_supply :: "world \<Rightarrow> int" where
  "total_supply w = dsum (balances_of w)"

definition balance :: "world \<Rightarrow> string \<Rightarrow> int" where
  "balance w a = dget_or (balances_of w) a 0"

definition solvent :: "world \<Rightarrow> bool" where
  "solvent w \<longleftrightarrow> (\<forall>(a, v) \<in> set (balances_of w). 0 \<le> v)"

lemma solvent_iff: "wf_world w \<Longrightarrow> solvent w \<longleftrightarrow> (\<forall>a v. dget (balances_of w) a = Some v \<longrightarrow> 0 \<le> v)"
  using wf_world_balances [of w] by (auto simp: solvent_def)

subsection \<open>What a handler that succeeds has done\<close>

lemma handle_transfer_Inr_iff:
  "handle_transfer w t = Inr w' \<longleftrightarrow>
     (\<exists>s r a b. tx_from t = Some s \<and> tx_to t = Some r \<and> tx_amount t = Some a \<and> 0 < a \<and>
       w_balances w = Some b \<and> dget b r \<noteq> None \<and> (\<exists>f. dget b s = Some f \<and> a \<le> f) \<and>
       w' = w\<lparr>w_balances := Some (dadd r a (dadd s (- a) b))\<rparr>)"
  by (rule iffI)
     ((auto simp: handle_transfer_def exec_iffs not_le not_less split: if_splits option.splits)[1],
      auto simp: handle_transfer_def not_le)

lemma handle_mint_Inr_iff:
  "handle_mint w t = Inr w' \<longleftrightarrow>
     (\<exists>r a b. tx_to t = Some r \<and> tx_amount t = Some a \<and> 0 < a \<and> w_balances w = Some b \<and>
       w' = w\<lparr>w_balances := Some (dset r (dget_or b r 0 + a) b)\<rparr>)"
  by (rule iffI)
     ((auto simp: handle_mint_def exec_iffs not_le not_less split: if_splits option.splits)[1],
      auto simp: handle_mint_def not_le)

lemma handle_burn_Inr_iff:
  "handle_burn w t = Inr w' \<longleftrightarrow>
     (\<exists>s a b. tx_from t = Some s \<and> tx_amount t = Some a \<and> 0 < a \<and> w_balances w = Some b \<and>
       (\<exists>f. dget b s = Some f \<and> a \<le> f) \<and> w' = w\<lparr>w_balances := Some (dadd s (- a) b)\<rparr>)"
  by (rule iffI)
     ((auto simp: handle_burn_def exec_iffs not_le not_less split: if_splits option.splits)[1],
      auto simp: handle_burn_def not_le)

lemmas financial_iffs = handle_transfer_Inr_iff handle_mint_Inr_iff handle_burn_Inr_iff

lemma wf_world_set_balances [simp]:
  "wf_world w \<Longrightarrow> wf_dict b \<Longrightarrow> wf_world (w\<lparr>w_balances := Some b\<rparr>)"
  by (simp add: wf_world_def)

lemma wf_world_Some_balances: "wf_world w \<Longrightarrow> w_balances w = Some b \<Longrightarrow> wf_dict b"
  by (simp add: wf_world_def)

lemmas wf_balances_intros = wf_dadd wf_dset wf_world_Some_balances

lemma handle_transfer_balance:
  assumes "handle_transfer w t = Inr w'" and "tx_from t = Some s" and "tx_to t = Some r"
    and "tx_amount t = Some a"
  shows "balance w' x = balance w x - (if x = s then a else 0) + (if x = r then a else 0)"
  using assms by (auto simp: handle_transfer_Inr_iff balance_def)

lemma handle_transfer_supply:
  "wf_world w \<Longrightarrow> handle_transfer w t = Inr w' \<Longrightarrow> total_supply w' = total_supply w"
  by (auto simp: handle_transfer_Inr_iff total_supply_def dest: wf_world_Some_balances)

lemma handle_mint_supply:
  "wf_world w \<Longrightarrow> handle_mint w t = Inr w' \<Longrightarrow> tx_amount t = Some a \<Longrightarrow> total_supply w' = total_supply w + a"
  by (auto simp: handle_mint_Inr_iff total_supply_def dsum_dset dest: wf_world_Some_balances)

lemma handle_burn_supply:
  "wf_world w \<Longrightarrow> handle_burn w t = Inr w' \<Longrightarrow> tx_amount t = Some a \<Longrightarrow> total_supply w' = total_supply w - a"
  by (auto simp: handle_burn_Inr_iff total_supply_def dest: wf_world_Some_balances)

subsection \<open>The contract of a handler\<close>

locale world_handler =
  fixes h :: handler
  assumes keeps_wf: "wf_world w \<Longrightarrow> h w t = Inr w' \<Longrightarrow> wf_world w'"
    and keeps_solvent: "wf_world w \<Longrightarrow> solvent w \<Longrightarrow> h w t = Inr w' \<Longrightarrow> solvent w'"
    and cong_Inr: "same_world v w \<Longrightarrow> h w t = Inr w' \<Longrightarrow> \<exists>v'. h v t = Inr v' \<and> same_world v' w'"
begin

lemma cong_Inl:
  assumes "same_world v w" and "h w t = Inl e"
  shows "\<exists>e'. h v t = Inl e'"
proof (cases "h v t")
  case (Inr v')
  moreover have "same_world w v" using assms(1) by (simp add: same_world_def)
  ultimately have "\<exists>w'. h w t = Inr w'" using cong_Inr by blast
  with assms(2) show ?thesis by simp
qed blast

end

lemma solventD: "wf_world w \<Longrightarrow> solvent w \<Longrightarrow> w_balances w = Some b \<Longrightarrow> dget b x = Some y \<Longrightarrow> 0 \<le> y"
  by (simp add: solvent_iff)

lemma solvent_dget_or: "wf_world w \<Longrightarrow> solvent w \<Longrightarrow> w_balances w = Some b \<Longrightarrow> 0 \<le> dget_or b x 0"
  using solventD [of w b x] by (cases "dget b x") simp_all

lemma solvent_dset:
  assumes "wf_world w" and "solvent w" and "w_balances w = Some b" and "0 \<le> v"
  shows "solvent (w\<lparr>w_balances := Some (dset k v b)\<rparr>)"
proof -
  have "wf_world (w\<lparr>w_balances := Some (dset k v b)\<rparr>)"
    using assms by (intro wf_world_set_balances wf_balances_intros)
  then show ?thesis using assms by (auto simp: solvent_iff split: if_splits)
qed

lemma solvent_dadd:
  assumes "wf_world w" and "solvent w" and "w_balances w = Some b" and "0 \<le> dget_or b k 0 + x"
  shows "solvent (w\<lparr>w_balances := Some (dadd k x b)\<rparr>)"
  using assms unfolding dadd_def by (rule solvent_dset)

lemma same_world_Some_balances:
  "same_world v w \<Longrightarrow> w_balances w = Some b \<Longrightarrow> \<exists>b'. w_balances v = Some b' \<and> dget b' = dget b"
  by (cases "w_balances v") (auto simp: same_world_def)

lemma same_world_set_balances:
  "same_world v w \<Longrightarrow> dget b' = dget b \<Longrightarrow>
    same_world (v\<lparr>w_balances := Some b'\<rparr>) (w\<lparr>w_balances := Some b\<rparr>)"
  by (simp add: same_world_def)

lemma dget_or_cong: "dget d = dget d' \<Longrightarrow> dget_or d k x = dget_or d' k x"
  by (simp add: dget_or_def)

lemma dget_dset_cong: "dget d = dget d' \<Longrightarrow> dget (dset k v d) = dget (dset k v d')"
  by (rule ext) simp

lemma dget_dadd_cong: "dget d = dget d' \<Longrightarrow> dget (dadd k x d) = dget (dadd k x d')"
  by (rule ext) (simp add: dget_or_cong [of d d'])

lemma world_handler_transfer: "world_handler handle_transfer"
proof
  fix w t w' assume "wf_world w" "handle_transfer w t = Inr w'"
  then show "wf_world w'"
    by (auto simp: handle_transfer_Inr_iff intro!: wf_world_set_balances wf_balances_intros)
next
  fix w t w' assume w: "wf_world w" "solvent w" and "handle_transfer w t = Inr w'"
  then obtain s r a b f where h: "w_balances w = Some b" "dget b s = Some f" "a \<le> f" "0 < a"
    and w': "w' = w\<lparr>w_balances := Some (dadd r a (dadd s (- a) b))\<rparr>"
    by (auto simp: handle_transfer_Inr_iff)
  let ?v = "w\<lparr>w_balances := Some (dadd s (- a) b)\<rparr>"
  have v: "wf_world ?v" "solvent ?v"
    using w h by (auto intro!: wf_world_set_balances wf_balances_intros solvent_dadd)
  have "solvent (?v\<lparr>w_balances := Some (dadd r a (dadd s (- a) b))\<rparr>)"
    using h solvent_dget_or [OF v, of "dadd s (- a) b" r] by (intro solvent_dadd [OF v]) simp_all
  then show "solvent w'" using w' by simp
next
  fix v w t w' assume v: "same_world v w" and "handle_transfer w t = Inr w'"
  then obtain s r a b f where t: "tx_from t = Some s" "tx_to t = Some r" "tx_amount t = Some a"
    and h: "w_balances w = Some b" "dget b s = Some f" "a \<le> f" "0 < a" "dget b r \<noteq> None"
    and w': "w' = w\<lparr>w_balances := Some (dadd r a (dadd s (- a) b))\<rparr>"
    by (auto simp: handle_transfer_Inr_iff)
  obtain b' where b': "w_balances v = Some b'" "dget b' = dget b"
    using same_world_Some_balances [OF v h(1)] by blast
  then have "handle_transfer v t = Inr (v\<lparr>w_balances := Some (dadd r a (dadd s (- a) b'))\<rparr>)"
    using t h by (simp add: handle_transfer_def)
  moreover have "same_world (v\<lparr>w_balances := Some (dadd r a (dadd s (- a) b'))\<rparr>) w'"
    using v b' unfolding w' by (intro same_world_set_balances dget_dadd_cong)
  ultimately show "\<exists>v'. handle_transfer v t = Inr v' \<and> same_world v' w'" by blast
qed

lemma world_handler_mint: "world_handler handle_mint"
proof
  fix w t w' assume "wf_world w" "handle_mint w t = Inr w'"
  then show "wf_world w'"
    by (auto simp: handle_mint_Inr_iff intro!: wf_world_set_balances wf_balances_intros)
next
  fix w t w' assume "wf_world w" "solvent w" "handle_mint w t = Inr w'"
  then show "solvent w'"
    by (auto simp: handle_mint_Inr_iff intro!: solvent_dset add_nonneg_nonneg dest: solvent_dget_or)
next
  fix v w t w' assume v: "same_world v w" and "handle_mint w t = Inr w'"
  then obtain r a b where t: "tx_to t = Some r" "tx_amount t = Some a" "0 < a"
    and h: "w_balances w = Some b"
    and w': "w' = w\<lparr>w_balances := Some (dset r (dget_or b r 0 + a) b)\<rparr>"
    by (auto simp: handle_mint_Inr_iff)
  obtain b' where b': "w_balances v = Some b'" "dget b' = dget b"
    using same_world_Some_balances [OF v h] by blast
  then have "handle_mint v t = Inr (v\<lparr>w_balances := Some (dset r (dget_or b r 0 + a) b')\<rparr>)"
    using t by (simp add: handle_mint_def dget_or_cong [of b' b])
  moreover have "same_world (v\<lparr>w_balances := Some (dset r (dget_or b r 0 + a) b')\<rparr>) w'"
    using v b' unfolding w' by (intro same_world_set_balances dget_dset_cong)
  ultimately show "\<exists>v'. handle_mint v t = Inr v' \<and> same_world v' w'" by blast
qed

lemma world_handler_burn: "world_handler handle_burn"
proof
  fix w t w' assume "wf_world w" "handle_burn w t = Inr w'"
  then show "wf_world w'"
    by (auto simp: handle_burn_Inr_iff intro!: wf_world_set_balances wf_balances_intros)
next
  fix w t w' assume "wf_world w" "solvent w" "handle_burn w t = Inr w'"
  then show "solvent w'"
    by (auto simp: handle_burn_Inr_iff intro!: solvent_dadd)
next
  fix v w t w' assume v: "same_world v w" and "handle_burn w t = Inr w'"
  then obtain s a b f where t: "tx_from t = Some s" "tx_amount t = Some a" "0 < a"
    and h: "w_balances w = Some b" "dget b s = Some f" "a \<le> f"
    and w': "w' = w\<lparr>w_balances := Some (dadd s (- a) b)\<rparr>"
    by (auto simp: handle_burn_Inr_iff)
  obtain b' where b': "w_balances v = Some b'" "dget b' = dget b"
    using same_world_Some_balances [OF v h(1)] by blast
  then have "handle_burn v t = Inr (v\<lparr>w_balances := Some (dadd s (- a) b')\<rparr>)"
    using t h by (simp add: handle_burn_def)
  moreover have "same_world (v\<lparr>w_balances := Some (dadd s (- a) b')\<rparr>) w'"
    using v b' unfolding w' by (intro same_world_set_balances dget_dadd_cong)
  ultimately show "\<exists>v'. handle_burn v t = Inr v' \<and> same_world v' w'" by blast
qed

lemmas financial_handlers [handler_intros] =
  world_handler_transfer world_handler_mint world_handler_burn

interpretation transfer: world_handler handle_transfer
  by (rule world_handler_transfer)

interpretation mint: world_handler handle_mint
  by (rule world_handler_mint)

interpretation burn: world_handler handle_burn
  by (rule world_handler_burn)

subsection \<open>The contract of a registry\<close>

locale handler_registry =
  fixes R :: registry
  assumes registered: "R ty = Some h \<Longrightarrow> world_handler h"
begin

lemma execute_handler:
  "execute R w t = Inr w' \<Longrightarrow> \<exists>h. world_handler h \<and> h w t = Inr w' \<and> Option.bind (tx_type t) R = Some h"
  by (auto simp: execute_def registered bind_eq_Some_conv split: option.splits)

lemma execute_wf: "wf_world w \<Longrightarrow> execute R w t = Inr w' \<Longrightarrow> wf_world w'"
  using execute_handler world_handler.keeps_wf by blast

lemma execute_solvent: "wf_world w \<Longrightarrow> solvent w \<Longrightarrow> execute R w t = Inr w' \<Longrightarrow> solvent w'"
  using execute_handler world_handler.keeps_solvent by blast

lemma execute_cong:
  assumes "same_world v w" and "execute R w t = Inr w'"
  shows "\<exists>v'. execute R v t = Inr v' \<and> same_world v' w'"
proof -
  obtain h where "world_handler h" "h w t = Inr w'" "Option.bind (tx_type t) R = Some h"
    using execute_handler [OF assms(2)] by blast
  moreover from this assms(1) obtain v' where "h v t = Inr v'" "same_world v' w'"
    using world_handler.cong_Inr by blast
  ultimately show ?thesis by (simp add: execute_def)
qed

lemma execute_cong_fails:
  assumes "same_world v w" and "execute R w t = Inl e"
  shows "\<exists>e'. execute R v t = Inl e'"
proof (cases "execute R v t")
  case (Inr v')
  moreover have "same_world w v" using assms(1) by (simp add: same_world_def)
  ultimately have "\<exists>w'. execute R w t = Inr w'" using execute_cong by blast
  with assms(2) show ?thesis by simp
qed blast

end

lemma handler_registry_register:
  "handler_registry R \<Longrightarrow> world_handler h \<Longrightarrow> handler_registry (register_handler ty h R)"
  by (auto simp: handler_registry_def register_handler_def split: if_splits)

lemma handler_registry_handlers0: "handler_registry handlers0"
  by (auto simp: handler_registry_def handlers0_def intro: handler_intros split: if_splits)

interpretation builtin: handler_registry handlers0
  by (rule handler_registry_handlers0)

subsection \<open>What a transfer does\<close>

text \<open>A transfer succeeds exactly when the amount is positive, both accounts exist and the sender
  holds at least the amount; it then moves the amount from the sender to the receiver (nothing,
  when they are the same), and changes no other balance, no product and not the total supply.\<close>

lemma transfer_correct:
  assumes "wf_world w" and "w_balances w = Some b"
    and "tx_from t = Some s" and "tx_to t = Some r" and "tx_amount t = Some a"
  shows "((\<exists>w'. handle_transfer w t = Inr w') \<longleftrightarrow>
            0 < a \<and> s \<in> fst ` set b \<and> r \<in> fst ` set b \<and> a \<le> balance w s)
    \<and> (\<forall>w'. handle_transfer w t = Inr w' \<longrightarrow>
          (\<forall>x. balance w' x = balance w x - (if x = s then a else 0) + (if x = r then a else 0))
          \<and> total_supply w' = total_supply w \<and> w_products w' = w_products w)"
proof -
  have key: "k \<in> fst ` set b \<longleftrightarrow> (\<exists>v. dget b k = Some v)" for k
    using dget_None_iff [of b k] by auto
  have "(\<exists>w'. handle_transfer w t = Inr w') \<longleftrightarrow>
      0 < a \<and> s \<in> fst ` set b \<and> r \<in> fst ` set b \<and> a \<le> balance w s"
    using assms by (auto simp: handle_transfer_Inr_iff key balance_def)
  moreover have "(\<forall>x. balance w' x = balance w x - (if x = s then a else 0) + (if x = r then a else 0))
      \<and> total_supply w' = total_supply w \<and> w_products w' = w_products w"
    if "handle_transfer w t = Inr w'" for w'
    using that assms handle_transfer_supply [OF assms(1) that]
    by (auto simp: handle_transfer_Inr_iff balance_def)
  ultimately show ?thesis by blast
qed

definition example_world :: world where
  "example_world = \<lparr>w_balances = Some [(''A'', 1000), (''B'', 500)], w_products = None\<rparr>"

definition example_transfer :: "int \<Rightarrow> tx" where
  "example_transfer a = (blank_tx ''transfer'')\<lparr>tx_from := Some ''A'', tx_to := Some ''B'', tx_amount := Some a\<rparr>"

lemma wf_example_world: "wf_world example_world"
  by (simp add: wf_world_def example_world_def)

lemma transfer_correct_example:
  "(\<exists>w'. handle_transfer example_world (example_transfer 100) = Inr w')
   \<and> \<not> (\<exists>w'. handle_transfer example_world (example_transfer 2000) = Inr w')"
  using transfer_correct [OF wf_example_world, of _ "example_transfer 100" "''A''" "''B''" 100]
    transfer_correct [OF wf_example_world, of _ "example_transfer 2000" "''A''" "''B''" 2000]
  by (simp add: example_world_def example_transfer_def balance_def dget_or_def)

end
