(* ===== verification/SupplyChain.thy ===== *)
theory SupplyChain
  imports ExecutionEngine
begin

section \<open>The supply-chain transactions\<close>

text \<open>
  \<open>ecn/use_cases/supply_chain.py\<close>: the five handlers that act on one product, their
  registration and the initial state. All five have one shape (read the fields, find the
  product, check and change it, store it back), which \<open>product_handler\<close> captures, so that
  the engine's handler contract is proved once.

  The status of a product moves along the edges of \<open>status_step\<close>; a well-formed product has
  a quarantine reason exactly while it is quarantined and its list of passed checks sorted
  and without repetitions (\<open>wf_product\<close>).
\<close>

subsection \<open>Handlers\<close>

definition get_product :: "world \<Rightarrow> string \<Rightarrow> exec_error + product" where
  "get_product w pid =
     (case dget (products_of w) pid of None \<Rightarrow> Inl (ProductNotFound pid) | Some p \<Rightarrow> Inr p)"

definition put_product :: "string \<Rightarrow> product \<Rightarrow> world \<Rightarrow> world" where
  "put_product pid p w = w\<lparr>w_products := Some (dset pid p (products_of w))\<rparr>"

definition handle_ship :: handler where
  "handle_ship w t =
     bindE (need ''product_id'' (tx_product_id t)) (\<lambda>pid.
     bindE (need ''destination'' (tx_destination t)) (\<lambda>destination.
     bindE (need ''shipper'' (tx_shipper t)) (\<lambda>shipper.
     bindE (get_product w pid) (\<lambda>p.
       if p_status p \<in> {In_transit, Quarantined} then Inl (CannotShip pid (p_status p))
       else Inr (put_product pid
         (p\<lparr>p_status := In_transit, p_location := destination, p_owner := shipper\<rparr>) w)))))"

definition handle_receive :: handler where
  "handle_receive w t =
     bindE (need ''product_id'' (tx_product_id t)) (\<lambda>pid.
     bindE (need ''receiver'' (tx_receiver t)) (\<lambda>receiver.
     let at_customs = (case tx_at_customs t of None \<Rightarrow> False | Some b \<Rightarrow> b) in
     bindE (get_product w pid) (\<lambda>p.
       if p_status p \<noteq> In_transit then Inl (CannotReceive pid (p_status p))
       else Inr (put_product pid
         (p\<lparr>p_status := (if at_customs then At_customs else Delivered), p_owner := receiver\<rparr>) w))))"

definition handle_inspect :: handler where
  "handle_inspect w t =
     bindE (need ''product_id'' (tx_product_id t)) (\<lambda>pid.
     bindE (need ''check_name'' (tx_check_name t)) (\<lambda>check_name.
     bindE (get_product w pid) (\<lambda>p.
       let checks = (case p_checks p of None \<Rightarrow> [] | Some cs \<Rightarrow> cs);
           checks' = (if check_name \<in> set checks then checks else sort (checks @ [check_name]))
       in Inr (put_product pid (p\<lparr>p_checks := Some checks'\<rparr>) w))))"

definition handle_quarantine :: handler where
  "handle_quarantine w t =
     bindE (need ''product_id'' (tx_product_id t)) (\<lambda>pid.
     bindE (need ''reason'' (tx_reason t)) (\<lambda>reason.
     bindE (get_product w pid) (\<lambda>p.
       if p_status p = Quarantined then Inl (AlreadyQuarantined pid)
       else Inr (put_product pid
         (p\<lparr>p_status := Quarantined, p_quarantine_reason := Some reason\<rparr>) w))))"

definition handle_release :: handler where
  "handle_release w t =
     bindE (need ''product_id'' (tx_product_id t)) (\<lambda>pid.
     bindE (get_product w pid) (\<lambda>p.
       if p_status p \<noteq> Quarantined then Inl (NotQuarantined pid)
       else Inr (put_product pid
         (p\<lparr>p_status := At_customs, p_quarantine_reason := None\<rparr>) w)))"

definition register_supply_chain_handlers :: "registry \<Rightarrow> registry" where
  "register_supply_chain_handlers R =
     register_handler ''release'' handle_release
      (register_handler ''quarantine'' handle_quarantine
        (register_handler ''inspect'' handle_inspect
          (register_handler ''receive'' handle_receive
            (register_handler ''ship'' handle_ship R))))"

text \<open>The registry of the running program: \<open>ecn/api.py\<close> registers the handlers at import.\<close>

definition ecn_handlers :: registry where
  "ecn_handlers = register_supply_chain_handlers handlers0"

definition fresh_product :: product where
  "fresh_product = \<lparr>p_status = Manufactured, p_location = ''factory'', p_owner = ''manufacturer'',
     p_checks = Some [], p_quarantine_reason = None\<rparr>"

definition make_initial_state :: "string list \<Rightarrow> world" where
  "make_initial_state pids =
     \<lparr>w_balances = None, w_products = Some (fold (\<lambda>pid d. dset pid fresh_product d) pids [])\<rparr>"

subsection \<open>The common shape\<close>

definition product_handler ::
  "(tx \<Rightarrow> exec_error + 'a) \<Rightarrow> ('a \<Rightarrow> string) \<Rightarrow> ('a \<Rightarrow> product \<Rightarrow> exec_error + product) \<Rightarrow> handler" where
  "product_handler args pid upd w t =
     bindE (args t) (\<lambda>a. bindE (get_product w (pid a)) (\<lambda>p.
       bindE (upd a p) (\<lambda>p'. Inr (put_product (pid a) p' w))))"

lemma get_product_Inr_iff [simp]: "get_product w pid = Inr p \<longleftrightarrow> dget (products_of w) pid = Some p"
  by (simp add: get_product_def split: option.split)

lemma get_product_Inl_iff [simp]:
  "get_product w pid = Inl e \<longleftrightarrow> dget (products_of w) pid = None \<and> e = ProductNotFound pid"
  by (auto simp: get_product_def split: option.split)

lemma products_of_put [simp]: "products_of (put_product pid p w) = dset pid p (products_of w)"
  by (simp add: put_product_def)

lemma balances_of_put [simp]: "balances_of (put_product pid p w) = balances_of w"
  by (simp add: put_product_def balances_of_def)

lemma w_balances_put [simp]: "w_balances (put_product pid p w) = w_balances w"
  by (simp add: put_product_def)

lemma wf_world_put: "wf_world w \<Longrightarrow> wf_world (put_product pid p w)"
  using wf_world_products [of w] by (simp add: wf_world_def put_product_def)

lemma solvent_put [simp]: "solvent (put_product pid p w) = solvent w"
  by (simp add: solvent_def)

lemma same_world_put:
  assumes "same_world v w"
  shows "same_world (put_product pid p v) (put_product pid p w)"
  using assms same_world_products [OF assms]
  by (auto simp: same_world_def put_product_def update_conv)

lemma product_handler_Inr_iff:
  "product_handler args pid upd w t = Inr w' \<longleftrightarrow>
     (\<exists>a p p'. args t = Inr a \<and> dget (products_of w) (pid a) = Some p \<and> upd a p = Inr p' \<and>
       w' = put_product (pid a) p' w)"
  by (auto simp: product_handler_def result_iffs)

lemma world_handler_product: "world_handler (product_handler args pid upd)"
proof
  fix w t w' assume "wf_world w" "product_handler args pid upd w t = Inr w'"
  then show "wf_world w'" by (auto simp: product_handler_Inr_iff intro: wf_world_put)
next
  fix w t w' assume "solvent w" "product_handler args pid upd w t = Inr w'"
  then show "solvent w'" by (auto simp: product_handler_Inr_iff)
next
  fix v w t w' assume "same_world v w" "product_handler args pid upd w t = Inr w'"
  then show "\<exists>v'. product_handler args pid upd v t = Inr v' \<and> same_world v' w'"
    using same_world_products by (fastforce simp: product_handler_Inr_iff intro: same_world_put)
qed

text \<open>The five handlers as instances: their fields and their change of the product.\<close>

definition two_args :: "(tx \<Rightarrow> exec_error + 'a) \<Rightarrow> (tx \<Rightarrow> exec_error + 'b) \<Rightarrow> tx \<Rightarrow> exec_error + 'a \<times> 'b" where
  "two_args f g t = bindE (f t) (\<lambda>a. bindE (g t) (\<lambda>b. Inr (a, b)))"

abbreviation arg_pid :: "tx \<Rightarrow> exec_error + string" where
  "arg_pid t \<equiv> need ''product_id'' (tx_product_id t)"

fun ship_product :: "string \<times> string \<times> string \<Rightarrow> product \<Rightarrow> exec_error + product" where
  "ship_product (pid, destination, shipper) p =
     (if p_status p \<in> {In_transit, Quarantined} then Inl (CannotShip pid (p_status p))
      else Inr (p\<lparr>p_status := In_transit, p_location := destination, p_owner := shipper\<rparr>))"

fun receive_product :: "string \<times> string \<times> bool \<Rightarrow> product \<Rightarrow> exec_error + product" where
  "receive_product (pid, receiver, at_customs) p =
     (if p_status p \<noteq> In_transit then Inl (CannotReceive pid (p_status p))
      else Inr (p\<lparr>p_status := (if at_customs then At_customs else Delivered), p_owner := receiver\<rparr>))"

definition checks_of :: "product \<Rightarrow> string list" where
  "checks_of p = (case p_checks p of None \<Rightarrow> [] | Some cs \<Rightarrow> cs)"

fun inspect_product :: "string \<times> string \<Rightarrow> product \<Rightarrow> exec_error + product" where
  "inspect_product (pid, check_name) p =
     Inr (p\<lparr>p_checks := Some (if check_name \<in> set (checks_of p) then checks_of p
                             else sort (checks_of p @ [check_name]))\<rparr>)"

fun quarantine_product :: "string \<times> string \<Rightarrow> product \<Rightarrow> exec_error + product" where
  "quarantine_product (pid, reason) p =
     (if p_status p = Quarantined then Inl (AlreadyQuarantined pid)
      else Inr (p\<lparr>p_status := Quarantined, p_quarantine_reason := Some reason\<rparr>))"

fun release_product :: "string \<Rightarrow> product \<Rightarrow> exec_error + product" where
  "release_product pid p =
     (if p_status p \<noteq> Quarantined then Inl (NotQuarantined pid)
      else Inr (p\<lparr>p_status := At_customs, p_quarantine_reason := None\<rparr>))"

lemma bindE_assoc: "bindE (bindE m f) g = bindE m (\<lambda>x. bindE (f x) g)"
  by (cases m) simp_all

lemma bindE_if: "bindE (if b then m else n) f = (if b then bindE m f else bindE n f)"
  by simp

lemma handle_ship_shape:
  "handle_ship = product_handler
     (two_args arg_pid (two_args (\<lambda>t. need ''destination'' (tx_destination t)) (\<lambda>t. need ''shipper'' (tx_shipper t))))
     fst ship_product"
  by (intro ext) (simp add: handle_ship_def product_handler_def two_args_def bindE_assoc bindE_if cong: if_cong)

lemma handle_receive_shape:
  "handle_receive = product_handler
     (two_args arg_pid (two_args (\<lambda>t. need ''receiver'' (tx_receiver t))
       (\<lambda>t. Inr (case tx_at_customs t of None \<Rightarrow> False | Some b \<Rightarrow> b))))
     fst receive_product"
  by (intro ext) (simp add: handle_receive_def product_handler_def two_args_def bindE_assoc bindE_if Let_def cong: if_cong)

lemma handle_inspect_shape:
  "handle_inspect = product_handler
     (two_args arg_pid (\<lambda>t. need ''check_name'' (tx_check_name t))) fst inspect_product"
  by (intro ext) (simp add: handle_inspect_def [folded checks_of_def] product_handler_def two_args_def bindE_assoc Let_def)

lemma handle_quarantine_shape:
  "handle_quarantine = product_handler
     (two_args arg_pid (\<lambda>t. need ''reason'' (tx_reason t))) fst quarantine_product"
  by (intro ext) (simp add: handle_quarantine_def product_handler_def two_args_def bindE_assoc bindE_if cong: if_cong)

lemma handle_release_shape:
  "handle_release = product_handler arg_pid (\<lambda>x. x) release_product"
  by (intro ext) (simp add: handle_release_def product_handler_def bindE_if cong: if_cong)

lemmas supply_chain_shapes =
  handle_ship_shape handle_receive_shape handle_inspect_shape handle_quarantine_shape handle_release_shape

lemma world_handler_supply_chain [handler_intros]:
  "world_handler handle_ship" "world_handler handle_receive" "world_handler handle_inspect"
  "world_handler handle_quarantine" "world_handler handle_release"
  unfolding supply_chain_shapes by (rule world_handler_product)+

interpretation ship: world_handler handle_ship
  by (rule handler_intros)

interpretation receive: world_handler handle_receive
  by (rule handler_intros)

interpretation inspect: world_handler handle_inspect
  by (rule handler_intros)

interpretation quarantine: world_handler handle_quarantine
  by (rule handler_intros)

interpretation release: world_handler handle_release
  by (rule handler_intros)

lemma handler_registry_ecn: "handler_registry ecn_handlers"
  unfolding ecn_handlers_def register_supply_chain_handlers_def
  by (intro handler_registry_register handler_registry_handlers0 handler_intros)

interpretation ecn: handler_registry ecn_handlers
  by (rule handler_registry_ecn)

subsection \<open>The life of a product\<close>

inductive status_step :: "pstatus \<Rightarrow> pstatus \<Rightarrow> bool" where
  ship: "s \<notin> {In_transit, Quarantined} \<Longrightarrow> status_step s In_transit"
| receive_customs: "status_step In_transit At_customs"
| receive_final: "status_step In_transit Delivered"
| quarantine: "s \<noteq> Quarantined \<Longrightarrow> status_step s Quarantined"
| release: "status_step Quarantined At_customs"

code_pred status_step .

inductive_simps status_step_simps [simp]:
  "status_step Manufactured s" "status_step In_transit s" "status_step At_customs s"
  "status_step Quarantined s" "status_step Delivered s"

definition wf_product :: "product \<Rightarrow> bool" where
  "wf_product p \<longleftrightarrow> (p_status p = Quarantined \<longleftrightarrow> p_quarantine_reason p \<noteq> None)
     \<and> sorted (checks_of p) \<and> distinct (checks_of p)"

definition wf_products :: "world \<Rightarrow> bool" where
  "wf_products w \<longleftrightarrow> (\<forall>p\<in>set (dvalues (products_of w)). wf_product p)"

lemma checks_of_simps [simp]:
  "checks_of (p\<lparr>p_checks := Some cs\<rparr>) = cs"
  "checks_of (p\<lparr>p_status := st\<rparr>) = checks_of p"
  "checks_of (p\<lparr>p_location := l\<rparr>) = checks_of p"
  "checks_of (p\<lparr>p_owner := ow\<rparr>) = checks_of p"
  "checks_of (p\<lparr>p_quarantine_reason := r\<rparr>) = checks_of p"
  by (simp_all add: checks_of_def)

definition good_update :: "('a \<Rightarrow> product \<Rightarrow> exec_error + product) \<Rightarrow> bool" where
  "good_update upd \<longleftrightarrow> (\<forall>a p p'. wf_product p \<longrightarrow> upd a p = Inr p' \<longrightarrow>
     wf_product p' \<and> (p_status p' = p_status p \<or> status_step (p_status p) (p_status p')))"

lemma good_updates:
  "good_update ship_product" "good_update receive_product" "good_update inspect_product"
  "good_update quarantine_product" "good_update release_product"
  by (auto simp: good_update_def wf_product_def status_step.simps split: if_splits)

lemma wf_products_dget: "wf_products w \<Longrightarrow> dget (products_of w) pid = Some p \<Longrightarrow> wf_product p"
  by (force simp: wf_products_def dest: map_of_SomeD)

lemma set_dvalues_dset: "set (dvalues (dset k v d)) \<subseteq> insert v (set (dvalues d))"
  by (induction d) auto

lemma wf_products_put: "wf_products w \<Longrightarrow> wf_product p \<Longrightarrow> wf_products (put_product pid p w)"
  using set_dvalues_dset [of pid p "products_of w"]
  unfolding wf_products_def products_of_put by blast

text \<open>What a transaction that succeeds does to every product.\<close>

definition products_step :: "world \<Rightarrow> world \<Rightarrow> bool" where
  "products_step w w' \<longleftrightarrow>
     (\<forall>pid. case (dget (products_of w) pid, dget (products_of w') pid) of
        (Some p, Some p') \<Rightarrow> p_status p' = p_status p \<or> status_step (p_status p) (p_status p')
      | (None, None) \<Rightarrow> True
      | _ \<Rightarrow> False)"

lemma products_step_refl: "products_of w' = products_of w \<Longrightarrow> products_step w w'"
  by (auto simp: products_step_def split: option.split)

lemma product_handler_good:
  assumes "good_update upd" and "wf_products w" and "product_handler args pid upd w t = Inr w'"
  shows "wf_products w' \<and> products_step w w'"
proof -
  obtain a p p' where p: "dget (products_of w) (pid a) = Some p" "upd a p = Inr p'"
    and w': "w' = put_product (pid a) p' w"
    using assms(3) by (auto simp: product_handler_Inr_iff)
  have "wf_product p' \<and> (p_status p' = p_status p \<or> status_step (p_status p) (p_status p'))"
    using assms(1) wf_products_dget [OF assms(2) p(1)] p(2) by (auto simp: good_update_def)
  then show ?thesis
    using assms(2) p(1) unfolding w' by (auto simp: products_step_def intro: wf_products_put split: option.split)
qed

lemma supply_chain_good:
  assumes "wf_products w"
  shows "handle_ship w t = Inr w' \<Longrightarrow> wf_products w' \<and> products_step w w'"
    and "handle_receive w t = Inr w' \<Longrightarrow> wf_products w' \<and> products_step w w'"
    and "handle_inspect w t = Inr w' \<Longrightarrow> wf_products w' \<and> products_step w w'"
    and "handle_quarantine w t = Inr w' \<Longrightarrow> wf_products w' \<and> products_step w w'"
    and "handle_release w t = Inr w' \<Longrightarrow> wf_products w' \<and> products_step w w'"
  unfolding supply_chain_shapes
  by (erule product_handler_good [OF good_updates(1) assms] product_handler_good [OF good_updates(2) assms]
    product_handler_good [OF good_updates(3) assms] product_handler_good [OF good_updates(4) assms]
    product_handler_good [OF good_updates(5) assms])+

lemma financial_products:
  "handle_transfer w t = Inr w' \<Longrightarrow> products_of w' = products_of w"
  "handle_mint w t = Inr w' \<Longrightarrow> products_of w' = products_of w"
  "handle_burn w t = Inr w' \<Longrightarrow> products_of w' = products_of w"
  by (auto simp: financial_iffs products_of_def)

lemma wf_products_cong: "products_of w' = products_of w \<Longrightarrow> wf_products w' = wf_products w"
  by (simp add: wf_products_def)

lemma ecn_handlers_eq:
  "ecn_handlers ty =
     (if ty = ''release'' then Some handle_release
      else if ty = ''quarantine'' then Some handle_quarantine
      else if ty = ''inspect'' then Some handle_inspect
      else if ty = ''receive'' then Some handle_receive
      else if ty = ''ship'' then Some handle_ship
      else if ty = ''burn'' then Some handle_burn
      else if ty = ''mint'' then Some handle_mint
      else if ty = ''transfer'' then Some handle_transfer
      else None)"
  by (simp add: ecn_handlers_def register_supply_chain_handlers_def register_handler_def handlers0_def)

lemma ecn_execute_cases:
  "execute ecn_handlers w t = Inr w' \<Longrightarrow>
     tx_type t = Some ''transfer'' \<and> handle_transfer w t = Inr w' \<or>
     tx_type t = Some ''mint'' \<and> handle_mint w t = Inr w' \<or>
     tx_type t = Some ''burn'' \<and> handle_burn w t = Inr w' \<or>
     tx_type t = Some ''ship'' \<and> handle_ship w t = Inr w' \<or>
     tx_type t = Some ''receive'' \<and> handle_receive w t = Inr w' \<or>
     tx_type t = Some ''inspect'' \<and> handle_inspect w t = Inr w' \<or>
     tx_type t = Some ''quarantine'' \<and> handle_quarantine w t = Inr w' \<or>
     tx_type t = Some ''release'' \<and> handle_release w t = Inr w'"
  by (cases "tx_type t") (auto simp: execute_def ecn_handlers_eq split: if_splits)

lemma ecn_execute_products:
  assumes "wf_products w" and "execute ecn_handlers w t = Inr w'"
  shows "wf_products w' \<and> products_step w w'"
proof -
  have keep: "wf_products w' \<and> products_step w w'" if "products_of w' = products_of w"
    using assms(1) by (simp add: wf_products_cong [OF that] products_step_refl [OF that])
  from ecn_execute_cases [OF assms(2)] show ?thesis
    by (elim disjE conjE) (erule keep [OF financial_products(1)] keep [OF financial_products(2)]
      keep [OF financial_products(3)] supply_chain_good [OF assms(1)])+
qed

definition add_products :: "string list \<Rightarrow> product dict \<Rightarrow> product dict" where
  "add_products = fold (\<lambda>pid d. dset pid fresh_product d)"

lemma add_products_simps [simp]:
  "add_products [] d = d" "add_products (pid # pids) d = add_products pids (dset pid fresh_product d)"
  by (simp_all add: add_products_def)

lemma make_initial_state_eq:
  "make_initial_state pids = \<lparr>w_balances = None, w_products = Some (add_products pids [])\<rparr>"
  by (simp add: make_initial_state_def add_products_def)

lemma wf_fresh_product: "wf_product fresh_product"
  by (simp add: wf_product_def fresh_product_def checks_of_def)

lemma wf_products_add:
  "\<forall>p\<in>set (dvalues d). wf_product p \<Longrightarrow> \<forall>p\<in>set (dvalues (add_products pids d)). wf_product p"
proof (induction pids arbitrary: d)
  case (Cons pid pids)
  have "\<forall>p\<in>set (dvalues (dset pid fresh_product d)). wf_product p"
    using Cons.prems set_dvalues_dset [of pid fresh_product d] wf_fresh_product by blast
  then show ?case unfolding add_products_simps by (rule Cons.IH)
qed simp

lemma wf_dict_add_products: "wf_dict d \<Longrightarrow> wf_dict (add_products pids d)"
  by (induction pids arbitrary: d) simp_all

lemma dget_add_products:
  "dget (add_products pids d) pid = (if pid \<in> set pids then Some fresh_product else dget d pid)"
  by (induction pids arbitrary: d) simp_all

lemma wf_products_initial: "wf_products (make_initial_state pids)"
  using wf_products_add [of "[]" pids] by (simp add: wf_products_def make_initial_state_eq)

lemma wf_world_initial: "wf_world (make_initial_state pids)"
  by (simp add: wf_world_def make_initial_state_eq wf_dict_add_products)

lemma dget_initial:
  "dget (products_of (make_initial_state pids)) pid = (if pid \<in> set pids then Some fresh_product else None)"
  by (simp add: make_initial_state_eq dget_add_products)

subsection \<open>The life of a product\<close>

text \<open>C31. Every transaction the network accepts keeps the products in order: none appears or vanishes,
  each keeps its status or takes one step of the status relation, a product has a quarantine
  reason exactly while it is quarantined, and its passed checks stay sorted without repetition.\<close>

theorem products_stay_in_order:
  assumes "wf_products w" and "execute ecn_handlers w t = Inr w'"
  shows "wf_products w' \<and> products_step w w'"
  by (rule ecn_execute_products [OF assms])

definition example_ship :: tx where
  "example_ship = (blank_tx ''ship'')\<lparr>tx_product_id := Some ''P1'', tx_destination := Some ''Oslo'',
     tx_shipper := Some ''S''\<rparr>"

theorem products_stay_in_order_witness:
  "\<exists>w'. execute ecn_handlers (make_initial_state [''P1'']) example_ship = Inr w'
     \<and> wf_products w' \<and> products_step (make_initial_state [''P1'']) w'"
proof -
  have "\<exists>w'. execute ecn_handlers (make_initial_state [''P1'']) example_ship = Inr w'"
    by (simp add: execute_def ecn_handlers_eq example_ship_def blank_tx_def handle_ship_def get_product_def
        make_initial_state_def products_of_def fresh_product_def)
  then show ?thesis using products_stay_in_order [OF wf_products_initial] by blast
qed

end
