(* ===== verification/StateManager.thy ===== *)
theory StateManager
  imports SupplyChain
begin

section \<open>State hashing, Merkle trees and the state manager\<close>

text \<open>
  \<open>ecn/state_manager.py\<close>. SHA-256 is the parameter \<open>H\<close>, from the bytes hashed to the hex
  digest; what is used of it is stated where it is used (\<open>hex_digest\<close>), and a statement that
  equal digests mean equal data says instead that otherwise two named inputs collide
  (\<open>collision\<close>), since SHA-256 is not injective.

  The lemmas show that the state hash is a function of the state up to dict order and binds
  it up to collisions, that the Merkle loop ends in one root, which binds its leaves and the balances up to
  collisions, and that the trace of a manager is a chain of hashes that replays to its state.
\<close>

type_synonym sha256 = "string \<Rightarrow> string"

definition collision :: "sha256 \<Rightarrow> string \<Rightarrow> string \<Rightarrow> bool" where
  "collision H x y \<longleftrightarrow> x \<noteq> y \<and> H x = H y"

text \<open>\<open>hashlib.sha256(data).hexdigest()\<close> is 64 lower-case hexadecimal digits.\<close>

definition hex_digest :: "sha256 \<Rightarrow> bool" where
  "hex_digest H \<longleftrightarrow> (\<forall>x. length (H x) = 64 \<and> (\<forall>c\<in>set (H x). is_lower_hex c))"

lemma hex_digestD: "hex_digest H \<Longrightarrow> length (H x) = 64" "hex_digest H \<Longrightarrow> c \<in> set (H x) \<Longrightarrow> is_lower_hex c"
  by (auto simp: hex_digest_def)

subsection \<open>Merkle trees\<close>

text \<open>One pass of the loop: the strings \<open>left + right\<close> of a level, an odd last one doubled.\<close>

fun pair_up :: "string list \<Rightarrow> string list" where
  "pair_up [] = []"
| "pair_up [l] = [l @ l]"
| "pair_up (l # r # ls) = (l @ r) # pair_up ls"

definition merkle_level :: "sha256 \<Rightarrow> string list \<Rightarrow> string list" where
  "merkle_level H level = map (\<lambda>s. H (utf8 s)) (pair_up level)"

lemma length_pair_up: "length (pair_up ls) = (length ls + 1) div 2"
  by (induction ls rule: pair_up.induct) auto

lemma length_merkle_level [simp]: "length (merkle_level H ls) = (length ls + 1) div 2"
  by (simp add: merkle_level_def length_pair_up)

lemma merkle_level_Nil [simp]: "merkle_level H ls = [] \<longleftrightarrow> ls = []"
  by (cases ls rule: pair_up.cases) (auto simp: merkle_level_def)

function merkle_levels :: "sha256 \<Rightarrow> string list \<Rightarrow> string list list" where
  "merkle_levels H level =
     (if 1 < length level then level # merkle_levels H (merkle_level H level) else [level])"
  by pat_completeness auto
termination
  by (relation "measure (\<lambda>(H, level). length level)") auto

declare merkle_levels.simps [simp del]

definition build_merkle_tree :: "sha256 \<Rightarrow> string list \<Rightarrow> string list list" where
  "build_merkle_tree H leaves = (if leaves = [] then [[H []]] else merkle_levels H leaves)"

definition merkle_root :: "sha256 \<Rightarrow> string list \<Rightarrow> string" where
  "merkle_root H leaves = hd (last (build_merkle_tree H leaves))"

lemma merkle_levels_nonempty [simp]: "merkle_levels H ls \<noteq> []"
  by (subst merkle_levels.simps) simp

lemma merkle_levels_last_one: "ls \<noteq> [] \<Longrightarrow> length (last (merkle_levels H ls)) = 1"
proof (induction H ls rule: merkle_levels.induct)
  case (1 H ls)
  show ?case
  proof (cases "1 < length ls")
    case True
    with 1 show ?thesis by (subst merkle_levels.simps) simp
  next
    case False
    with 1(2) show ?thesis by (subst merkle_levels.simps) (cases ls, auto)
  qed
qed

lemma build_merkle_tree_root: "length (last (build_merkle_tree H leaves)) = 1"
  by (simp add: build_merkle_tree_def merkle_levels_last_one)

lemma merkle_root_single: "merkle_root H [l] = l"
  by (simp add: merkle_root_def build_merkle_tree_def merkle_levels.simps)

lemma merkle_root_step: "1 < length ls \<Longrightarrow> merkle_root H ls = merkle_root H (merkle_level H ls)"
proof -
  assume ls: "1 < length ls"
  then have "merkle_level H ls \<noteq> []" by auto
  with ls show ?thesis
    unfolding merkle_root_def build_merkle_tree_def
    by (subst merkle_levels.simps) auto
qed

text \<open>
  The number of levels of \<open>n\<close> leaves: each pass halves the level, rounding up.
\<close>

lemma length_merkle_levels:
  "length ls \<le> 2 ^ k \<Longrightarrow> length (merkle_levels H ls) \<le> Suc k"
proof (induction k arbitrary: ls)
  case 0
  then show ?case by (subst merkle_levels.simps) simp
next
  case (Suc k)
  have "length (merkle_level H ls) \<le> 2 ^ k" using Suc.prems by simp
  then show ?case using Suc.IH by (subst merkle_levels.simps) auto
qed

lemma hd_merkle_levels: "hd (merkle_levels H ls) = ls"
  by (subst merkle_levels.simps) simp

text \<open>A level of hex digests is determined by the strings hashed for the next one.\<close>

definition digests :: "string list \<Rightarrow> bool" where
  "digests ls \<longleftrightarrow> (\<forall>l\<in>set ls. length l = 64 \<and> (\<forall>c\<in>set l. is_lower_hex c))"

lemma digests_level: "hex_digest H \<Longrightarrow> digests (merkle_level H ls)"
  by (auto simp: digests_def merkle_level_def hex_digestD)

lemma pair_up_inject:
  "digests ls \<Longrightarrow> digests ls' \<Longrightarrow> length ls' = length ls \<Longrightarrow> pair_up ls = pair_up ls' \<Longrightarrow> ls = ls'"
proof (induction ls arbitrary: ls' rule: pair_up.induct)
  case (2 l)
  then show ?case by (auto simp: digests_def length_Suc_conv)
next
  case (3 l r ls)
  then obtain l' r' rest where ls': "ls' = l' # r' # rest" by (auto simp: length_Suc_conv)
  with 3 show ?case by (auto simp: digests_def)
qed auto

lemma pair_up_utf8: "digests ls \<Longrightarrow> map utf8 (pair_up ls) = pair_up ls"
proof (induction ls rule: pair_up.induct)
  case (2 l)
  then show ?case by (auto simp: digests_def intro!: utf8_ascii is_lower_hex_ascii simp del: utf8_simps)
next
  case (3 l r ls)
  then have "utf8 (l @ r) = l @ r" by (intro utf8_ascii) (auto simp: digests_def intro: is_lower_hex_ascii)
  with 3 show ?case by (simp add: digests_def del: utf8_simps)
qed simp

lemma pair_up_odd: "odd (length ls) \<Longrightarrow> pair_up (ls @ [last ls]) = pair_up ls"
  by (induction ls rule: pair_up.induct) auto

text \<open>The strings hashed in building a tree.\<close>

definition tree_inputs :: "string list list \<Rightarrow> string list" where
  "tree_inputs levels = concat (map (\<lambda>level. map utf8 (pair_up level)) (butlast levels))"

lemma tree_inputs_levels: "1 < length ls \<Longrightarrow>
    set (tree_inputs (merkle_levels H ls)) = set (map utf8 (pair_up ls)) \<union> set (tree_inputs (merkle_levels H (merkle_level H ls)))"
  by (subst merkle_levels.simps) (simp add: tree_inputs_def)

lemma map_collision:
  "length xs = length ys \<Longrightarrow> map H xs = map H ys \<Longrightarrow> xs = ys \<or> (\<exists>x\<in>set xs. \<exists>y\<in>set ys. collision H x y)"
  by (induction xs ys rule: list_induct2) (auto simp: collision_def)

lemma merkle_levels_bind:
  assumes "hex_digest H" and "digests ls" and "digests ls'" and "length ls' = length ls"
    and "hd (last (merkle_levels H ls)) = hd (last (merkle_levels H ls'))" and "ls \<noteq> []"
  shows "ls = ls' \<or> (\<exists>x\<in>set (tree_inputs (merkle_levels H ls)). \<exists>y\<in>set (tree_inputs (merkle_levels H ls')). collision H x y)"
  using assms(2-)
proof (induction ls arbitrary: ls' rule: length_induct)
  case (1 ls)
  show ?case
  proof (cases "1 < length ls")
    case True
    then have two: "1 < length ls'" using "1.prems"(3) by simp
    let ?up = "merkle_level H ls" and ?up' = "merkle_level H ls'"
    have "hd (last (merkle_levels H ?up)) = hd (last (merkle_levels H ?up'))"
      using "1.prems"(4) True two by (subst (asm) (1 2) merkle_levels.simps) simp
    moreover have "length ?up < length ls" "length ?up' = length ?up" "?up \<noteq> []" using True "1.prems"(3) by auto
    ultimately have "?up = ?up' \<or> (\<exists>x\<in>set (tree_inputs (merkle_levels H ?up)). \<exists>y\<in>set (tree_inputs (merkle_levels H ?up')). collision H x y)"
      using "1.IH" digests_level [OF assms(1)] by blast
    then show ?thesis
    proof
      assume "?up = ?up'"
      then have "map H (map utf8 (pair_up ls)) = map H (map utf8 (pair_up ls'))" by (simp add: merkle_level_def comp_def)
      from map_collision [OF _ this] have "map utf8 (pair_up ls) = map utf8 (pair_up ls')
          \<or> (\<exists>x\<in>set (map utf8 (pair_up ls)). \<exists>y\<in>set (map utf8 (pair_up ls')). collision H x y)"
        using "1.prems"(3) by (simp add: length_pair_up)
      then show ?thesis
        using pair_up_inject [OF "1.prems"(1-3)] pair_up_utf8 "1.prems"(1,2)
        unfolding tree_inputs_levels [OF True] tree_inputs_levels [OF two] by (metis UnI1)
    qed (unfold tree_inputs_levels [OF True] tree_inputs_levels [OF two], blast)
  next
    case False
    then obtain l l' where "ls = [l]" "ls' = [l']"
      using "1.prems"(3,5) by (cases ls; cases ls') auto
    then show ?thesis using "1.prems"(4) by (simp add: merkle_levels.simps)
  qed
qed

subsection \<open>The hash of a state\<close>

definition account_leaf :: "string \<times> int \<Rightarrow> string" where
  "account_leaf ab = utf8 (fst ab @ '':'' @ str_int (snd ab))"

definition merkle_hash :: "sha256 \<Rightarrow> world \<Rightarrow> string" where
  "merkle_hash H w = merkle_root H (map (\<lambda>ab. H (account_leaf ab)) (sorted_items (balances_of w)))"

definition state_hash :: "sha256 \<Rightarrow> bool \<Rightarrow> world \<Rightarrow> string" where
  "state_hash H use_merkle w =
     (if use_merkle then merkle_hash H w else H (canonical_json (world_json w)))"

lemma state_hash_cong:
  assumes "same_world v w" and "wf_world v" and "wf_world w"
  shows "state_hash H m v = state_hash H m w"
proof -
  have "sorted_items (balances_of v) = sorted_items (balances_of w)"
    using assms by (intro sorted_items_perm dget_eq_mset_eq same_world_balances wf_world_balances)
  moreover have "canonical_json (world_json v) = canonical_json (world_json w)"
    using assms by (simp only: world_canonical_eq_iff)
  ultimately show ?thesis by (simp add: state_hash_def merkle_hash_def)
qed

lemma state_hash_binds:
  assumes "wf_world v" and "wf_world w" and "state_hash H False v = state_hash H False w"
  shows "same_world v w \<or> collision H (canonical_json (world_json v)) (canonical_json (world_json w))"
  using assms world_canonical_eq_iff [OF assms(1,2)] by (auto simp: state_hash_def collision_def)

lemma merkle_hash_put_product [simp]: "merkle_hash H (put_product pid p w) = merkle_hash H w"
  by (simp add: merkle_hash_def)

subsection \<open>The Merkle root binds the leaves\<close>

text \<open>
  The proof compares the two hash trees from their roots. A node of the tree is the hash of a
  leaf's text or of the concatenation of its children's hashes; leaf texts contain a colon
  and concatenations of digests do not, so no leaf is taken for an inner node.
\<close>

datatype mtree = MLeaf string | MNode mtree mtree

fun mhash :: "sha256 \<Rightarrow> mtree \<Rightarrow> string" where
  "mhash H (MLeaf s) = H s"
| "mhash H (MNode l r) = H (utf8 (mhash H l @ mhash H r))"

fun minputs :: "sha256 \<Rightarrow> mtree \<Rightarrow> string list" where
  "minputs H (MLeaf s) = [s]"
| "minputs H (MNode l r) = utf8 (mhash H l @ mhash H r) # minputs H l @ minputs H r"

fun mleaves :: "mtree \<Rightarrow> string set" where
  "mleaves (MLeaf s) = {s}"
| "mleaves (MNode l r) = mleaves l \<union> mleaves r"

fun tree_level :: "mtree list \<Rightarrow> mtree list" where
  "tree_level [] = []"
| "tree_level [t] = [MNode t t]"
| "tree_level (t # u # ts) = MNode t u # tree_level ts"

lemma length_tree_level: "length (tree_level ts) = (length ts + 1) div 2"
  by (induction ts rule: tree_level.induct) auto

function tree_root :: "mtree list \<Rightarrow> mtree" where
  "tree_root ts = (if 1 < length ts then tree_root (tree_level ts) else hd ts)"
  by pat_completeness auto
termination
  by (relation "measure length") (auto simp: length_tree_level)

declare tree_root.simps [simp del]

lemma merkle_level_trees: "merkle_level H (map (mhash H) ts) = map (mhash H) (tree_level ts)"
  by (induction ts rule: tree_level.induct) (auto simp: merkle_level_def)

lemma mleaves_level: "\<Union> (mleaves ` set (tree_level ts)) = \<Union> (mleaves ` set ts)"
  by (induction ts rule: tree_level.induct) auto

lemma tree_level_Nil [simp]: "tree_level ts = [] \<longleftrightarrow> ts = []"
  by (cases ts rule: tree_level.cases) auto

lemma merkle_root_tree:
  "ts \<noteq> [] \<Longrightarrow> merkle_root H (map (mhash H) ts) = mhash H (tree_root ts)
     \<and> mleaves (tree_root ts) = \<Union> (mleaves ` set ts)"
proof (induction ts rule: tree_root.induct)
  case (1 ts)
  show ?case
  proof (cases "1 < length ts")
    case True
    with 1 have "merkle_root H (map (mhash H) (tree_level ts)) = mhash H (tree_root (tree_level ts))
      \<and> mleaves (tree_root (tree_level ts)) = \<Union> (mleaves ` set (tree_level ts))" by simp
    with True show ?thesis
      by (subst (1 2) tree_root.simps) (simp add: merkle_root_step merkle_level_trees mleaves_level)
  next
    case False
    with 1(2) obtain t where "ts = [t]" by (cases ts) auto
    then show ?thesis by (simp add: tree_root.simps merkle_root_single)
  qed
qed

definition leaf_texts :: "mtree \<Rightarrow> bool" where
  "leaf_texts t \<longleftrightarrow> (\<forall>s\<in>mleaves t. CHR '':'' \<in> set s)"

lemma mhash_digest: "\<exists>x. mhash H t = H x"
  by (cases t) auto

lemma utf8_digests:
  assumes "hex_digest H"
  shows "utf8 (mhash H l @ mhash H r) = mhash H l @ mhash H r"
    and "length (mhash H l) = 64" and "CHR '':'' \<notin> set (mhash H l @ mhash H r)"
proof -
  obtain x y where xy: "mhash H l = H x" "mhash H r = H y" using mhash_digest by metis
  show "length (mhash H l) = 64" using assms xy by (simp add: hex_digestD)
  have "\<forall>c\<in>set (mhash H l @ mhash H r). is_lower_hex c"
    using assms xy by (auto dest: hex_digestD)
  then show "CHR '':'' \<notin> set (mhash H l @ mhash H r)"
    and "utf8 (mhash H l @ mhash H r) = mhash H l @ mhash H r"
    by (blast dest: is_lower_hex_not_colon, intro utf8_ascii) (blast intro: is_lower_hex_ascii)
qed

lemma mtree_binding:
  assumes "hex_digest H" and "leaf_texts t" and "leaf_texts u" and "mhash H t = mhash H u"
  shows "t = u \<or> (\<exists>x\<in>set (minputs H t). \<exists>y\<in>set (minputs H u). collision H x y)"
  using assms(2-4)
proof (induction t arbitrary: u)
  case (MLeaf s)
  show ?case
  proof (cases u)
    case (MLeaf s')
    with MLeaf.prems show ?thesis by (auto simp: collision_def)
  next
    case (MNode l r)
    have "s \<noteq> utf8 (mhash H l @ mhash H r)"
      using MLeaf.prems(1) utf8_digests(1,3) [OF assms(1), of l r] by (auto simp: leaf_texts_def)
    then show ?thesis using MLeaf.prems MNode by (auto simp: collision_def)
  qed
next
  case (MNode l r)
  show ?case
  proof (cases u)
    case (MLeaf s')
    have "s' \<noteq> utf8 (mhash H l @ mhash H r)"
      using MNode.prems(2) MLeaf utf8_digests(1,3) [OF assms(1), of l r] by (auto simp: leaf_texts_def)
    then show ?thesis using MNode.prems MLeaf by (auto simp: collision_def)
  next
    case (MNode l' r')
    let ?x = "utf8 (mhash H l @ mhash H r)" and ?y = "utf8 (mhash H l' @ mhash H r')"
    show ?thesis
    proof (cases "?x = ?y")
      case False
      then show ?thesis using MNode.prems MNode by (auto simp: collision_def)
    next
      case True
      then have "mhash H l = mhash H l'" and "mhash H r = mhash H r'"
        using utf8_digests [OF assms(1)] by (auto simp del: utf8_simps)
      moreover have "leaf_texts l" "leaf_texts r" "leaf_texts l'" "leaf_texts r'"
        using MNode.prems MNode by (auto simp: leaf_texts_def)
      ultimately show ?thesis
        using MNode.IH(1) [of l'] MNode.IH(2) [of r'] MNode by (auto 4 3)
    qed
  qed
qed

definition account_tree :: "world \<Rightarrow> mtree" where
  "account_tree w = tree_root (map (\<lambda>ab. MLeaf (account_leaf ab)) (sorted_items (balances_of w)))"

text \<open>Every string that computing the Merkle hash of \<open>w\<close> passes to SHA-256.\<close>

definition merkle_inputs :: "sha256 \<Rightarrow> world \<Rightarrow> string list" where
  "merkle_inputs H w = (if balances_of w = [] then [[]] else minputs H (account_tree w))"

lemma sorted_items_Nil [simp]: "sorted_items d = [] \<longleftrightarrow> d = []"
  by (metis length_0_conv length_sorted_items)

lemma str_int_no_colon [simp]: "CHR '':'' \<notin> set (str_int i)"
  using str_int_chars [of "CHR '':''" i] by (auto simp: is_digit_def)

lemma account_leaf_inject: "account_leaf ab = account_leaf cd \<longleftrightarrow> ab = cd"
proof
  assume "account_leaf ab = account_leaf cd"
  then have "fst ab @ CHR '':'' # str_int (snd ab) = fst cd @ CHR '':'' # str_int (snd cd)"
    by (simp add: account_leaf_def del: utf8_simps)
  then have "fst ab = fst cd \<and> str_int (snd ab) = str_int (snd cd)"
    by (rule last_separator_unique) simp_all
  then show "ab = cd" by (simp add: prod_eq_iff)
qed simp

lemma account_leaf_colon: "CHR '':'' \<in> set (account_leaf ab)"
  by (simp add: account_leaf_def utf8_char_def)

lemma merkle_hash_tree:
  assumes "balances_of w \<noteq> []"
  shows "merkle_hash H w = mhash H (account_tree w)"
    and "mleaves (account_tree w) = account_leaf ` set (balances_of w)"
proof -
  let ?ts = "map (\<lambda>ab. MLeaf (account_leaf ab)) (sorted_items (balances_of w))"
  have "map (mhash H) ?ts = map (\<lambda>ab. H (account_leaf ab)) (sorted_items (balances_of w))" by (simp add: comp_def)
  then show "merkle_hash H w = mhash H (account_tree w)"
    using merkle_root_tree [of ?ts H] assms by (simp add: merkle_hash_def account_tree_def comp_def)
  show "mleaves (account_tree w) = account_leaf ` set (balances_of w)"
    using merkle_root_tree [of ?ts H] assms by (auto simp: account_tree_def)
qed

lemma leaf_texts_account_tree: "balances_of w \<noteq> [] \<Longrightarrow> leaf_texts (account_tree w)"
  using account_leaf_colon by (auto simp: leaf_texts_def merkle_hash_tree)

lemma merkle_hash_empty: "balances_of w = [] \<Longrightarrow> merkle_hash H w = H []"
  by (simp add: merkle_hash_def merkle_root_def build_merkle_tree_def sorted_items_def)

lemma minputs_root: "\<exists>x\<in>set (minputs H t). mhash H t = H x \<and> (leaf_texts t \<longrightarrow> hex_digest H \<longrightarrow> x \<noteq> [])"
proof (cases t)
  case (MLeaf s)
  then show ?thesis by (auto simp: leaf_texts_def)
next
  case (MNode l r)
  then show ?thesis using utf8_digests(1,2) [of H l] by (auto simp del: utf8_simps)
qed

lemma merkle_empty_collision:
  assumes "hex_digest H" and "balances_of v = []" and "balances_of w \<noteq> []"
    and "merkle_hash H v = merkle_hash H w"
  shows "\<exists>x\<in>set (merkle_inputs H w). collision H [] x"
  using minputs_root [of H "account_tree w"] leaf_texts_account_tree [OF assms(3)] assms
  by (auto simp: merkle_hash_tree(1) merkle_hash_empty merkle_inputs_def collision_def)

lemma collision_sym: "collision H x y = collision H y x"
  by (auto simp: collision_def)

lemma merkle_hash_binds:
  assumes "hex_digest H" and "wf_world v" and "wf_world w" and "merkle_hash H v = merkle_hash H w"
  shows "dget (balances_of v) = dget (balances_of w)
    \<or> (\<exists>x\<in>set (merkle_inputs H v). \<exists>y\<in>set (merkle_inputs H w). collision H x y)"
proof (cases "balances_of v = [] \<or> balances_of w = []")
  case True
  then consider "balances_of v = balances_of w" | "balances_of v = []" "balances_of w \<noteq> []"
    | "balances_of v \<noteq> []" "balances_of w = []" by argo
  then show ?thesis
  proof cases
    case 2
    then show ?thesis using merkle_empty_collision [OF assms(1) 2 assms(4)]
      by (auto simp: merkle_inputs_def)
  next
    case 3
    then show ?thesis using merkle_empty_collision [OF assms(1) 3(2,1) assms(4) [symmetric]]
      by (auto simp: merkle_inputs_def collision_sym)
  qed simp
next
  case False
  then have "mhash H (account_tree v) = mhash H (account_tree w)"
    using assms(4) by (simp add: merkle_hash_tree(1))
  then have "account_tree v = account_tree w
    \<or> (\<exists>x\<in>set (minputs H (account_tree v)). \<exists>y\<in>set (minputs H (account_tree w)). collision H x y)"
    using False by (intro mtree_binding [OF assms(1)] leaf_texts_account_tree) simp_all
  then consider "account_tree v = account_tree w"
    | "\<exists>x\<in>set (merkle_inputs H v). \<exists>y\<in>set (merkle_inputs H w). collision H x y"
    using False by (auto simp: merkle_inputs_def)
  then show ?thesis
  proof cases
    case 1
    then have "account_leaf ` set (balances_of v) = account_leaf ` set (balances_of w)"
      using False merkle_hash_tree(2) by metis
    then have "set (balances_of v) = set (balances_of w)"
      by (rule inj_image_eq_iff [THEN iffD1, rotated]) (simp add: inj_def account_leaf_inject)
    then show ?thesis
      using assms(2,3) by (simp add: map_of_inject_set wf_world_balances)
  qed simp
qed

subsection \<open>The state manager\<close>

record trace_entry =
  te_tx :: tx
  te_old_hash :: string
  te_new_hash :: string
  te_diff :: "(string \<times> int \<times> int) list"

record state_manager =
  sm_state :: world
  sm_use_merkle :: bool
  sm_trace :: "trace_entry list"

definition empty_world :: world where
  "empty_world = \<lparr>w_balances = Some [], w_products = None\<rparr>"

definition sm_init :: "world option \<Rightarrow> bool \<Rightarrow> state_manager" where
  "sm_init initial use_merkle =
     \<lparr>sm_state = (case initial of None \<Rightarrow> empty_world | Some w \<Rightarrow> w),
      sm_use_merkle = use_merkle, sm_trace = []\<rparr>"

definition compute_state_hash :: "sha256 \<Rightarrow> state_manager \<Rightarrow> string" where
  "compute_state_hash H sm = state_hash H (sm_use_merkle sm) (sm_state sm)"

definition compute_diff :: "world \<Rightarrow> world \<Rightarrow> (string \<times> int \<times> int) list" where
  "compute_diff old new =
     (let accounts = sorted_list_of_set (set (dkeys (balances_of old)) \<union> set (dkeys (balances_of new)));
          changed = filter (\<lambda>a. dget_or (balances_of old) a 0 \<noteq> dget_or (balances_of new) a 0) accounts
      in map (\<lambda>a. (a, dget_or (balances_of old) a 0, dget_or (balances_of new) a 0)) changed)"

definition apply_transaction ::
  "sha256 \<Rightarrow> registry \<Rightarrow> state_manager \<Rightarrow> tx \<Rightarrow> exec_error + state_manager" where
  "apply_transaction H R sm t =
     (let old_state = sm_state sm; old_hash = compute_state_hash H sm in
      bindE (execute R (sm_state sm) t) (\<lambda>new_state.
        let sm' = sm\<lparr>sm_state := new_state\<rparr>; new_hash = compute_state_hash H sm' in
        Inr (sm'\<lparr>sm_trace := sm_trace sm @
          [\<lparr>te_tx = t, te_old_hash = old_hash, te_new_hash = new_hash,
            te_diff = compute_diff old_state new_state\<rparr>]\<rparr>)))"

definition sm_reset :: "world option \<Rightarrow> state_manager \<Rightarrow> state_manager" where
  "sm_reset new_state sm =
     sm\<lparr>sm_state := (case new_state of None \<Rightarrow> empty_world | Some w \<Rightarrow> w), sm_trace := []\<rparr>"

text \<open>A caller that catches the exception of a rejected transaction keeps the manager as it was.\<close>

definition sm_step :: "sha256 \<Rightarrow> registry \<Rightarrow> state_manager \<Rightarrow> tx \<Rightarrow> state_manager" where
  "sm_step H R sm t = (case apply_transaction H R sm t of Inl _ \<Rightarrow> sm | Inr sm' \<Rightarrow> sm')"

definition sm_run :: "sha256 \<Rightarrow> registry \<Rightarrow> state_manager \<Rightarrow> tx list \<Rightarrow> state_manager" where
  "sm_run H R sm ts = foldl (sm_step H R) sm ts"

lemma compute_diff_iff:
  "(a, x, y) \<in> set (compute_diff v w) \<longleftrightarrow> x = balance v a \<and> y = balance w a \<and> x \<noteq> y"
proof -
  have "a \<in> set (dkeys (balances_of v)) \<union> set (dkeys (balances_of w))" if "balance v a \<noteq> balance w a"
    using that by (auto simp: balance_def dget_or_def split: option.splits dest: dget_Some_key)
  then show ?thesis by (auto simp: compute_diff_def Let_def balance_def)
qed

lemma compute_diff_sorted: "sorted (map fst (compute_diff v w))" "wf_dict (compute_diff v w)"
  by (simp_all add: compute_diff_def Let_def comp_def sorted_filter [where f = "\<lambda>x. x", simplified])

text \<open>The trace as a chain of hashes, and its replay.\<close>

fun trace_chain :: "string \<Rightarrow> trace_entry list \<Rightarrow> string \<Rightarrow> bool" where
  "trace_chain h [] h' \<longleftrightarrow> h = h'"
| "trace_chain h (e # es) h' \<longleftrightarrow> te_old_hash e = h \<and> trace_chain (te_new_hash e) es h'"

fun replay :: "registry \<Rightarrow> world \<Rightarrow> tx list \<Rightarrow> exec_error + world" where
  "replay R w [] = Inr w"
| "replay R w (t # ts) = bindE (execute R w t) (\<lambda>w'. replay R w' ts)"

lemma trace_chain_snoc:
  "trace_chain h (es @ [e]) h' \<longleftrightarrow> trace_chain h es (te_old_hash e) \<and> te_new_hash e = h'"
  by (induction es arbitrary: h) auto

lemma replay_snoc: "replay R w (ts @ [t]) = bindE (replay R w ts) (\<lambda>w'. execute R w' t)"
  by (induction ts arbitrary: w) (auto simp: bindE_assoc, metis bindE.simps sum.exhaust)

lemma apply_transaction_Inr:
  assumes "apply_transaction H R sm t = Inr sm'"
  shows "execute R (sm_state sm) t = Inr (sm_state sm')" "sm_use_merkle sm' = sm_use_merkle sm"
    "sm_trace sm' = sm_trace sm @ [\<lparr>te_tx = t, te_old_hash = compute_state_hash H sm,
       te_new_hash = compute_state_hash H sm', te_diff = compute_diff (sm_state sm) (sm_state sm')\<rparr>]"
  using assms by (auto simp: apply_transaction_def Let_def bindE_Inr_iff compute_state_hash_def)

lemma apply_transaction_Inl_iff:
  "apply_transaction H R sm t = Inl e \<longleftrightarrow> execute R (sm_state sm) t = Inl e"
  by (auto simp: apply_transaction_def Let_def bindE_Inl_iff)

definition sm_inv :: "sha256 \<Rightarrow> registry \<Rightarrow> world \<Rightarrow> state_manager \<Rightarrow> bool" where
  "sm_inv H R w0 sm \<longleftrightarrow>
     trace_chain (state_hash H (sm_use_merkle sm) w0) (sm_trace sm) (compute_state_hash H sm)
     \<and> replay R w0 (map te_tx (sm_trace sm)) = Inr (sm_state sm)"

lemma sm_inv_init: "sm_inv H R (case w of None \<Rightarrow> empty_world | Some w \<Rightarrow> w) (sm_init w m)"
  by (simp add: sm_inv_def sm_init_def compute_state_hash_def)

lemma sm_inv_step: "sm_inv H R w0 sm \<Longrightarrow> sm_inv H R w0 (sm_step H R sm t)"
proof (cases "apply_transaction H R sm t")
  case (Inr sm')
  assume "sm_inv H R w0 sm"
  with Inr apply_transaction_Inr [OF Inr] show ?thesis
    by (simp add: sm_inv_def sm_step_def trace_chain_snoc replay_snoc)
qed (simp add: sm_step_def)

lemma sm_inv_run: "sm_inv H R w0 sm \<Longrightarrow> sm_inv H R w0 (sm_run H R sm ts)"
  unfolding sm_run_def by (induction ts arbitrary: sm) (simp_all add: sm_inv_step)

lemma sm_step_state:
  "sm_state (sm_step H R sm t) = (case execute R (sm_state sm) t of Inl _ \<Rightarrow> sm_state sm | Inr w \<Rightarrow> w)"
proof (cases "apply_transaction H R sm t")
  case (Inl e)
  then show ?thesis using apply_transaction_Inl_iff [of H R sm t e] by (simp add: sm_step_def)
next
  case (Inr sm')
  then show ?thesis using apply_transaction_Inr(1) [OF Inr] by (simp add: sm_step_def)
qed

lemma sm_step_use_merkle [simp]: "sm_use_merkle (sm_step H R sm t) = sm_use_merkle sm"
  by (cases "apply_transaction H R sm t") (auto simp: sm_step_def dest: apply_transaction_Inr(2))

context handler_registry
begin

lemma sm_step_wf: "wf_world (sm_state sm) \<Longrightarrow> wf_world (sm_state (sm_step H R sm t))"
  by (auto simp: sm_step_state intro: execute_wf split: sum.split)

lemma sm_step_solvent:
  "wf_world (sm_state sm) \<Longrightarrow> solvent (sm_state sm) \<Longrightarrow> solvent (sm_state (sm_step H R sm t))"
  by (auto simp: sm_step_state intro: execute_solvent split: sum.split)

lemma sm_run_safe:
  "wf_world (sm_state sm) \<Longrightarrow> solvent (sm_state sm) \<Longrightarrow>
    wf_world (sm_state (sm_run H R sm ts)) \<and> solvent (sm_state (sm_run H R sm ts))"
  unfolding sm_run_def by (induction ts arbitrary: sm) (simp_all add: sm_step_wf sm_step_solvent)

end

lemma sm_step_cong:
  assumes "handler_registry R" and "same_world (sm_state a) (sm_state b)"
  shows "same_world (sm_state (sm_step H R a t)) (sm_state (sm_step H R b t))"
proof (cases "execute R (sm_state b) t")
  case (Inl e)
  then show ?thesis
    using handler_registry.execute_cong_fails [OF assms Inl] assms(2) by (auto simp: sm_step_state)
next
  case (Inr w)
  then show ?thesis
    using handler_registry.execute_cong [OF assms Inr] by (auto simp: sm_step_state)
qed

text \<open>How a transaction that was applied changes the supply.\<close>

definition supply_change :: "tx \<Rightarrow> int" where
  "supply_change t =
     (let amount = (case tx_amount t of None \<Rightarrow> 0 | Some a \<Rightarrow> a)
      in if tx_type t = Some ''mint'' then amount
         else if tx_type t = Some ''burn'' then - amount else 0)"

lemma product_handler_supply: "product_handler args pid upd w t = Inr w' \<Longrightarrow> total_supply w' = total_supply w"
  by (auto simp: product_handler_Inr_iff total_supply_def)

lemma supply_chain_supply:
  "handle_ship w t = Inr w' \<Longrightarrow> total_supply w' = total_supply w"
  "handle_receive w t = Inr w' \<Longrightarrow> total_supply w' = total_supply w"
  "handle_inspect w t = Inr w' \<Longrightarrow> total_supply w' = total_supply w"
  "handle_quarantine w t = Inr w' \<Longrightarrow> total_supply w' = total_supply w"
  "handle_release w t = Inr w' \<Longrightarrow> total_supply w' = total_supply w"
  unfolding supply_chain_shapes by (erule product_handler_supply)+

lemma minted_burned_amount:
  "handle_mint w t = Inr w' \<Longrightarrow> \<exists>a. tx_amount t = Some a"
  "handle_burn w t = Inr w' \<Longrightarrow> \<exists>a. tx_amount t = Some a"
  by (auto simp: financial_iffs)

lemma ecn_execute_supply:
  assumes "wf_world w" and "execute ecn_handlers w t = Inr w'"
  shows "total_supply w' = total_supply w + supply_change t"
  using ecn_execute_cases [OF assms(2)]
proof (elim disjE conjE)
  assume "tx_type t = Some ''mint''" and h: "handle_mint w t = Inr w'"
  then show ?thesis
    using minted_burned_amount(1) [OF h] handle_mint_supply [OF assms(1) h] by (auto simp: supply_change_def)
next
  assume "tx_type t = Some ''burn''" and h: "handle_burn w t = Inr w'"
  then show ?thesis
    using minted_burned_amount(2) [OF h] handle_burn_supply [OF assms(1) h] by (auto simp: supply_change_def)
qed (simp_all add: supply_change_def handle_transfer_supply [OF assms(1)] supply_chain_supply)

lemma replay_supply:
  "wf_world w \<Longrightarrow> replay ecn_handlers w ts = Inr w' \<Longrightarrow>
    total_supply w' = total_supply w + sum_list (map supply_change ts)"
proof (induction ts arbitrary: w)
  case (Cons t ts)
  then obtain v where v: "execute ecn_handlers w t = Inr v" "replay ecn_handlers v ts = Inr w'"
    by (auto simp: bindE_Inr_iff)
  then have "wf_world v" using Cons.prems(1) by (blast intro: ecn.execute_wf)
  with Cons.IH v ecn_execute_supply [OF Cons.prems(1) v(1)] show ?case by simp
qed simp

subsection \<open>What the state manager guarantees\<close>

definition example_sha256 :: sha256 where
  "example_sha256 s = take 64 (map (\<lambda>c. hex_char (code c mod 16)) s @ replicate 64 (CHR ''0''))"

lemma hex_digest_example: "hex_digest example_sha256"
proof -
  have "is_lower_hex (hex_char (n mod 16))" for n
    by (auto simp: is_lower_hex_def hex_char_def)
  moreover have "is_lower_hex (CHR ''0'')" by (simp add: is_lower_hex_def)
  ultimately show ?thesis
    by (auto simp: hex_digest_def example_sha256_def dest!: in_set_takeD)
qed

lemma sm_run_products:
  "wf_products (sm_state sm) \<Longrightarrow> wf_products (sm_state (sm_run H ecn_handlers sm ts))"
proof -
  have step: "wf_products (sm_state (sm_step H ecn_handlers sm t))" if "wf_products (sm_state sm)" for sm t
    using ecn_execute_products [OF that] that by (auto simp: sm_step_state split: sum.split)
  show "wf_products (sm_state sm) \<Longrightarrow> wf_products (sm_state (sm_run H ecn_handlers sm ts))"
    unfolding sm_run_def by (induction ts arbitrary: sm) (simp_all add: step)
qed

text \<open>C28. Safety of the executor: whatever transactions a state manager is fed, accepted or not, its
  state stays well-formed, no balance becomes negative and the products stay in order.\<close>

theorem executor_safe:
  assumes "wf_world w" and "solvent w" and "wf_products w"
  shows "let w' = sm_state (sm_run H ecn_handlers (sm_init (Some w) m) ts)
    in wf_world w' \<and> solvent w' \<and> wf_products w'"
  using ecn.sm_run_safe [of "sm_init (Some w) m" H ts] sm_run_products [of "sm_init (Some w) m" H ts] assms
  by (simp add: sm_init_def Let_def)

theorem executor_safe_witness:
  "let w' = sm_state (sm_run example_sha256 ecn_handlers (sm_init (Some example_world) False)
       [example_transfer 100, example_transfer 5000, example_ship])
    in wf_world w' \<and> solvent w' \<and> wf_products w'"
  by (rule executor_safe [OF wf_example_world])
    (simp_all add: example_world_def solvent_def wf_products_def products_of_def)

text \<open>C29. The trace is the account of the state: its hashes form a chain from the hash of the initial
  state to that of the current one, replaying its transactions from the initial state gives the
  current state without an error, and the supply is the initial one plus what they minted less
  what they burnt.\<close>

theorem trace_accounts_for_state:
  assumes "wf_world w"
  shows "let sm = sm_run H ecn_handlers (sm_init (Some w) m) ts; txs = map te_tx (sm_trace sm)
    in trace_chain (state_hash H m w) (sm_trace sm) (compute_state_hash H sm)
      \<and> replay ecn_handlers w txs = Inr (sm_state sm)
      \<and> total_supply (sm_state sm) = total_supply w + sum_list (map supply_change txs)"
proof -
  have mode: "sm_use_merkle (sm_run H ecn_handlers sm ts) = sm_use_merkle sm" for sm
    unfolding sm_run_def by (induction ts arbitrary: sm) simp_all
  let ?sm = "sm_run H ecn_handlers (sm_init (Some w) m) ts"
  have inv: "sm_inv H ecn_handlers w ?sm"
    using sm_inv_run sm_inv_init [of H ecn_handlers "Some w" m] by simp
  then have r: "replay ecn_handlers w (map te_tx (sm_trace ?sm)) = Inr (sm_state ?sm)" by (simp add: sm_inv_def)
  have "sm_use_merkle ?sm = m" by (simp add: mode) (simp add: sm_init_def)
  then show ?thesis
    using replay_supply [OF assms r] inv by (simp add: sm_inv_def Let_def)
qed

theorem trace_accounts_for_state_witness:
  "let sm = sm_run example_sha256 ecn_handlers (sm_init (Some example_world) True) [example_transfer 100];
       txs = map te_tx (sm_trace sm)
    in trace_chain (state_hash example_sha256 True example_world) (sm_trace sm) (compute_state_hash example_sha256 sm)
      \<and> replay ecn_handlers example_world txs = Inr (sm_state sm)
      \<and> total_supply (sm_state sm) = total_supply example_world + sum_list (map supply_change txs)"
  by (rule trace_accounts_for_state [OF wf_example_world])

text \<open>C30. The state hash identifies the state: states that agree on every account and product have the
  same hash, in either mode and whatever the order in which their dicts were filled; and when
  the plain hashes of two states are equal the states agree, unless their JSON texts are a
  collision of SHA-256.\<close>

theorem state_hash_identifies:
  assumes "wf_world v" and "wf_world w"
  shows "(same_world v w \<longrightarrow> state_hash H m v = state_hash H m w)
    \<and> (state_hash H False v = state_hash H False w \<longrightarrow>
        same_world v w \<or> collision H (canonical_json (world_json v)) (canonical_json (world_json w)))"
  using state_hash_cong [OF _ assms] state_hash_binds [OF assms] by blast

definition example_world' :: world where
  "example_world' = \<lparr>w_balances = Some [(''B'', 500), (''A'', 1000)], w_products = None\<rparr>"

lemma same_example_worlds: "wf_world example_world'" "same_world example_world example_world'"
  by (auto simp: wf_world_def same_world_def example_world_def example_world'_def)

theorem state_hash_identifies_witness:
  "example_world \<noteq> example_world'
   \<and> state_hash example_sha256 True example_world = state_hash example_sha256 True example_world'"
  using state_hash_identifies [OF wf_example_world same_example_worlds(1), of example_sha256 True]
    same_example_worlds(2) by (simp add: example_world_def example_world'_def)

text \<open>The Merkle root identifies the balances, and nothing else: equal roots mean equal balances of
  every account, unless two strings hashed for them collide; no change to a product shows in it,
  so with \<open>use_merkle\<close> every supply-chain transaction leaves the hash of the state as it was.\<close>

lemma merkle_root_identifies_balances:
  assumes "hex_digest H" and "wf_world v" and "wf_world w"
  shows "(state_hash H True v = state_hash H True w \<longrightarrow>
        dget (balances_of v) = dget (balances_of w)
        \<or> (\<exists>x\<in>set (merkle_inputs H v). \<exists>y\<in>set (merkle_inputs H w). collision H x y))
    \<and> state_hash H True (put_product pid p w) = state_hash H True w"
  using merkle_hash_binds [OF assms] by (simp add: state_hash_def)

lemma merkle_root_identifies_balances_example:
  "state_hash example_sha256 True (put_product ''P1'' fresh_product example_world)
     = state_hash example_sha256 True example_world"
  using merkle_root_identifies_balances [OF hex_digest_example wf_example_world wf_example_world] by blast

text \<open>C39. The Merkle tree of a list of hashes commits to all of them. The loop ends with a single root, after
  one level per halving of the number of leaves: at most \<open>2 ^ k\<close> leaves give at most \<open>k + 1\<close> levels, the
  leaves themselves being the first. And two lists of the same number of hashes, at least one, with the
  same root are equal, in every position, an odd last one included, unless two of the strings hashed in
  building the two trees collide. The number has to be known: a list of odd length greater than one has
  the root of the list in which its last hash is repeated.\<close>

theorem merkle_tree_commits:
  assumes "hex_digest H" and "length leaves \<le> 2 ^ k" and "leaves \<noteq> []"
    and "\<forall>l\<in>set leaves \<union> set leaves'. \<exists>x. l = H x" and "length leaves' = length leaves"
  shows "length (last (build_merkle_tree H leaves)) = 1 \<and> length (build_merkle_tree H leaves) \<le> Suc k
    \<and> hd (build_merkle_tree H leaves) = leaves
    \<and> (merkle_root H leaves = merkle_root H leaves' \<longrightarrow> leaves = leaves'
        \<or> (\<exists>x\<in>set (tree_inputs (build_merkle_tree H leaves)). \<exists>y\<in>set (tree_inputs (build_merkle_tree H leaves')). collision H x y))
    \<and> (odd (length leaves) \<and> 1 < length leaves \<longrightarrow> merkle_root H (leaves @ [last leaves]) = merkle_root H leaves)"
proof (intro conjI impI)
  show "length (last (build_merkle_tree H leaves)) = 1" by (rule build_merkle_tree_root)
  show "length (build_merkle_tree H leaves) \<le> Suc k"
    using length_merkle_levels [OF assms(2), of H] by (simp add: build_merkle_tree_def)
  show "hd (build_merkle_tree H leaves) = leaves" using assms(3) by (simp add: build_merkle_tree_def hd_merkle_levels)
  have "length l = 64 \<and> (\<forall>c\<in>set l. is_lower_hex c)" if "l \<in> set leaves \<union> set leaves'" for l
  proof -
    obtain x where "l = H x" using assms(4) \<open>l \<in> set leaves \<union> set leaves'\<close> by blast
    then show ?thesis using hex_digestD [OF assms(1)] by simp
  qed
  then have digests: "digests leaves" "digests leaves'" unfolding digests_def by blast+
  have "leaves' \<noteq> []" using assms(3,5) by auto
  then show "leaves = leaves' \<or> (\<exists>x\<in>set (tree_inputs (build_merkle_tree H leaves)).
      \<exists>y\<in>set (tree_inputs (build_merkle_tree H leaves')). collision H x y)"
    if "merkle_root H leaves = merkle_root H leaves'"
    using merkle_levels_bind [OF assms(1) digests assms(5)] that assms(3) by (simp add: merkle_root_def build_merkle_tree_def)
  show "merkle_root H (leaves @ [last leaves]) = merkle_root H leaves" if "odd (length leaves) \<and> 1 < length leaves"
    using assms(3) that pair_up_odd [of leaves] merkle_root_step [of leaves H] merkle_root_step [of "leaves @ [last leaves]" H]
    by (simp add: merkle_level_def)
qed

theorem merkle_tree_commits_witness:
  "length (build_merkle_tree example_sha256 (map example_sha256 [''a'', ''b'', ''c''])) \<le> Suc 2
   \<and> merkle_root example_sha256 (map example_sha256 [''a'', ''b'', ''c'', ''c''])
       = merkle_root example_sha256 (map example_sha256 [''a'', ''b'', ''c''])"
proof -
  let ?ls = "map example_sha256 [''a'', ''b'', ''c'']"
  have "\<forall>l\<in>set ?ls \<union> set ?ls. \<exists>x. l = example_sha256 x" by auto
  from merkle_tree_commits [OF hex_digest_example _ _ this, of 2] show ?thesis by simp
qed

text \<open>The recorded diff is exact: it lists the accounts whose balance changed, each once and in
  order, with the balance before and after, and no other.\<close>

lemma diff_exact:
  "((a, x, y) \<in> set (compute_diff v w) \<longleftrightarrow> x = balance v a \<and> y = balance w a \<and> x \<noteq> y)
   \<and> sorted (map fst (compute_diff v w)) \<and> distinct (map fst (compute_diff v w))"
  by (intro conjI compute_diff_iff compute_diff_sorted)

end
