(* ===== verification/Crypto.thy ===== *)
theory Crypto
  imports StateManager
begin

section \<open>Signed results\<close>

text \<open>
  \<open>ecn/crypto.py\<close>. The Ed25519 library and the SHA-256 digest (raw bytes) are the fields of
  the record \<open>crypto\<close>, a parameter of every definition that signs or verifies. What the
  program relies on is stated as \<open>signs_correctly\<close> (a signature made with a private key
  verifies under its public key) and \<open>keys_serialise\<close>.

  The lemmas show that a node's own signature verifies, that the signed message determines
  node and hash up to a digest collision as long as the hash has no colon, as hex digests
  do, and that it does not when the hash may contain one.
\<close>

record ('sk, 'pk) crypto =
  c_digest :: "string \<Rightarrow> string"
  c_sign :: "'sk \<Rightarrow> string \<Rightarrow> string"
  c_verify :: "'pk \<Rightarrow> string \<Rightarrow> string \<Rightarrow> bool"
  c_public_key :: "'sk \<Rightarrow> 'pk"
  c_key_bytes :: "'pk \<Rightarrow> string"
  c_key_from_bytes :: "string \<Rightarrow> 'pk option"

definition signs_correctly :: "('sk, 'pk) crypto \<Rightarrow> bool" where
  "signs_correctly C \<longleftrightarrow> (\<forall>sk m. c_verify C (c_public_key C sk) (c_sign C sk m) m)"

definition keys_serialise :: "('sk, 'pk) crypto \<Rightarrow> bool" where
  "keys_serialise C \<longleftrightarrow> (\<forall>pk. c_key_from_bytes C (c_key_bytes C pk) = Some pk)"

subsection \<open>Hexadecimal text of byte strings\<close>

definition hex_encode :: "string \<Rightarrow> string" where
  "hex_encode bs = concat (map (\<lambda>b. [hex_char (code b div 16), hex_char (code b mod 16)]) bs)"

definition hex_digit_value :: "char \<Rightarrow> nat option" where
  "hex_digit_value c =
     (if 48 \<le> code c \<and> code c \<le> 57 then Some (code c - 48)
      else if 97 \<le> code c \<and> code c \<le> 102 then Some (code c - 87)
      else if 65 \<le> code c \<and> code c \<le> 70 then Some (code c - 55)
      else None)"

definition is_space :: "char \<Rightarrow> bool" where
  "is_space c \<longleftrightarrow> code c = 32 \<or> (9 \<le> code c \<and> code c \<le> 13)"

text \<open>\<open>bytes.fromhex\<close>: pairs of digits, white space allowed between them; \<open>ValueError\<close> is \<open>None\<close>.\<close>

fun hex_decode :: "string \<Rightarrow> string option" where
  "hex_decode [] = Some []"
| "hex_decode (c # cs) =
     (if is_space c then hex_decode cs
      else case cs of
        [] \<Rightarrow> None
      | d # ds \<Rightarrow>
          (case (hex_digit_value c, hex_digit_value d) of
            (Some x, Some y) \<Rightarrow> map_option (\<lambda>r. char_of (16 * x + y) # r) (hex_decode ds)
          | _ \<Rightarrow> None))"

lemma hex_digit_value_hex_char [simp]: "d < 16 \<Longrightarrow> hex_digit_value (hex_char d) = Some d"
  by (simp add: hex_digit_value_def hex_char_def)

lemma hex_char_not_space [simp]: "d < 16 \<Longrightarrow> \<not> is_space (hex_char d)"
  by (simp add: is_space_def hex_char_def)

lemma hex_decode_encode [simp]: "hex_decode (hex_encode bs) = Some bs"
  by (induction bs) (simp_all add: hex_encode_def code_div_less)

subsection \<open>Signing and verifying\<close>

definition build_message :: "('sk, 'pk) crypto \<Rightarrow> string \<Rightarrow> string \<Rightarrow> string" where
  "build_message C node_id hash = c_digest C (utf8 (node_id @ '':'' @ hash))"

definition sign_result :: "('sk, 'pk) crypto \<Rightarrow> string \<Rightarrow> string \<Rightarrow> 'sk \<Rightarrow> string" where
  "sign_result C node_id hash private_key =
     hex_encode (c_sign C private_key (build_message C node_id hash))"

definition verify_result :: "('sk, 'pk) crypto \<Rightarrow> string \<Rightarrow> string \<Rightarrow> string \<Rightarrow> 'pk \<Rightarrow> bool" where
  "verify_result C node_id hash signature_hex public_key =
     (case hex_decode signature_hex of
        None \<Rightarrow> False
      | Some raw_sig \<Rightarrow> c_verify C public_key raw_sig (build_message C node_id hash))"

definition public_key_to_hex :: "('sk, 'pk) crypto \<Rightarrow> 'pk \<Rightarrow> string" where
  "public_key_to_hex C public_key = hex_encode (c_key_bytes C public_key)"

definition public_key_from_hex :: "('sk, 'pk) crypto \<Rightarrow> string \<Rightarrow> 'pk option" where
  "public_key_from_hex C hex_str = Option.bind (hex_decode hex_str) (c_key_from_bytes C)"

record signed_result =
  sr_node_id :: string
  sr_state_hash :: string
  sr_signature :: string

definition sr_to_dict :: "signed_result \<Rightarrow> string dict" where
  "sr_to_dict r = [(''node_id'', sr_node_id r), (''state_hash'', sr_state_hash r),
     (''signature'', sr_signature r)]"

definition sr_from_dict :: "string dict \<Rightarrow> exec_error + signed_result" where
  "sr_from_dict d =
     bindE (need ''node_id'' (dget d ''node_id'')) (\<lambda>n.
     bindE (need ''state_hash'' (dget d ''state_hash'')) (\<lambda>h.
     bindE (need ''signature'' (dget d ''signature'')) (\<lambda>s.
       Inr \<lparr>sr_node_id = n, sr_state_hash = h, sr_signature = s\<rparr>)))"

definition sr_verify :: "('sk, 'pk) crypto \<Rightarrow> signed_result \<Rightarrow> 'pk \<Rightarrow> bool" where
  "sr_verify C r public_key =
     verify_result C (sr_node_id r) (sr_state_hash r) (sr_signature r) public_key"

lemma verify_own_signature [simp]:
  "signs_correctly C \<Longrightarrow> verify_result C n h (sign_result C n h sk) (c_public_key C sk)"
  by (simp add: verify_result_def sign_result_def signs_correctly_def)

lemma public_key_hex_roundtrip:
  "keys_serialise C \<Longrightarrow> public_key_from_hex C (public_key_to_hex C pk) = Some pk"
  by (simp add: public_key_from_hex_def public_key_to_hex_def keys_serialise_def)

lemma sr_dict_roundtrip: "sr_from_dict (sr_to_dict r) = Inr r"
  by (simp add: sr_from_dict_def sr_to_dict_def)

definition signed_payload :: "string \<Rightarrow> string \<Rightarrow> string" where
  "signed_payload node_id hash = utf8 (node_id @ '':'' @ hash)"

lemma signed_payload_inject:
  assumes "CHR '':'' \<notin> set h" and "CHR '':'' \<notin> set h'"
  shows "signed_payload n h = signed_payload n' h' \<longleftrightarrow> n = n' \<and> h = h'"
proof
  assume "signed_payload n h = signed_payload n' h'"
  then have "n @ CHR '':'' # h = n' @ CHR '':'' # h'" by (simp add: signed_payload_def del: utf8_simps)
  then show "n = n' \<and> h = h'" using assms by (rule last_separator_unique)
qed simp

lemma build_message_binds:
  assumes "build_message C n h = build_message C n' h'"
    and "CHR '':'' \<notin> set h" and "CHR '':'' \<notin> set h'"
  shows "(n = n' \<and> h = h') \<or> collision (c_digest C) (signed_payload n h) (signed_payload n' h')"
  using assms signed_payload_inject [of h h' n n']
  by (auto simp: build_message_def collision_def signed_payload_def)

subsection \<open>What signatures guarantee\<close>

text \<open>An instance of the library for the witnesses: a keyed tag in place of the signature.\<close>

definition example_crypto :: "(string, string) crypto" where
  "example_crypto = \<lparr>c_digest = (\<lambda>m. m), c_sign = (\<lambda>sk m. sk @ m), c_verify = (\<lambda>pk s m. s = pk @ m),
     c_public_key = (\<lambda>sk. sk), c_key_bytes = (\<lambda>pk. pk), c_key_from_bytes = Some\<rparr>"

lemma example_crypto_ok: "signs_correctly example_crypto" "keys_serialise example_crypto"
  by (simp_all add: example_crypto_def signs_correctly_def keys_serialise_def)

text \<open>A signed result survives the network: signed with a node's key, turned into its dict, read
  back and checked under the public key that travelled as hexadecimal text, it verifies.\<close>

lemma signed_result_roundtrip:
  assumes "signs_correctly C" and "keys_serialise C"
  shows "let r = \<lparr>sr_node_id = n, sr_state_hash = h, sr_signature = sign_result C n h sk\<rparr>
    in sr_from_dict (sr_to_dict r) = Inr r
      \<and> map_option (sr_verify C r) (public_key_from_hex C (public_key_to_hex C (c_public_key C sk))) = Some True"
  using assms by (simp add: sr_dict_roundtrip public_key_hex_roundtrip sr_verify_def Let_def)

lemma signed_result_roundtrip_example:
  "let r = \<lparr>sr_node_id = ''Node-1'', sr_state_hash = ''ab'', sr_signature = sign_result example_crypto ''Node-1'' ''ab'' ''k''\<rparr>
    in sr_from_dict (sr_to_dict r) = Inr r
      \<and> map_option (sr_verify example_crypto r)
          (public_key_from_hex example_crypto (public_key_to_hex example_crypto (c_public_key example_crypto ''k''))) = Some True"
  by (rule signed_result_roundtrip [OF example_crypto_ok])

text \<open>What is signed determines who reported what: two signed messages are equal only for the same
  node and the same hash, unless their payloads collide, as long as the hashes have no colon,
  as digests have none. With a colon in the hash the separator is ambiguous.\<close>

lemma signed_message_binds:
  "(build_message C n h = build_message C n' h' \<and> CHR '':'' \<notin> set h \<and> CHR '':'' \<notin> set h' \<longrightarrow>
      (n = n' \<and> h = h') \<or> collision (c_digest C) (signed_payload n h) (signed_payload n' h'))
   \<and> build_message C ''a'' ''b:c'' = build_message C ''a:b'' ''c''"
  using build_message_binds [of C n h n' h'] by (auto simp: build_message_def)

lemma signed_message_binds_example:
  "build_message example_crypto ''Node-1'' ''ab'' \<noteq> build_message example_crypto ''Node-2'' ''ab''"
  using signed_message_binds [of example_crypto "''Node-1''" "''ab''" "''Node-2''" "''ab''"]
  by (auto simp: collision_def example_crypto_def)

end
