(* ===== verification/Node.thy ===== *)
theory Node
  imports Crypto
begin

section \<open>Nodes\<close>

text \<open>
  \<open>ecn/node.py\<close>: a node with its own state manager, an optional signing key and the
  malicious switch that corrupts the reported hash. \<open>node_execute\<close> returns the result of the
  call, or its exception, together with the node afterwards: when the transaction is rejected
  the node is unchanged.

  The lemmas show what an honest and a malicious node report, that the corrupted hash is
  never a SHA-256 digest, and that nodes with the same state report the same hash.
\<close>

record node_result =
  nr_node_id :: string
  nr_state_hash :: string
  nr_result_state :: "world option"
  nr_trace_entry :: "trace_entry option"
  nr_signature :: "string option"

record 'sk node =
  n_node_id :: string
  n_malicious :: bool
  n_signing_key :: "'sk option"
  n_manager :: state_manager

definition node_init :: "string \<Rightarrow> world \<Rightarrow> bool \<Rightarrow> bool \<Rightarrow> 'sk option \<Rightarrow> 'sk node" where
  "node_init node_id initial_state malicious use_merkle signing_key =
     \<lparr>n_node_id = node_id, n_malicious = malicious, n_signing_key = signing_key,
      n_manager = sm_init (Some initial_state) use_merkle\<rparr>"

text \<open>\<open>true_hash[:-8] + "DEADBEEF"\<close>.\<close>

definition corrupt_hash :: "string \<Rightarrow> string" where
  "corrupt_hash true_hash = take (length true_hash - 8) true_hash @ ''DEADBEEF''"

definition node_execute ::
  "('sk, 'pk) crypto \<Rightarrow> sha256 \<Rightarrow> registry \<Rightarrow> 'sk node \<Rightarrow> tx \<Rightarrow> (exec_error + node_result) \<times> 'sk node" where
  "node_execute C H R nd t =
     (case apply_transaction H R (n_manager nd) t of
        Inl e \<Rightarrow> (Inl e, nd)
      | Inr sm \<Rightarrow>
          let nd' = nd\<lparr>n_manager := sm\<rparr>;
              true_hash = compute_state_hash H sm;
              reported_hash = (if n_malicious nd then corrupt_hash true_hash else true_hash);
              signature = map_option (sign_result C (n_node_id nd) reported_hash) (n_signing_key nd)
          in (Inr \<lparr>nr_node_id = n_node_id nd, nr_state_hash = reported_hash,
                   nr_result_state = Some (sm_state sm), nr_trace_entry = Some (last (sm_trace sm)),
                   nr_signature = signature\<rparr>, nd'))"

definition node_state_hash :: "sha256 \<Rightarrow> 'sk node \<Rightarrow> string" where
  "node_state_hash H nd = compute_state_hash H (n_manager nd)"

definition node_reset :: "world option \<Rightarrow> 'sk node \<Rightarrow> 'sk node" where
  "node_reset new_state nd = nd\<lparr>n_manager := sm_reset new_state (n_manager nd)\<rparr>"

abbreviation node_state :: "'sk node \<Rightarrow> world" where
  "node_state nd \<equiv> sm_state (n_manager nd)"

text \<open>The hash a node reports for a state.\<close>

definition reported_hash :: "sha256 \<Rightarrow> 'sk node \<Rightarrow> world \<Rightarrow> string" where
  "reported_hash H nd w =
     (let h = state_hash H (sm_use_merkle (n_manager nd)) w in if n_malicious nd then corrupt_hash h else h)"

lemma node_execute_Inl:
  "execute R (node_state nd) t = Inl e \<Longrightarrow> node_execute C H R nd t = (Inl e, nd)"
  by (simp add: node_execute_def apply_transaction_Inl_iff [THEN iffD2])

lemma node_execute_Inr:
  assumes "execute R (node_state nd) t = Inr w"
  obtains r nd' where "node_execute C H R nd t = (Inr r, nd')"
    and "nr_node_id r = n_node_id nd" and "nr_state_hash r = reported_hash H nd w"
    and "nr_signature r = map_option (sign_result C (n_node_id nd) (reported_hash H nd w)) (n_signing_key nd)"
    and "nr_result_state r = Some w"
    and "node_state nd' = w" and "n_node_id nd' = n_node_id nd" and "n_malicious nd' = n_malicious nd"
    and "n_signing_key nd' = n_signing_key nd"
    and "sm_use_merkle (n_manager nd') = sm_use_merkle (n_manager nd)"
proof -
  obtain sm where sm: "apply_transaction H R (n_manager nd) t = Inr sm"
    using assms apply_transaction_Inl_iff [of H R "n_manager nd" t]
    by (cases "apply_transaction H R (n_manager nd) t") auto
  note sm' = apply_transaction_Inr [OF sm]
  with assms have w: "sm_state sm = w" by simp
  show ?thesis
    by (rule that [where nd' = "nd\<lparr>n_manager := sm\<rparr>"])
      (use w sm sm' in \<open>auto simp: node_execute_def Let_def reported_hash_def compute_state_hash_def\<close>)
qed

lemma node_execute_node:
  "snd (node_execute C H R nd t) = nd\<lparr>n_manager := sm_step H R (n_manager nd) t\<rparr>"
  by (simp add: node_execute_def sm_step_def Let_def split: sum.split)

lemma node_execute_fails_iff:
  "(\<exists>e. fst (node_execute C H R nd t) = Inl e) \<longleftrightarrow> (\<exists>e. execute R (node_state nd) t = Inl e)"
  using apply_transaction_Inl_iff [of H R "n_manager nd" t]
  by (cases "apply_transaction H R (n_manager nd) t") (auto simp: node_execute_def Let_def)

subsection \<open>The corrupted hash\<close>

lemma merkle_level_digests: "h \<in> set (merkle_level H ls) \<Longrightarrow> \<exists>x. h = H x"
  by (auto simp: merkle_level_def)

lemma merkle_root_digest: "\<forall>l\<in>set ls. \<exists>x. l = H x \<Longrightarrow> \<exists>x. merkle_root H ls = H x"
proof (induction "length ls" arbitrary: ls rule: less_induct)
  case less
  show ?case
  proof (cases "1 < length ls")
    case True
    then have "\<exists>x. merkle_root H (merkle_level H ls) = H x"
      by (intro less.hyps) (auto dest: merkle_level_digests)
    with True show ?thesis by (simp add: merkle_root_step)
  next
    case False
    then consider "ls = []" | l where "ls = [l]" by (cases ls) auto
    then show ?thesis
      using less.prems by cases (auto simp: merkle_root_single, auto simp: merkle_root_def build_merkle_tree_def)
  qed
qed

lemma state_hash_digest: "\<exists>x. state_hash H m w = H x"
  by (auto simp: state_hash_def merkle_hash_def intro!: merkle_root_digest)

lemma corrupt_hash_not_digest: "hex_digest H \<Longrightarrow> corrupt_hash h \<noteq> H x"
proof
  assume "hex_digest H" and "corrupt_hash h = H x"
  then have "is_lower_hex (CHR ''D'')"
    by (metis hex_digestD(2) corrupt_hash_def in_set_conv_decomp append_Cons)
  then show False by (simp add: is_lower_hex_def)
qed

lemma corrupt_hash_differs: "hex_digest H \<Longrightarrow> corrupt_hash h \<noteq> state_hash H m w"
  by (metis state_hash_digest corrupt_hash_not_digest)

lemma length_corrupt_hash: "8 \<le> length h \<Longrightarrow> length (corrupt_hash h) = length h"
  by (simp add: corrupt_hash_def)

lemma state_hash_no_colon: "hex_digest H \<Longrightarrow> CHR '':'' \<notin> set (state_hash H m w)"
  by (metis state_hash_digest hex_digestD(2) is_lower_hex_not_colon)

lemma reported_hash_no_colon: "hex_digest H \<Longrightarrow> CHR '':'' \<notin> set (reported_hash H nd w)"
  using state_hash_no_colon [of H "sm_use_merkle (n_manager nd)" w]
  by (auto simp: reported_hash_def Let_def corrupt_hash_def dest: in_set_takeD)

subsection \<open>What nodes report\<close>

text \<open>Nodes are told apart by what they report: on a transaction that succeeds an honest node
  reports the hash of the resulting state, a malicious one, although it holds the same state,
  a text of the same length that is the hash of no state whatsoever; either is signed with the
  node's own key. On a transaction that fails the node is unchanged.\<close>

lemma node_reports:
  assumes "hex_digest H"
  shows "(case execute R (node_state nd) t of
      Inl e \<Rightarrow> node_execute C H R nd t = (Inl e, nd)
    | Inr w \<Rightarrow> (\<exists>r nd'. node_execute C H R nd t = (Inr r, nd') \<and> node_state nd' = w
        \<and> nr_node_id r = n_node_id nd
        \<and> nr_signature r = map_option (sign_result C (n_node_id nd) (nr_state_hash r)) (n_signing_key nd)
        \<and> (if n_malicious nd
           then length (nr_state_hash r) = 64 \<and> (\<forall>m w'. nr_state_hash r \<noteq> state_hash H m w')
           else nr_state_hash r = state_hash H (sm_use_merkle (n_manager nd)) w)))"
proof (cases "execute R (node_state nd) t")
  case (Inl e)
  then show ?thesis by (simp add: node_execute_Inl)
next
  case (Inr w)
  have len: "length (state_hash H m w) = 64" for m
    using state_hash_digest [of H m w] hex_digestD(1) [OF assms] by metis
  show ?thesis
    by (rule node_execute_Inr [OF Inr, of C H])
      (auto simp: Inr reported_hash_def Let_def length_corrupt_hash len corrupt_hash_differs [OF assms])
qed

lemma node_reports_example:
  "\<exists>r nd'. node_execute example_crypto example_sha256 ecn_handlers
        (node_init ''Node-1'' example_world True False (Some ''k'')) (example_transfer 100) = (Inr r, nd')
      \<and> (\<forall>m w'. nr_state_hash r \<noteq> state_hash example_sha256 m w')"
proof -
  have "\<exists>w. execute ecn_handlers example_world (example_transfer 100) = Inr w"
    by (simp add: execute_def ecn_handlers_eq example_transfer_def blank_tx_def handle_transfer_def
        example_world_def)
  then obtain w where "execute ecn_handlers example_world (example_transfer 100) = Inr w" by blast
  then show ?thesis
    using node_reports [OF hex_digest_example, where C = example_crypto and R = ecn_handlers
      and nd = "node_init ''Node-1'' example_world True False (Some ''k'')" and t = "example_transfer 100"]
    by (auto simp: node_init_def sm_init_def)
qed

end
