(* ===== verification/ConsensusRound.thy ===== *)
theory ConsensusRound
  imports Node Complex_Main
begin

section \<open>A consensus round\<close>

text \<open>
  \<open>ecn/consensus.py\<close>: \<open>run_consensus\<close> over the results of one transaction, with the
  signature filter, the vote count, the deterministic choice of the winner and the quorum
  check of \<open>ConsensusResult\<close>. A threshold is the rational its decimal literal denotes; the
  quotient of two counts is compared with it exactly, which agrees with the program's floats
  as long as the number of responders times the denominator of the threshold is below \<open>2 ^ 52\<close>.

  The lemmas characterise the winner, and show that it does not depend on the order of the
  results, that results with bad signatures do not influence it, that every responder is
  counted once as honest or faulty, and how many faulty responders a threshold tolerates.
\<close>

record consensus_result =
  cr_agreed_hash :: "string option"
  cr_vote_counts :: "int dict"
  cr_honest_nodes :: "string list"
  cr_faulty_nodes :: "string list"
  cr_invalid_sig_nodes :: "string list"
  cr_total_nodes :: int
  cr_quorum_threshold :: rat
  cr_consensus_reached :: bool

definition default_quorum_threshold :: rat where
  "default_quorum_threshold = 51 / 100"

definition make_consensus_result ::
  "string option \<Rightarrow> int dict \<Rightarrow> string list \<Rightarrow> string list \<Rightarrow> string list \<Rightarrow> rat \<Rightarrow> consensus_result" where
  "make_consensus_result agreed votes honest faulty invalid threshold =
     (let total_verified = dsum votes in
      \<lparr>cr_agreed_hash = agreed, cr_vote_counts = votes, cr_honest_nodes = honest,
       cr_faulty_nodes = faulty, cr_invalid_sig_nodes = invalid,
       cr_total_nodes = int (length honest + length faulty), cr_quorum_threshold = threshold,
       cr_consensus_reached =
         (case agreed of
            None \<Rightarrow> False
          | Some h \<Rightarrow> 0 < total_verified
              \<and> threshold \<le> of_int (dget_or votes h 0) / of_int total_verified)\<rparr>)"

text \<open>The signature check of one result: a known key, a signature present, and valid.\<close>

definition result_verified :: "('sk, 'pk) crypto \<Rightarrow> 'pk dict \<Rightarrow> node_result \<Rightarrow> bool" where
  "result_verified C keys r =
     (case dget keys (nr_node_id r) of
        None \<Rightarrow> False
      | Some pk \<Rightarrow>
          (case nr_signature r of
             None \<Rightarrow> False
           | Some s \<Rightarrow> verify_result C (nr_node_id r) (nr_state_hash r) s pk))"

text \<open>\<open>if public_keys:\<close> is false both for \<open>None\<close> and for an empty dict.\<close>

definition counts_vote :: "('sk, 'pk) crypto \<Rightarrow> 'pk dict option \<Rightarrow> node_result \<Rightarrow> bool" where
  "counts_vote C public_keys r =
     (case public_keys of None \<Rightarrow> True | Some keys \<Rightarrow> keys = [] \<or> result_verified C keys r)"

definition count_votes :: "string list \<Rightarrow> int dict" where
  "count_votes hashes = foldl (\<lambda>d h. dset h (dget_or d h 0 + 1) d) [] hashes"

definition select_winner :: "int dict \<Rightarrow> string" where
  "select_winner votes =
     (let max_votes = Max (set (dvalues votes));
          candidates = map fst (filter (\<lambda>hv. snd hv = max_votes) votes)
      in Min (set candidates))"

definition run_consensus ::
  "('sk, 'pk) crypto \<Rightarrow> node_result list \<Rightarrow> 'pk dict option \<Rightarrow> rat \<Rightarrow> consensus_result" where
  "run_consensus C results public_keys threshold =
     (if results = [] then make_consensus_result None [] [] [] [] threshold
      else
        let verified = filter (counts_vote C public_keys) results;
            invalid = map nr_node_id (filter (\<lambda>r. \<not> counts_vote C public_keys r) results)
        in if verified = [] then
             make_consensus_result None [] [] (map nr_node_id results) invalid threshold
           else
             let votes = count_votes (map nr_state_hash verified);
                 agreed = select_winner votes;
                 honest = map nr_node_id (filter (\<lambda>r. nr_state_hash r = agreed) verified);
                 hash_faulty = map nr_node_id (filter (\<lambda>r. nr_state_hash r \<noteq> agreed) verified)
             in make_consensus_result (Some agreed) votes honest (hash_faulty @ invalid) invalid threshold)"

subsection \<open>Counting votes\<close>

text \<open>The specification of the count: how many of the results that count report a hash.\<close>

definition votes_for :: "('sk, 'pk) crypto \<Rightarrow> 'pk dict option \<Rightarrow> node_result list \<Rightarrow> string \<Rightarrow> nat" where
  "votes_for C pks rs h = count_list (map nr_state_hash (filter (counts_vote C pks) rs)) h"

definition voters :: "('sk, 'pk) crypto \<Rightarrow> 'pk dict option \<Rightarrow> node_result list \<Rightarrow> nat" where
  "voters C pks rs = length (filter (counts_vote C pks) rs)"

lemma count_votes_snoc:
  "count_votes (hs @ [h]) = dset h (dget_or (count_votes hs) h 0 + 1) (count_votes hs)"
  by (simp add: count_votes_def)

lemma count_votes_Nil [simp]: "count_votes [] = []"
  by (simp add: count_votes_def)

lemma wf_count_votes [simp]: "wf_dict (count_votes hs)"
  by (induction hs rule: rev_induct) (auto simp: count_votes_snoc)

lemma dget_count_votes:
  "dget (count_votes hs) h = (if h \<in> set hs then Some (int (count_list hs h)) else None)"
  by (induction hs rule: rev_induct) (auto simp: count_votes_snoc dget_or_def)

lemma dget_or_count_votes [simp]: "dget_or (count_votes hs) h 0 = int (count_list hs h)"
  by (simp add: dget_or_def dget_count_votes count_notin)

lemma dkeys_count_votes [simp]: "fst ` set (count_votes hs) = set hs"
  by (induction hs rule: rev_induct) (auto simp: count_votes_snoc)

lemma dsum_count_votes [simp]: "dsum (count_votes hs) = int (length hs)"
  by (induction hs rule: rev_induct) (simp_all add: count_votes_snoc dsum_dset)

lemma count_votes_items: "(h, v) \<in> set (count_votes hs) \<longleftrightarrow> h \<in> set hs \<and> v = int (count_list hs h)"
  by (simp flip: map_of_eq_Some_iff [OF wf_count_votes] add: dget_count_votes) auto

lemma set_count_votes: "set (count_votes hs) = (\<lambda>h. (h, int (count_list hs h))) ` set hs"
  using count_votes_items by fastforce

text \<open>The winner has most votes, and is the least hash that has.\<close>

definition plurality :: "string list \<Rightarrow> string \<Rightarrow> bool" where
  "plurality hs h \<longleftrightarrow> h \<in> set hs
     \<and> (\<forall>x\<in>set hs. count_list hs x \<le> count_list hs h \<and> (count_list hs x = count_list hs h \<longrightarrow> h \<le> x))"

lemma plurality_unique: "plurality hs h \<Longrightarrow> plurality hs h' \<Longrightarrow> h = h'"
  unfolding plurality_def by (meson antisym)

lemma select_winner_plurality:
  assumes "hs \<noteq> []"
  shows "plurality hs (select_winner (count_votes hs))"
proof -
  let ?c = "\<lambda>h. int (count_list hs h)" and ?V = "set (dvalues (count_votes hs))"
  let ?C = "set (map fst (filter (\<lambda>hv. snd hv = Max ?V) (count_votes hs)))"
  have V: "?V = ?c ` set hs" by (force simp: set_count_votes)
  have fin: "finite ?V" "?V \<noteq> {}" using assms V by simp_all
  have C: "?C = {h \<in> set hs. ?c h = Max ?V}"
    by (auto simp: image_iff count_votes_items)
  obtain m where m: "m \<in> set hs" "?c m = Max ?V" using Max_in [OF fin] V by auto
  then have "?C \<noteq> {}" unfolding C by blast
  then have "Min ?C \<in> ?C" by (intro Min_in) auto
  then have w: "select_winner (count_votes hs) \<in> {h \<in> set hs. ?c h = Max ?V}"
    unfolding select_winner_def Let_def C .
  have le: "?c x \<le> Max ?V" if "x \<in> set hs" for x using that fin V by (intro Max_ge) auto
  have lo: "select_winner (count_votes hs) \<le> x" if "x \<in> set hs" "?c x = Max ?V" for x
    unfolding select_winner_def Let_def by (rule Min_le) (use that C in auto)
  let ?w = "select_winner (count_votes hs)"
  have "count_list hs x \<le> count_list hs ?w" if "x \<in> set hs" for x
    using le [OF that] w by (simp flip: of_nat_le_iff)
  moreover have "?w \<le> x" if "x \<in> set hs" "count_list hs x = count_list hs ?w" for x
    using lo [OF that(1)] w that(2) by simp
  ultimately show ?thesis using w by (simp add: plurality_def)
qed

lemma select_winner_iff: "hs \<noteq> [] \<Longrightarrow> select_winner (count_votes hs) = h \<longleftrightarrow> plurality hs h"
  using select_winner_plurality plurality_unique by metis

lemma count_list_count: "count_list hs h = count (mset hs) h"
  by (induction hs) auto

lemma count_list_mset: "mset hs = mset hs' \<Longrightarrow> count_list hs h = count_list hs' h"
  by (simp add: count_list_count)

lemma plurality_mset: "mset hs = mset hs' \<Longrightarrow> plurality hs = plurality hs'"
proof (rule ext)
  fix h
  assume eq: "mset hs = mset hs'"
  show "plurality hs h = plurality hs' h"
    unfolding plurality_def mset_eq_setD [OF eq] count_list_count eq ..
qed

lemma plurality_majority:
  assumes "length hs < 2 * count_list hs h"
  shows "plurality hs h"
proof -
  have "h \<in> set hs" using assms by (metis count_notin mult_0_right not_less0)
  moreover have "count_list hs x < count_list hs h" if "x \<noteq> h" for x
  proof -
    have "count_list hs x + count_list hs h \<le> length hs"
      using that by (induction hs) auto
    then show ?thesis using assms by simp
  qed
  ultimately show ?thesis unfolding plurality_def by (metis le_less order_refl less_irrefl)
qed

subsection \<open>The result of a round\<close>

lemma counts_vote_dom [simp]: "counts_vote C None r" "counts_vote C (Some []) r"
  by (simp_all add: counts_vote_def)

text \<open>The hashes that are counted.\<close>

definition counted :: "('sk, 'pk) crypto \<Rightarrow> 'pk dict option \<Rightarrow> node_result list \<Rightarrow> string list" where
  "counted C pks rs = map nr_state_hash (filter (counts_vote C pks) rs)"

lemma counted_Nil_iff: "counted C pks rs = [] \<longleftrightarrow> (\<forall>r\<in>set rs. \<not> counts_vote C pks r)"
  by (simp add: counted_def filter_empty_conv)

lemma run_consensus_none:
  "counted C pks rs = [] \<Longrightarrow> run_consensus C rs pks t =
     make_consensus_result None [] [] (map nr_node_id rs)
       (map nr_node_id (filter (\<lambda>r. \<not> counts_vote C pks r) rs)) t"
  by (simp add: run_consensus_def Let_def counted_def)

lemma run_consensus_some:
  "counted C pks rs \<noteq> [] \<Longrightarrow> run_consensus C rs pks t =
     (let w = select_winner (count_votes (counted C pks rs));
          invalid = map nr_node_id (filter (\<lambda>r. \<not> counts_vote C pks r) rs)
      in make_consensus_result (Some w) (count_votes (counted C pks rs))
        (map nr_node_id (filter (\<lambda>r. counts_vote C pks r \<and> nr_state_hash r = w) rs))
        (map nr_node_id (filter (\<lambda>r. counts_vote C pks r \<and> nr_state_hash r \<noteq> w) rs) @ invalid)
        invalid t)"
  by (auto simp: run_consensus_def Let_def counted_def conj_commute)

lemma consensus_agreed_iff:
  "cr_agreed_hash (run_consensus C rs pks t) = Some h \<longleftrightarrow> plurality (counted C pks rs) h"
proof (cases "counted C pks rs = []")
  case True
  then show ?thesis by (simp add: run_consensus_none make_consensus_result_def Let_def plurality_def)
next
  case False
  then show ?thesis
    by (simp add: run_consensus_some make_consensus_result_def Let_def select_winner_iff)
qed

lemma consensus_agreed_None_iff:
  "cr_agreed_hash (run_consensus C rs pks t) = None \<longleftrightarrow> counted C pks rs = []"
  by (cases "counted C pks rs = []")
     (simp_all add: run_consensus_none run_consensus_some make_consensus_result_def Let_def)

lemma consensus_reached_iff:
  "cr_consensus_reached (run_consensus C rs pks t) \<longleftrightarrow>
     (\<exists>h. plurality (counted C pks rs) h
        \<and> t * rat_of_nat (length (counted C pks rs)) \<le> rat_of_nat (count_list (counted C pks rs) h))"
proof (cases "counted C pks rs = []")
  case True
  then show ?thesis by (simp add: run_consensus_none make_consensus_result_def Let_def plurality_def)
next
  case False
  then show ?thesis
    using select_winner_plurality [OF False] plurality_unique
    by (auto simp: run_consensus_some make_consensus_result_def Let_def pos_le_divide_eq)
qed

lemma consensus_honest_iff:
  "cr_honest_nodes (run_consensus C rs pks t) =
     map nr_node_id (filter (\<lambda>r. counts_vote C pks r
       \<and> cr_agreed_hash (run_consensus C rs pks t) = Some (nr_state_hash r)) rs)"
proof (cases "counted C pks rs = []")
  case True
  then show ?thesis by (simp add: run_consensus_none make_consensus_result_def Let_def)
next
  case False
  then show ?thesis
    by (simp add: run_consensus_some make_consensus_result_def Let_def
        eq_commute [of "select_winner (count_votes (counted C pks rs))"])
qed

lemma consensus_faulty_set:
  "n \<in> set (cr_faulty_nodes (run_consensus C rs pks t)) \<longleftrightarrow>
     (\<exists>r\<in>set rs. nr_node_id r = n \<and> \<not> (counts_vote C pks r
        \<and> cr_agreed_hash (run_consensus C rs pks t) = Some (nr_state_hash r)))"
proof (cases "counted C pks rs = []")
  case True
  then show ?thesis by (auto simp: run_consensus_none make_consensus_result_def Let_def)
next
  case False
  then show ?thesis
    by (auto simp: run_consensus_some make_consensus_result_def Let_def)
qed

lemma mset_filter_split3:
  "mset (map f (filter P xs)) + mset (map f (filter (\<lambda>x. \<not> P x) xs)) = mset (map f xs)"
  by (induction xs) auto

lemma mset_filter_split4:
  "mset (map f (filter (\<lambda>x. P x \<and> Q x) xs)) + mset (map f (filter (\<lambda>x. P x \<and> \<not> Q x) xs))
    + mset (map f (filter (\<lambda>x. \<not> P x) xs)) = mset (map f xs)"
  by (induction xs) auto

lemma consensus_partition:
  "mset (cr_honest_nodes (run_consensus C rs pks t)) + mset (cr_faulty_nodes (run_consensus C rs pks t))
     = mset (map nr_node_id rs)"
proof (cases "counted C pks rs = []")
  case True
  then show ?thesis by (simp add: run_consensus_none make_consensus_result_def Let_def)
next
  case False
  then show ?thesis
    using mset_filter_split4 [of nr_node_id "counts_vote C pks"
      "\<lambda>r. nr_state_hash r = select_winner (count_votes (counted C pks rs))" rs]
    by (simp add: run_consensus_some make_consensus_result_def Let_def add.assoc)
qed

subsection \<open>What a round guarantees\<close>

lemma counted_mset: "mset rs = mset rs' \<Longrightarrow> mset (counted C pks rs) = mset (counted C pks rs')"
  by (simp add: counted_def)

lemma consensus_agreed_cong:
  assumes "plurality (counted C pks rs) = plurality (counted C pks rs')"
  shows "cr_agreed_hash (run_consensus C rs pks t) = cr_agreed_hash (run_consensus C rs' pks t)"
proof (rule option.expand)
  have iff: "cr_agreed_hash (run_consensus C rs pks t) = Some h
      \<longleftrightarrow> cr_agreed_hash (run_consensus C rs' pks t) = Some h" for h
    by (simp add: consensus_agreed_iff assms)
  then show "(cr_agreed_hash (run_consensus C rs pks t) = None)
      = (cr_agreed_hash (run_consensus C rs' pks t) = None)"
    by (metis not_None_eq)
  show "the (cr_agreed_hash (run_consensus C rs pks t)) = the (cr_agreed_hash (run_consensus C rs' pks t))"
    using iff by (metis not_None_eq option.sel)
qed

lemma consensus_votes:
  "dget (cr_vote_counts (run_consensus C rs pks t)) h =
     (if h \<in> set (counted C pks rs) then Some (int (count_list (counted C pks rs) h)) else None)"
  by (cases "counted C pks rs = []")
     (simp_all add: run_consensus_none run_consensus_some make_consensus_result_def Let_def dget_count_votes)

text \<open>C8. The specification of a round. The agreed hash is the least of the hashes that most of
  the results that count report; the quorum is reached when its share of them is at least the
  threshold; the nodes that reported it with a valid signature are the honest ones, all other
  responders are faulty.\<close>

theorem run_consensus_spec:
  "(cr_agreed_hash (run_consensus C rs pks t) = Some h \<longleftrightarrow> plurality (counted C pks rs) h)
   \<and> (cr_agreed_hash (run_consensus C rs pks t) = None \<longleftrightarrow> counted C pks rs = [])
   \<and> (cr_consensus_reached (run_consensus C rs pks t) \<longleftrightarrow>
        (\<exists>h. plurality (counted C pks rs) h
           \<and> t * rat_of_nat (length (counted C pks rs)) \<le> rat_of_nat (count_list (counted C pks rs) h)))
   \<and> cr_honest_nodes (run_consensus C rs pks t) =
        map nr_node_id (filter (\<lambda>r. counts_vote C pks r
          \<and> cr_agreed_hash (run_consensus C rs pks t) = Some (nr_state_hash r)) rs)
   \<and> mset (cr_honest_nodes (run_consensus C rs pks t)) + mset (cr_faulty_nodes (run_consensus C rs pks t))
        = mset (map nr_node_id rs)"
  by (intro conjI consensus_agreed_iff consensus_agreed_None_iff consensus_reached_iff
    consensus_honest_iff consensus_partition)

text \<open>The outcome of a round does not depend on the order in which the responses arrived.\<close>

lemma run_consensus_order:
  assumes "mset rs = mset rs'"
  shows "cr_agreed_hash (run_consensus C rs pks t) = cr_agreed_hash (run_consensus C rs' pks t)
    \<and> cr_consensus_reached (run_consensus C rs pks t) = cr_consensus_reached (run_consensus C rs' pks t)
    \<and> dget (cr_vote_counts (run_consensus C rs pks t)) = dget (cr_vote_counts (run_consensus C rs' pks t))
    \<and> mset (cr_honest_nodes (run_consensus C rs pks t)) = mset (cr_honest_nodes (run_consensus C rs' pks t))
    \<and> mset (cr_faulty_nodes (run_consensus C rs pks t)) = mset (cr_faulty_nodes (run_consensus C rs' pks t))"
proof -
  have c: "mset (counted C pks rs) = mset (counted C pks rs')" by (rule counted_mset [OF assms])
  then have p: "plurality (counted C pks rs) = plurality (counted C pks rs')" by (rule plurality_mset)
  note ag = consensus_agreed_cong [OF p, of t]
  have r: "cr_consensus_reached (run_consensus C rs pks t) = cr_consensus_reached (run_consensus C rs' pks t)"
    unfolding consensus_reached_iff p count_list_count c mset_eq_length [OF c] ..
  have v: "dget (cr_vote_counts (run_consensus C rs pks t)) = dget (cr_vote_counts (run_consensus C rs' pks t))"
    by (rule ext) (unfold consensus_votes count_list_count c mset_eq_setD [OF c], rule refl)
  have h: "mset (cr_honest_nodes (run_consensus C rs pks t)) = mset (cr_honest_nodes (run_consensus C rs' pks t))"
    unfolding consensus_honest_iff [of C rs] consensus_honest_iff [of C rs'] ag by (simp add: assms)
  have "mset (cr_faulty_nodes (run_consensus C rs pks t)) = mset (cr_faulty_nodes (run_consensus C rs' pks t))"
    using consensus_partition [of C rs pks t] consensus_partition [of C rs' pks t] h assms
    by (metis add_left_cancel mset_map)
  with ag r v h show ?thesis by blast
qed

text \<open>
  What a vote needs, down to the operations of the signature library: a registered key for the node it
  names and a signature, hexadecimal text of bytes that verify under that key, for the digest of that
  node's id and that hash.
\<close>

definition authentic :: "('sk, 'pk) crypto \<Rightarrow> 'pk dict \<Rightarrow> node_result \<Rightarrow> bool" where
  "authentic C keys r \<longleftrightarrow> (\<exists>pk sg raw. dget keys (nr_node_id r) = Some pk \<and> nr_signature r = Some sg
     \<and> hex_decode sg = Some raw
     \<and> c_verify C pk raw (c_digest C (utf8 (nr_node_id r @ '':'' @ nr_state_hash r))))"

lemma counts_vote_authentic: "keys \<noteq> [] \<Longrightarrow> counts_vote C (Some keys) r \<longleftrightarrow> authentic C keys r"
  by (auto simp: counts_vote_def result_verified_def verify_result_def build_message_def authentic_def simp del: utf8_simps
      split: option.splits)

lemma invalid_signature_nodes:
  "cr_invalid_sig_nodes (run_consensus C rs pks t) = map nr_node_id (filter (\<lambda>r. \<not> counts_vote C pks r) rs)"
  by (cases "counted C pks rs = []")
    (simp_all add: run_consensus_none run_consensus_some make_consensus_result_def counted_Nil_iff Let_def)

lemma length_filter_counted:
  "count_list (counted C pks rs) h = length (filter (\<lambda>r. counts_vote C pks r \<and> nr_state_hash r = h) rs)"
  by (induction rs) (auto simp: counted_def)

text \<open>C10. Results without a valid signature have no influence: when the keys of the nodes are known, add any
  number of results, anywhere among the others, each of which names a node without a registered key,
  or has no signature, or one that is not hexadecimal text, or one that does not verify under the key
  of that node for that node's id and hash. The agreed hash, the quorum, the votes and the honest nodes
  are those of the round without them, and the lists of faulty nodes and of nodes with an invalid
  signature get just the nodes these results name, once for each. And the votes of a hash are exactly
  the results that report it with a signature that verifies.\<close>

theorem run_consensus_forgery:
  assumes "keys \<noteq> []" and "mset rs' = mset (rs @ forged)" and "\<forall>r\<in>set forged. \<not> authentic C keys r"
  shows "let before = run_consensus C rs (Some keys) t; after = run_consensus C rs' (Some keys) t in
    cr_agreed_hash after = cr_agreed_hash before
    \<and> cr_consensus_reached after = cr_consensus_reached before
    \<and> dget (cr_vote_counts after) = dget (cr_vote_counts before)
    \<and> mset (cr_honest_nodes after) = mset (cr_honest_nodes before)
    \<and> mset (cr_faulty_nodes after) = mset (cr_faulty_nodes before) + mset (map nr_node_id forged)
    \<and> mset (cr_invalid_sig_nodes after) = mset (cr_invalid_sig_nodes before) + mset (map nr_node_id forged)
    \<and> (\<forall>h. dget_or (cr_vote_counts after) h 0
          = int (length (filter (\<lambda>r. authentic C keys r \<and> nr_state_hash r = h) rs')))"
proof -
  let ?R = "\<lambda>rs. run_consensus C rs (Some keys) t"
  have bad: "\<forall>r\<in>set forged. \<not> counts_vote C (Some keys) r" using assms(1,3) by (simp add: counts_vote_authentic)
  then have none: "filter (\<lambda>r. counts_vote C (Some keys) r \<and> P r) forged = []" "filter (counts_vote C (Some keys)) forged = []"
      "filter (\<lambda>r. \<not> counts_vote C (Some keys) r) forged = forged" for P
    by (simp_all add: filter_empty_conv)
  have c: "counted C (Some keys) (rs @ forged) = counted C (Some keys) rs" by (simp add: counted_def none)
  note ag = consensus_agreed_cong [of C "Some keys" "rs @ forged" rs t, unfolded c, OF refl]
  have reached: "cr_consensus_reached (?R (rs @ forged)) = cr_consensus_reached (?R rs)"
    unfolding consensus_reached_iff c ..
  have votes: "dget (cr_vote_counts (?R (rs @ forged))) = dget (cr_vote_counts (?R rs))"
    by (rule ext) (simp add: consensus_votes c)
  have honest: "cr_honest_nodes (?R (rs @ forged)) = cr_honest_nodes (?R rs)"
    unfolding consensus_honest_iff [of C "rs @ forged"] consensus_honest_iff [of C rs] ag by (simp add: none)
  have faulty: "mset (cr_faulty_nodes (?R (rs @ forged))) = mset (cr_faulty_nodes (?R rs)) + mset (map nr_node_id forged)"
    using consensus_partition [of C "rs @ forged" "Some keys" t] consensus_partition [of C rs "Some keys" t]
    unfolding honest by (metis add.assoc add_left_cancel map_append mset_append)
  have invalid: "mset (cr_invalid_sig_nodes (?R rs')) = mset (cr_invalid_sig_nodes (?R rs)) + mset (map nr_node_id forged)"
  proof -
    have "mset (filter Q rs') = mset (filter Q (rs @ forged))" for Q using assms(2) by (metis mset_filter)
    then show ?thesis by (simp add: invalid_signature_nodes none del: mset_filter)
  qed
  have each: "dget_or (cr_vote_counts (?R rs')) h 0
      = int (length (filter (\<lambda>r. authentic C keys r \<and> nr_state_hash r = h) rs'))" for h
    using length_filter_counted [of C "Some keys" rs' h] assms(1)
    by (auto simp: dget_or_def consensus_votes counts_vote_authentic count_notin)
  show ?thesis
    using run_consensus_order [OF assms(2), of C "Some keys" t] ag reached votes honest faulty invalid each
    by (simp add: Let_def)
qed

text \<open>C9. A threshold above one half makes the decision safe and tolerates dissent: a round reaches its
  quorum on \<open>h\<close> exactly when at most the fraction \<open>1 - t\<close> of the results that count report
  something else than \<open>h\<close>.\<close>

theorem run_consensus_tolerance:
  assumes "1 / 2 < t" and "counted C pks rs \<noteq> []"
  shows "(rat_of_nat (length (filter (\<lambda>x. x \<noteq> h) (counted C pks rs)))
            \<le> (1 - t) * rat_of_nat (length (counted C pks rs)))
      = (cr_consensus_reached (run_consensus C rs pks t)
            \<and> cr_agreed_hash (run_consensus C rs pks t) = Some h)"
proof -
  let ?cs = "counted C pks rs"
  have len: "length (filter (\<lambda>x. x \<noteq> h) xs) + count_list xs h = length xs" for xs
    by (induction xs) auto
  have n: "rat_of_nat (length (filter (\<lambda>x. x \<noteq> h) ?cs)) = rat_of_nat (length ?cs) - rat_of_nat (count_list ?cs h)"
    using len [of ?cs] by (simp add: algebra_simps flip: of_nat_add)
  have iff: "rat_of_nat (length (filter (\<lambda>x. x \<noteq> h) ?cs)) \<le> (1 - t) * rat_of_nat (length ?cs)
      \<longleftrightarrow> t * rat_of_nat (length ?cs) \<le> rat_of_nat (count_list ?cs h)"
    unfolding n by (simp add: algebra_simps)
  have pl: "plurality ?cs h" if "t * rat_of_nat (length ?cs) \<le> rat_of_nat (count_list ?cs h)"
  proof (rule plurality_majority)
    have "rat_of_nat (length ?cs) < 2 * (t * rat_of_nat (length ?cs))" using assms by simp
    then have "rat_of_nat (length ?cs) < rat_of_nat (2 * count_list ?cs h)" using that by simp
    then show "length ?cs < 2 * count_list ?cs h" by (simp only: of_nat_less_iff)
  qed
  show ?thesis
    unfolding iff consensus_agreed_iff consensus_reached_iff using pl plurality_unique by blast
qed

text \<open>Votes for the witnesses: every node signs with its id.\<close>

definition example_vote :: "string \<Rightarrow> string \<Rightarrow> node_result" where
  "example_vote n h = \<lparr>nr_node_id = n, nr_state_hash = h, nr_result_state = None, nr_trace_entry = None,
     nr_signature = Some (sign_result example_crypto n h n)\<rparr>"

lemma run_consensus_order_example:
  "cr_agreed_hash (run_consensus example_crypto [example_vote ''N1'' ''a'', example_vote ''N2'' ''b''] None (1 / 2))
   = cr_agreed_hash (run_consensus example_crypto [example_vote ''N2'' ''b'', example_vote ''N1'' ''a''] None (1 / 2))"
proof -
  have "mset [example_vote ''N1'' ''a'', example_vote ''N2'' ''b''] = mset [example_vote ''N2'' ''b'', example_vote ''N1'' ''a'']"
    by simp
  from run_consensus_order [OF this, of example_crypto None "1 / 2"] show ?thesis by blast
qed

theorem run_consensus_forgery_witness:
  "cr_agreed_hash (run_consensus example_crypto [example_vote ''N2'' ''b'', (example_vote ''N1'' ''a'')\<lparr>nr_node_id := ''N3''\<rparr>,
      (example_vote ''N1'' ''a'')\<lparr>nr_signature := None\<rparr>, example_vote ''N4'' ''c''] (Some [(''N2'', ''N2''), (''N1'', ''N1''), (''N3'', ''N3'')]) (1 / 2))
   = cr_agreed_hash (run_consensus example_crypto [example_vote ''N2'' ''b''] (Some [(''N2'', ''N2''), (''N1'', ''N1''), (''N3'', ''N3'')]) (1 / 2))"
proof -
  let ?keys = "[(''N2'', ''N2''), (''N1'', ''N1''), (''N3'', ''N3'')]"
  let ?forged = "[(example_vote ''N1'' ''a'')\<lparr>nr_node_id := ''N3''\<rparr>, (example_vote ''N1'' ''a'')\<lparr>nr_signature := None\<rparr>, example_vote ''N4'' ''c'']"
  have "\<not> authentic example_crypto ?keys r" if "r \<in> set ?forged" for r
    using that by (auto simp: authentic_def example_vote_def example_crypto_def sign_result_def build_message_def)
  then have "\<forall>r\<in>set ?forged. \<not> authentic example_crypto ?keys r" by blast
  from run_consensus_forgery [OF _ _ this, of "example_vote ''N2'' ''b'' # ?forged" "[example_vote ''N2'' ''b'']" "1 / 2"]
  show ?thesis by (simp add: Let_def)
qed

theorem run_consensus_tolerance_witness:
  "cr_consensus_reached (run_consensus example_crypto
      [example_vote ''N1'' ''a'', example_vote ''N2'' ''b'', example_vote ''N3'' ''a''] None (51 / 100))
   \<and> cr_agreed_hash (run_consensus example_crypto
      [example_vote ''N1'' ''a'', example_vote ''N2'' ''b'', example_vote ''N3'' ''a''] None (51 / 100)) = Some ''a''"
  using run_consensus_tolerance [of "51 / 100" example_crypto None
      "[example_vote ''N1'' ''a'', example_vote ''N2'' ''b'', example_vote ''N3'' ''a'']" "''a''"]
  by (simp add: counted_def example_vote_def)

end
