(* ===== verification/Persistence.thy ===== *)
theory Persistence
  imports Json Complex_Main
begin

section \<open>The SQLite stores\<close>

text \<open>
  \<open>ecn/persistence.py\<close>. A table is the list of its rows in \<open>rowid\<close> order, a database an
  optional table for each store (\<open>None\<close>: not created yet), so that opening a database again,
  as a restarted process does, is an operation of the model. A column holding
  \<open>json.dumps\<close> of a value holds the value: by \<open>json_dumps_unique\<close> the text determines it.
  A statement that raises leaves the table as it was (each is its own transaction), so errors
  of SQLite itself are not modelled. The clock of \<open>append_entry\<close> is an argument.

  The contracts of the abstract store classes are the locales \<open>audit_store\<close>, \<open>key_store\<close>,
  \<open>counter_store\<close>, \<open>ledger_store\<close> and \<open>tx_store\<close>, over records of a store's operations;
  the clients (audit log, key registry, billing tracker, lifecycle) rest on them, and the SQLite
  stores are interpretations.
\<close>

subsection \<open>Reading stored JSON\<close>

definition json_field :: "string \<Rightarrow> json \<Rightarrow> json option" where
  "json_field k j = (case j of JObj kvs \<Rightarrow> dget kvs k | _ \<Rightarrow> None)"

definition json_opt_str :: "string option \<Rightarrow> json" where
  "json_opt_str v = (case v of None \<Rightarrow> JNull | Some s \<Rightarrow> JStr s)"

text \<open>
  A missing key raises \<open>KeyError\<close>. The code does not check the types of the values it reads;
  what the program stored has the types it wrote, any other is \<open>WrongType\<close>.
\<close>

datatype load_error = MissingKey string | WrongType string

definition field :: "string \<Rightarrow> json \<Rightarrow> load_error + json" where
  "field k j = (case json_field k j of None \<Rightarrow> Inl (MissingKey k) | Some v \<Rightarrow> Inr v)"

definition field_or :: "string \<Rightarrow> json \<Rightarrow> json \<Rightarrow> json" where
  "field_or k dflt j = (case json_field k j of None \<Rightarrow> dflt | Some v \<Rightarrow> v)"

fun as_str :: "string \<Rightarrow> json \<Rightarrow> load_error + string" where
  "as_str k (JStr s) = Inr s"
| "as_str k _ = Inl (WrongType k)"

fun as_opt_str :: "string \<Rightarrow> json \<Rightarrow> load_error + string option" where
  "as_opt_str k JNull = Inr None"
| "as_opt_str k (JStr s) = Inr (Some s)"
| "as_opt_str k _ = Inl (WrongType k)"

fun as_int :: "string \<Rightarrow> json \<Rightarrow> load_error + int" where
  "as_int k (JInt i) = Inr i"
| "as_int k _ = Inl (WrongType k)"

fun as_bool :: "string \<Rightarrow> json \<Rightarrow> load_error + bool" where
  "as_bool k (JBool b) = Inr b"
| "as_bool k _ = Inl (WrongType k)"

fun as_list :: "(json \<Rightarrow> load_error + 'a) \<Rightarrow> string \<Rightarrow> json \<Rightarrow> load_error + 'a list" where
  "as_list f k (JList js) = mapE f js"
| "as_list f k _ = Inl (WrongType k)"

lemma as_opt_str_json [simp]: "as_opt_str k (json_opt_str v) = Inr v"
  by (simp add: json_opt_str_def split: option.split)

lemma mapE_strs [simp]: "mapE (as_str k) (map JStr xs) = Inr xs"
  using mapE_map [of xs "as_str k" JStr id] by simp

subsection \<open>The contracts\<close>

record 's audit_ops =
  ao_append :: "json \<Rightarrow> string \<Rightarrow> 's \<Rightarrow> 's"
  ao_load_all :: "string \<Rightarrow> 's \<Rightarrow> json list"

record 's key_ops =
  ko_save_key :: "string \<Rightarrow> json \<Rightarrow> 's \<Rightarrow> 's"
  ko_delete_key :: "string \<Rightarrow> 's \<Rightarrow> 's"
  ko_load_all :: "'s \<Rightarrow> json list"

record 's counter_ops =
  co_increment :: "string \<Rightarrow> string \<Rightarrow> 's \<Rightarrow> 's"
  co_get_count :: "string \<Rightarrow> string \<Rightarrow> 's \<Rightarrow> int"
  co_get_all_periods :: "string \<Rightarrow> 's \<Rightarrow> (string \<times> int) list"

record ledger_entry =
  le_ledger_id :: nat
  le_tx_id :: string
  le_tenant_id :: string
  le_period :: string
  le_node_round_count :: int
  le_billed_amount :: rat
  le_consensus_reached :: bool
  le_recorded_at :: int

record 's ledger_ops =
  lo_append_entry :: "string \<Rightarrow> string \<Rightarrow> string \<Rightarrow> int \<Rightarrow> rat \<Rightarrow> bool \<Rightarrow> int \<Rightarrow> 's \<Rightarrow> 's"
  lo_load_entries :: "string \<Rightarrow> 's \<Rightarrow> ledger_entry list"

text \<open>The columns of \<open>transactions\<close>, and the dict \<open>save\<close> is given and \<open>load\<close> returns.\<close>

record tx_row =
  tr_tx_id :: string
  tr_tenant_id :: string
  tr_state :: string
  tr_consensus_reached :: bool
  tr_node_count :: int
  tr_fault_count :: int
  tr_duration_ms :: int
  tr_billed_amount :: rat
  tr_created_at :: int
  tr_finalized_at :: "int option"

record 's tx_ops =
  to_save :: "tx_row \<Rightarrow> 's \<Rightarrow> 's"
  to_load :: "string \<Rightarrow> 's \<Rightarrow> tx_row option"
  to_load_all :: "string \<Rightarrow> 's \<Rightarrow> tx_row list"

locale audit_store =
  fixes S :: "'s audit_ops" and empty :: 's and ok :: "'s \<Rightarrow> bool"
  assumes inv_empty: "ok empty"
    and inv_append: "ok s \<Longrightarrow> ok (ao_append S e t s)"
    and load_empty: "ao_load_all S t empty = []"
    and load_append: "ok s \<Longrightarrow>
      ao_load_all S t (ao_append S e t' s) = ao_load_all S t s @ (if t = t' then [e] else [])"
begin

definition append_all :: "(json \<times> string) list \<Rightarrow> 's \<Rightarrow> 's" where
  "append_all es s = foldl (\<lambda>s (e, t). ao_append S e t s) s es"

lemma load_append_all:
  "ok s \<Longrightarrow> ao_load_all S t (append_all es s) = ao_load_all S t s @ map fst (filter (\<lambda>e. snd e = t) es)"
  unfolding append_all_def by (induction es arbitrary: s) (auto simp: load_append inv_append)

end

text \<open>A stored key is read back as the value of its key, \<open>kid\<close> extracting it.\<close>

locale key_store =
  fixes S :: "'s key_ops" and empty :: 's and kid :: "json \<Rightarrow> string option" and ok :: "'s \<Rightarrow> bool"
  assumes inv_empty: "ok empty"
    and inv_save: "ok s \<Longrightarrow> kid d = Some k \<Longrightarrow> ok (ko_save_key S k d s)"
    and inv_delete: "ok s \<Longrightarrow> ok (ko_delete_key S k s)"
    and load_empty: "ko_load_all S empty = []"
    and load_save: "ok s \<Longrightarrow> kid d = Some k \<Longrightarrow>
      e \<in> set (ko_load_all S (ko_save_key S k d s)) \<longleftrightarrow> e = d \<or> (e \<in> set (ko_load_all S s) \<and> kid e \<noteq> Some k)"
    and load_delete: "ok s \<Longrightarrow>
      e \<in> set (ko_load_all S (ko_delete_key S k s)) \<longleftrightarrow> e \<in> set (ko_load_all S s) \<and> kid e \<noteq> Some k"

locale counter_store =
  fixes S :: "'s counter_ops" and empty :: 's
  assumes get_empty: "co_get_count S t p empty = 0"
    and get_increment: "co_get_count S t p (co_increment S t' p' s)
      = co_get_count S t p s + (if t = t' \<and> p = p' then 1 else 0)"
begin

lemma get_increments:
  "co_get_count S t p (foldl (\<lambda>s (t, p). co_increment S t p s) s tps)
     = co_get_count S t p s + int (count_list tps (t, p))"
  by (induction tps arbitrary: s) (auto simp: get_increment split: if_splits)

end

text \<open>The ledger only grows: an append keeps the entries there were and adds one.\<close>

locale ledger_store =
  fixes S :: "'s ledger_ops" and empty :: 's and ok :: "'s \<Rightarrow> bool"
  assumes inv_empty: "ok empty"
    and inv_append: "ok s \<Longrightarrow> ok (lo_append_entry S x t p n a r now s)"
    and entries_empty: "lo_load_entries S t empty = []"
    and entries_append: "ok s \<Longrightarrow> \<exists>i. lo_load_entries S t (lo_append_entry S x t' p n a r now s)
      = lo_load_entries S t s @ (if t = t' then
          [\<lparr>le_ledger_id = i, le_tx_id = x, le_tenant_id = t', le_period = p, le_node_round_count = n,
            le_billed_amount = a, le_consensus_reached = r, le_recorded_at = now\<rparr>] else [])"
begin

lemma entries_prefix:
  "ok s \<Longrightarrow> \<exists>ys. lo_load_entries S t (lo_append_entry S x t' p n a r now s) = lo_load_entries S t s @ ys"
  using entries_append by metis

end

locale tx_store =
  fixes S :: "'s tx_ops" and empty :: 's and ok :: "'s \<Rightarrow> bool"
  assumes inv_empty: "ok empty"
    and inv_save: "ok s \<Longrightarrow> ok (to_save S r s)"
    and load_empty: "to_load S x empty = None"
    and load_save: "ok s \<Longrightarrow> to_load S x (to_save S r s) =
      (if x = tr_tx_id r
       then Some (case to_load S x s of
               None \<Rightarrow> r
             | Some old \<Rightarrow> r\<lparr>tr_tenant_id := tr_tenant_id old, tr_created_at := tr_created_at old\<rparr>)
       else to_load S x s)"
begin

text \<open>A record that keeps tenant and creation time is read back as it was last saved.\<close>

lemma load_saved:
  assumes "ok s"
    and "\<And>old. to_load S (tr_tx_id r) s = Some old \<Longrightarrow>
      tr_tenant_id old = tr_tenant_id r \<and> tr_created_at old = tr_created_at r"
  shows "to_load S (tr_tx_id r) (to_save S r s) = Some r"
  using assms by (auto simp: load_save split: option.split)

lemma load_saves_other:
  "ok s \<Longrightarrow> \<forall>r\<in>set rs. tr_tx_id r \<noteq> x \<Longrightarrow>
    to_load S x (foldl (\<lambda>s r. to_save S r s) s rs) = to_load S x s
    \<and> ok (foldl (\<lambda>s r. to_save S r s) s rs)"
  by (induction rs arbitrary: s) (auto simp: load_save inv_save)

end

subsection \<open>The tables\<close>

text \<open>\<open>audit_events\<close>, with the counter of its \<open>AUTOINCREMENT\<close> key.\<close>

record audit_row =
  ar_id :: nat
  ar_tenant_id :: string
  ar_data :: json

record audit_table =
  at_rows :: "audit_row list"
  at_seq :: nat

definition audit_init_db :: "audit_table option \<Rightarrow> audit_table" where
  "audit_init_db tbl = (case tbl of None \<Rightarrow> \<lparr>at_rows = [], at_seq = 0\<rparr> | Some t \<Rightarrow> t)"

definition audit_append :: "json \<Rightarrow> string \<Rightarrow> audit_table \<Rightarrow> audit_table" where
  "audit_append event_dict tenant_id tbl =
     \<lparr>at_rows = at_rows tbl @ [\<lparr>ar_id = at_seq tbl + 1, ar_tenant_id = tenant_id, ar_data = event_dict\<rparr>],
      at_seq = at_seq tbl + 1\<rparr>"

definition audit_load_all :: "string \<Rightarrow> audit_table \<Rightarrow> json list" where
  "audit_load_all tenant_id tbl =
     map ar_data (sort_key ar_id (filter (\<lambda>r. ar_tenant_id r = tenant_id) (at_rows tbl)))"

text \<open>\<open>api_keys\<close>: \<open>INSERT OR REPLACE\<close> deletes the row with the key and adds a new one.\<close>

type_synonym key_table = "(string \<times> json) list"

definition key_init_db :: "key_table option \<Rightarrow> key_table" where
  "key_init_db tbl = (case tbl of None \<Rightarrow> [] | Some t \<Rightarrow> t)"

definition delete_key :: "string \<Rightarrow> key_table \<Rightarrow> key_table" where
  "delete_key key_id tbl = filter (\<lambda>r. fst r \<noteq> key_id) tbl"

definition save_key :: "string \<Rightarrow> json \<Rightarrow> key_table \<Rightarrow> key_table" where
  "save_key key_id key_dict tbl = filter (\<lambda>r. fst r \<noteq> key_id) tbl @ [(key_id, key_dict)]"

definition keys_load_all :: "key_table \<Rightarrow> json list" where
  "keys_load_all tbl = map snd tbl"

text \<open>\<open>billing_usage\<close>, keyed by tenant and period.\<close>

type_synonym usage_table = "((string \<times> string) \<times> int) list"

definition billing_init_db :: "usage_table option \<Rightarrow> usage_table" where
  "billing_init_db tbl = (case tbl of None \<Rightarrow> [] | Some t \<Rightarrow> t)"

definition billing_increment :: "string \<Rightarrow> string \<Rightarrow> usage_table \<Rightarrow> usage_table" where
  "billing_increment tenant_id period tbl =
     (case dget tbl (tenant_id, period) of
        None \<Rightarrow> tbl @ [((tenant_id, period), 1)]
      | Some round_count \<Rightarrow> dset (tenant_id, period) (round_count + 1) tbl)"

definition billing_get_count :: "string \<Rightarrow> string \<Rightarrow> usage_table \<Rightarrow> int" where
  "billing_get_count tenant_id period tbl =
     (case dget tbl (tenant_id, period) of None \<Rightarrow> 0 | Some n \<Rightarrow> n)"

definition billing_get_all_periods :: "string \<Rightarrow> usage_table \<Rightarrow> (string \<times> int) list" where
  "billing_get_all_periods tenant_id tbl =
     sort_key fst (map (\<lambda>r. (snd (fst r), snd r)) (filter (\<lambda>r. fst (fst r) = tenant_id) tbl))"

text \<open>\<open>billing_ledger\<close>: only \<open>INSERT\<close> and \<open>SELECT\<close>.\<close>

record ledger_table =
  lt_rows :: "ledger_entry list"
  lt_seq :: nat

definition ledger_init_db :: "ledger_table option \<Rightarrow> ledger_table" where
  "ledger_init_db tbl = (case tbl of None \<Rightarrow> \<lparr>lt_rows = [], lt_seq = 0\<rparr> | Some t \<Rightarrow> t)"

definition append_entry ::
  "string \<Rightarrow> string \<Rightarrow> string \<Rightarrow> int \<Rightarrow> rat \<Rightarrow> bool \<Rightarrow> int \<Rightarrow> ledger_table \<Rightarrow> ledger_table" where
  "append_entry tx_id tenant_id period node_round_count billed_amount consensus_reached now tbl =
     \<lparr>lt_rows = lt_rows tbl @
        [\<lparr>le_ledger_id = lt_seq tbl + 1, le_tx_id = tx_id, le_tenant_id = tenant_id, le_period = period,
          le_node_round_count = node_round_count, le_billed_amount = billed_amount,
          le_consensus_reached = consensus_reached, le_recorded_at = now\<rparr>],
      lt_seq = lt_seq tbl + 1\<rparr>"

definition load_entries :: "string \<Rightarrow> ledger_table \<Rightarrow> ledger_entry list" where
  "load_entries tenant_id tbl =
     sort_key le_ledger_id (filter (\<lambda>r. le_tenant_id r = tenant_id) (lt_rows tbl))"

text \<open>\<open>transactions\<close>: an upsert that keeps \<open>tenant_id\<close> and \<open>created_at\<close> of a row there is.\<close>

type_synonym tx_table = "tx_row list"

definition tx_init_db :: "tx_table option \<Rightarrow> tx_table" where
  "tx_init_db tbl = (case tbl of None \<Rightarrow> [] | Some t \<Rightarrow> t)"

fun tx_save :: "tx_row \<Rightarrow> tx_table \<Rightarrow> tx_table" where
  "tx_save r [] = [r]"
| "tx_save r (old # rows) =
     (if tr_tx_id old = tr_tx_id r
      then r\<lparr>tr_tenant_id := tr_tenant_id old, tr_created_at := tr_created_at old\<rparr> # rows
      else old # tx_save r rows)"

definition tx_load :: "string \<Rightarrow> tx_table \<Rightarrow> tx_row option" where
  "tx_load tx_id tbl = find (\<lambda>r. tr_tx_id r = tx_id) tbl"

definition tx_load_all :: "string \<Rightarrow> tx_table \<Rightarrow> tx_row list" where
  "tx_load_all tenant_id tbl = filter (\<lambda>r. tr_tenant_id r = tenant_id) tbl"

subsection \<open>The SQLite stores meet the contracts\<close>

definition sqlite_audit :: "audit_table audit_ops" where
  "sqlite_audit = \<lparr>ao_append = audit_append, ao_load_all = audit_load_all\<rparr>"

definition sqlite_keys :: "key_table key_ops" where
  "sqlite_keys = \<lparr>ko_save_key = save_key, ko_delete_key = delete_key, ko_load_all = keys_load_all\<rparr>"

definition sqlite_billing :: "usage_table counter_ops" where
  "sqlite_billing = \<lparr>co_increment = billing_increment, co_get_count = billing_get_count,
     co_get_all_periods = billing_get_all_periods\<rparr>"

definition sqlite_ledger :: "ledger_table ledger_ops" where
  "sqlite_ledger = \<lparr>lo_append_entry = append_entry, lo_load_entries = load_entries\<rparr>"

definition sqlite_tx :: "tx_table tx_ops" where
  "sqlite_tx = \<lparr>to_save = tx_save, to_load = tx_load, to_load_all = tx_load_all\<rparr>"

lemmas sqlite_ops = sqlite_audit_def sqlite_keys_def sqlite_billing_def sqlite_ledger_def sqlite_tx_def

text \<open>The ids of a table with \<open>AUTOINCREMENT\<close> increase in row order and stay below the counter.\<close>

definition ids_ok :: "nat list \<Rightarrow> nat \<Rightarrow> bool" where
  "ids_ok ids seq \<longleftrightarrow> sorted ids \<and> (\<forall>i\<in>set ids. i \<le> seq)"

lemma ids_ok_snoc: "ids_ok ids n \<Longrightarrow> ids_ok (ids @ [n + 1]) (n + 1)"
  by (auto simp: ids_ok_def sorted_append intro: le_SucI)

lemma sort_key_sorted_filter: "sorted (map f xs) \<Longrightarrow> sort_key f (filter P xs) = filter P xs"
  by (intro sort_key_id_if_sorted sorted_filter)

definition audit_table_inv :: "audit_table \<Rightarrow> bool" where
  "audit_table_inv t \<longleftrightarrow> ids_ok (map ar_id (at_rows t)) (at_seq t)"

definition ledger_table_inv :: "ledger_table \<Rightarrow> bool" where
  "ledger_table_inv t \<longleftrightarrow> ids_ok (map le_ledger_id (lt_rows t)) (lt_seq t)"

lemma audit_inv_append: "audit_table_inv t \<Longrightarrow> audit_table_inv (audit_append e tid t)"
  by (auto simp: audit_table_inv_def audit_append_def dest: ids_ok_snoc)

lemma ledger_inv_append: "ledger_table_inv t \<Longrightarrow> ledger_table_inv (append_entry x tid p n a r now t)"
  by (auto simp: ledger_table_inv_def append_entry_def dest: ids_ok_snoc)

lemma audit_load_rows:
  "audit_table_inv t \<Longrightarrow> audit_load_all tid t = map ar_data (filter (\<lambda>r. ar_tenant_id r = tid) (at_rows t))"
  by (simp add: audit_load_all_def audit_table_inv_def ids_ok_def sort_key_sorted_filter)

lemma ledger_load_rows:
  "ledger_table_inv t \<Longrightarrow> load_entries tid t = filter (\<lambda>r. le_tenant_id r = tid) (lt_rows t)"
  by (simp add: load_entries_def ledger_table_inv_def ids_ok_def sort_key_sorted_filter)

interpretation sqlite_audit: audit_store sqlite_audit "audit_init_db None" audit_table_inv
proof
  show "ao_load_all sqlite_audit t (ao_append sqlite_audit e t' s) =
      ao_load_all sqlite_audit t s @ (if t = t' then [e] else [])" if "audit_table_inv s" for s t e t'
    using audit_load_rows [OF audit_inv_append [OF that]] audit_load_rows [OF that]
    by (simp add: sqlite_audit_def) (simp add: audit_append_def)
qed (simp_all add: sqlite_audit_def audit_inv_append,
     simp_all add: audit_init_db_def audit_table_inv_def ids_ok_def audit_load_all_def)

interpretation sqlite_ledger: ledger_store sqlite_ledger "ledger_init_db None" ledger_table_inv
proof
  show "\<exists>i. lo_load_entries sqlite_ledger t (lo_append_entry sqlite_ledger x t' p n a r now s)
      = lo_load_entries sqlite_ledger t s @ (if t = t' then
          [\<lparr>le_ledger_id = i, le_tx_id = x, le_tenant_id = t', le_period = p, le_node_round_count = n,
            le_billed_amount = a, le_consensus_reached = r, le_recorded_at = now\<rparr>] else [])"
    if "ledger_table_inv s" for s t x t' p n a r now
    using ledger_load_rows [OF ledger_inv_append [OF that]] ledger_load_rows [OF that]
    by (intro exI [where x = "lt_seq s + 1"]) (simp add: sqlite_ledger_def append_entry_def)
qed (simp_all add: sqlite_ledger_def ledger_inv_append,
     simp_all add: ledger_init_db_def ledger_table_inv_def ids_ok_def load_entries_def)

interpretation sqlite_billing: counter_store sqlite_billing "billing_init_db None"
proof
  show "co_get_count sqlite_billing t p (co_increment sqlite_billing t' p' s)
      = co_get_count sqlite_billing t p s + (if t = t' \<and> p = p' then 1 else 0)" for t p t' p' s
    by (auto simp: sqlite_billing_def billing_get_count_def billing_increment_def map_add_def
        split: option.splits)
qed (simp add: sqlite_billing_def billing_get_count_def billing_init_db_def)

lemma tx_load_save:
  "tx_load x (tx_save r t) = (if x = tr_tx_id r
     then Some (case tx_load x t of None \<Rightarrow> r
       | Some old \<Rightarrow> r\<lparr>tr_tenant_id := tr_tenant_id old, tr_created_at := tr_created_at old\<rparr>)
     else tx_load x t)"
  by (induction r t rule: tx_save.induct) (auto simp: tx_load_def)

interpretation sqlite_tx: tx_store sqlite_tx "tx_init_db None" "\<lambda>_. True"
  by standard (simp_all add: sqlite_tx_def tx_load_save, simp_all add: tx_load_def tx_init_db_def)

text \<open>A row's \<open>data\<close> is the dict with the row's own \<open>key_id\<close>.\<close>

definition json_key_id :: "json \<Rightarrow> string option" where
  "json_key_id j = (case json_field ''key_id'' j of Some (JStr s) \<Rightarrow> Some s | _ \<Rightarrow> None)"

definition key_table_inv :: "key_table \<Rightarrow> bool" where
  "key_table_inv t \<longleftrightarrow> wf_dict t \<and> (\<forall>(k, d)\<in>set t. json_key_id d = Some k)"

interpretation sqlite_keys: key_store sqlite_keys "key_init_db None" json_key_id key_table_inv
proof
  fix s e d k
  assume ok: "key_table_inv s"
  then show "e \<in> set (ko_load_all sqlite_keys (ko_delete_key sqlite_keys k s)) \<longleftrightarrow>
      e \<in> set (ko_load_all sqlite_keys s) \<and> json_key_id e \<noteq> Some k"
    by (force simp: sqlite_keys_def keys_load_all_def delete_key_def key_table_inv_def)
  show "key_table_inv (ko_delete_key sqlite_keys k s)"
    using ok by (auto simp: sqlite_keys_def delete_key_def key_table_inv_def distinct_map_filter)
  assume d: "json_key_id d = Some k"
  show "e \<in> set (ko_load_all sqlite_keys (ko_save_key sqlite_keys k d s)) \<longleftrightarrow>
      e = d \<or> (e \<in> set (ko_load_all sqlite_keys s) \<and> json_key_id e \<noteq> Some k)"
    using ok d by (force simp: sqlite_keys_def keys_load_all_def save_key_def key_table_inv_def)
  show "key_table_inv (ko_save_key sqlite_keys k d s)"
    using ok d by (auto simp: sqlite_keys_def save_key_def key_table_inv_def distinct_map_filter)
qed (simp_all add: sqlite_keys_def key_init_db_def key_table_inv_def keys_load_all_def)

subsection \<open>Schema versions\<close>

text \<open>
  \<open>schema_version\<close> holds at most the row with id 1. A migration is a function on the database.
\<close>

record database =
  db_schema_version :: "int option option"
  db_audit :: "audit_table option"
  db_keys :: "key_table option"
  db_billing :: "usage_table option"
  db_tx :: "tx_table option"
  db_ledger :: "ledger_table option"

definition empty_database :: database where
  "empty_database = \<lparr>db_schema_version = None, db_audit = None, db_keys = None, db_billing = None,
     db_tx = None, db_ledger = None\<rparr>"

definition schema_bootstrap :: "database \<Rightarrow> database" where
  "schema_bootstrap db =
     db\<lparr>db_schema_version := Some (case db_schema_version db of Some (Some v) \<Rightarrow> Some v | _ \<Rightarrow> Some 0)\<rparr>"

definition get_version :: "database \<Rightarrow> int \<times> database" where
  "get_version db =
     (let db = schema_bootstrap db in (case db_schema_version db of Some (Some v) \<Rightarrow> v | _ \<Rightarrow> 0, db))"

definition set_version :: "int \<Rightarrow> database \<Rightarrow> database" where
  "set_version version db =
     (case db_schema_version db of
        Some (Some v) \<Rightarrow> db\<lparr>db_schema_version := Some (Some version)\<rparr>
      | _ \<Rightarrow> db)"

definition migration_v1 :: "database \<Rightarrow> database" where
  "migration_v1 db = db"

definition migrations :: "(int \<times> (database \<Rightarrow> database)) list" where
  "migrations = [(1, migration_v1)]"

text \<open>The loop of \<open>ensure_migrations\<close>, over the migrations in version order.\<close>

fun migrate :: "(int \<times> (database \<Rightarrow> database)) list \<Rightarrow> int \<Rightarrow> database \<Rightarrow> database" where
  "migrate [] current db = db"
| "migrate ((version, migration_fn) # ms) current db =
     (if current < version then migrate ms version (set_version version (migration_fn db))
      else migrate ms current db)"

definition ensure_migrations :: "(int \<times> (database \<Rightarrow> database)) list \<Rightarrow> database \<Rightarrow> database" where
  "ensure_migrations ms db = (let (current, db) = get_version db in migrate (sort_key fst ms) current db)"

text \<open>A migration does not touch the version row, which \<open>set_version\<close> writes.\<close>

definition keeps_version :: "(database \<Rightarrow> database) \<Rightarrow> bool" where
  "keeps_version f \<longleftrightarrow> (\<forall>db. db_schema_version (f db) = db_schema_version db)"

lemma migrate_version:
  "sorted (map fst ms) \<Longrightarrow> \<forall>m\<in>set ms. keeps_version (snd m) \<Longrightarrow>
    db_schema_version db = Some (Some current) \<Longrightarrow>
    db_schema_version (migrate ms current db) = Some (Some (fold max (map fst ms) current))"
proof (induction ms current db rule: migrate.induct)
  case (2 version migration_fn ms current db)
  then have "db_schema_version (migration_fn db) = Some (Some current)"
    by (simp add: keeps_version_def)
  then have "db_schema_version (set_version version (migration_fn db)) = Some (Some version)"
    by (simp add: set_version_def)
  with 2 show ?case by (auto simp: max_def)
qed simp

lemma migrate_none: "\<forall>m\<in>set ms. fst m \<le> current \<Longrightarrow> migrate ms current db = db"
  by (induction ms current db rule: migrate.induct) auto

lemma bootstrap_some [simp]: "db_schema_version db = Some (Some v) \<Longrightarrow> schema_bootstrap db = db"
  by (simp add: schema_bootstrap_def)

lemma fold_max_ge: "(c::int) \<le> fold max vs c \<and> (\<forall>v\<in>set vs. v \<le> fold max vs c)"
  by (induction vs arbitrary: c) (auto, (metis dual_order.trans max.cobounded1 max.cobounded2)+)

text \<open>Running the migrations again, as every start of the process does, applies none of them.\<close>

lemma ensure_migrations_idem:
  assumes "\<forall>m\<in>set ms. keeps_version (snd m)"
  shows "ensure_migrations ms (ensure_migrations ms db) = ensure_migrations ms db"
proof -
  have "\<exists>v. db_schema_version (schema_bootstrap db) = Some (Some v)"
    by (auto simp: schema_bootstrap_def split: option.split)
  then obtain v where v: "db_schema_version (schema_bootstrap db) = Some (Some v)" by blast
  let ?ms = "sort_key fst ms" and ?m = "fold max (map fst (sort_key fst ms)) v"
  have e: "ensure_migrations ms db = migrate ?ms v (schema_bootstrap db)"
    by (simp add: ensure_migrations_def get_version_def v)
  have "db_schema_version (migrate ?ms v (schema_bootstrap db)) = Some (Some ?m)"
    using assms v by (intro migrate_version) auto
  moreover have "\<forall>m\<in>set ?ms. fst m \<le> ?m" using fold_max_ge [of v "map fst ?ms"] by auto
  ultimately show ?thesis
    by (simp add: e) (simp add: ensure_migrations_def get_version_def migrate_none)
qed

subsection \<open>Opening the stores\<close>

text \<open>
  The stores of a process: with a file they are the tables of one database; with \<open>:memory:\<close>
  each store has a database of its own, empty at start.
\<close>

record stores =
  st_audit :: audit_table
  st_keys :: key_table
  st_billing :: usage_table
  st_tx :: tx_table
  st_ledger :: ledger_table

definition open_stores :: "database \<Rightarrow> stores" where
  "open_stores db = \<lparr>st_audit = audit_init_db (db_audit db), st_keys = key_init_db (db_keys db),
     st_billing = billing_init_db (db_billing db), st_tx = tx_init_db (db_tx db),
     st_ledger = ledger_init_db (db_ledger db)\<rparr>"

text \<open>\<open>file\<close> is the content of the database file at the given path.\<close>

definition open_from_env :: "string option \<Rightarrow> (string \<Rightarrow> database) \<Rightarrow> stores option" where
  "open_from_env ecn_db_path file =
     (let db_path = strip (case ecn_db_path of None \<Rightarrow> [] | Some p \<Rightarrow> p)
      in if db_path = [] then None
         else if db_path = '':memory:'' then Some (open_stores empty_database)
         else Some (open_stores (ensure_migrations migrations (file db_path))))"

text \<open>What the process leaves in the file when it has worked on the stores.\<close>

definition written_back :: "stores \<Rightarrow> database \<Rightarrow> database" where
  "written_back st db = db\<lparr>db_audit := Some (st_audit st), db_keys := Some (st_keys st),
     db_billing := Some (st_billing st), db_tx := Some (st_tx st), db_ledger := Some (st_ledger st)\<rparr>"

lemma migrate_tables:
  "\<forall>m\<in>set ms. snd m = migration_v1 \<Longrightarrow> open_stores (migrate ms c db) = open_stores db"
  by (induction ms c db rule: migrate.induct)
    (auto simp: migration_v1_def set_version_def open_stores_def split: option.split)

lemma open_stores_migrated [simp]: "open_stores (ensure_migrations migrations db) = open_stores db"
proof -
  have "open_stores (migrate migrations c (schema_bootstrap db)) = open_stores (schema_bootstrap db)" for c
    by (rule migrate_tables) (simp add: migrations_def)
  then show ?thesis
    by (simp add: ensure_migrations_def get_version_def Let_def migrations_def)
      (simp add: open_stores_def schema_bootstrap_def)
qed

text \<open>Durability: a process that opens the file another has left sees in every store what that
  one had stored; with \<open>:memory:\<close> it starts with empty stores, and without a path it has none.\<close>

lemma open_from_env_durable:
  "(let p = strip path in
     if p = [] then open_from_env (Some path) file = None
     else if p = '':memory:'' then open_from_env (Some path) file = Some (open_stores empty_database)
     else open_from_env (Some path) (file(p := written_back st (file p))) = Some st)
   \<and> open_from_env None file = None"
  by (simp add: open_from_env_def Let_def strip_def)
    (simp add: open_stores_def written_back_def audit_init_db_def key_init_db_def billing_init_db_def
      tx_init_db_def ledger_init_db_def)

end
