(* ===== verification/PyFloat.thy ===== *)
theory PyFloat
  imports Prelude Complex_Main
begin

section \<open>Rounded quotients\<close>

text \<open>
  \<open>round(a / b, 4)\<close> for counts \<open>0 \<le> a \<le> b\<close>. The quotient is the double nearest to it, which
  \<open>double_quotient\<close> scales to an integer of 53 bits; \<open>round\<close> takes the nearest decimal of what the
  double is exactly, and both go to the even neighbour at a tie.
\<close>

definition round_half_even :: "rat \<Rightarrow> int" where
  "round_half_even x =
     (let n = \<lfloor>x\<rfloor>; d = x - of_int n in if d < 1 / 2 \<or> (d = 1 / 2 \<and> even n) then n else n + 1)"

fun bit_length :: "nat \<Rightarrow> nat" where
  "bit_length n = (if n = 0 then 0 else Suc (bit_length (n div 2)))"

declare bit_length.simps [simp del]

definition double_quotient :: "int \<Rightarrow> int \<Rightarrow> rat" where
  "double_quotient a b =
     (let scale = 2 ^ (52 + bit_length (nat (b div a)))
      in of_int (round_half_even (of_int a / of_int b * scale)) / scale)"

definition round4 :: "rat \<Rightarrow> rat" where
  "round4 x = of_int (round_half_even (x * 10000)) / 10000"

lemma round_half_even_close: "\<bar>of_int (round_half_even x) - x\<bar> \<le> 1 / 2"
  using floor_correct [of x] by (auto simp: round_half_even_def Let_def abs_le_iff; linarith)

lemma round_half_even_int [simp]: "round_half_even (of_int n) = n"
  by (simp add: round_half_even_def)

lemma round_half_even_mono:
  assumes "x \<le> y"
  shows "round_half_even x \<le> round_half_even y"
proof (cases "\<lfloor>x\<rfloor> = \<lfloor>y\<rfloor>")
  case True
  with assms show ?thesis by (auto simp: round_half_even_def Let_def)
next
  case False
  then have "\<lfloor>x\<rfloor> + 1 \<le> \<lfloor>y\<rfloor>" using floor_mono [OF assms] by linarith
  then show ?thesis by (auto simp: round_half_even_def Let_def)
qed

lemma round_half_even_bounds:
  assumes "0 \<le> x" and "x \<le> of_int n"
  shows "0 \<le> round_half_even x" and "round_half_even x \<le> n"
  using round_half_even_mono [OF assms(1)] round_half_even_mono [OF assms(2)] round_half_even_int [of 0] by simp_all

lemma scaled_rounding:
  assumes "0 < (s::int)"
  shows "\<bar>of_int (round_half_even (x * of_int s)) / of_int s - x\<bar> \<le> 1 / (2 * of_int s)"
    and "0 \<le> x \<Longrightarrow> x \<le> 1 \<Longrightarrow> 0 \<le> rat_of_int (round_half_even (x * of_int s)) / of_int s"
    and "0 \<le> x \<Longrightarrow> x \<le> 1 \<Longrightarrow> rat_of_int (round_half_even (x * of_int s)) / of_int s \<le> 1"
proof -
  have s: "(0::rat) < of_int s" using assms by simp
  have "of_int (round_half_even (x * of_int s)) / of_int s - x = (of_int (round_half_even (x * of_int s)) - x * of_int s) / of_int s"
    using s by (simp add: field_simps)
  then have "\<bar>of_int (round_half_even (x * of_int s)) / of_int s - x\<bar> = \<bar>of_int (round_half_even (x * of_int s)) - x * of_int s\<bar> / of_int s"
    using s by simp
  also have "\<dots> \<le> (1 / 2) / of_int s" using round_half_even_close s by (intro divide_right_mono) auto
  finally show "\<bar>of_int (round_half_even (x * of_int s)) / of_int s - x\<bar> \<le> 1 / (2 * of_int s)" by simp
  assume "0 \<le> x" "x \<le> 1"
  then have "0 \<le> x * of_int s" "x * of_int s \<le> of_int s" using s by (simp_all add: mult_le_cancel_right1)
  note b = round_half_even_bounds [OF this]
  show "0 \<le> rat_of_int (round_half_even (x * of_int s)) / of_int s" using b(1) s by simp
  show "rat_of_int (round_half_even (x * of_int s)) / of_int s \<le> 1" using b(2) s by simp
qed

lemma bit_length_bounds: "0 < n \<Longrightarrow> 2 ^ bit_length n \<le> 2 * n \<and> n < 2 ^ bit_length n"
proof (induction n rule: bit_length.induct)
  case (1 n)
  show ?case
  proof (cases "n div 2 = 0")
    case True
    then have "n = 1" using 1(2) by auto
    then show ?thesis by (simp add: bit_length.simps)
  next
    case False
    then have "2 ^ bit_length (n div 2) \<le> 2 * (n div 2)" "n div 2 < 2 ^ bit_length (n div 2)" using 1 by auto
    then show ?thesis using 1(2) by (subst (1 2) bit_length.simps) (simp, linarith)
  qed
qed

text \<open>The scaled quotient has 53 bits, so rounding it to an integer rounds the quotient to a double.\<close>

lemma double_quotient_scale:
  assumes "0 < a" and "a \<le> b"
  shows "2 ^ 52 \<le> of_int a / of_int b * (2::rat) ^ (52 + bit_length (nat (b div a)))"
    and "of_int a / of_int b * (2::rat) ^ (52 + bit_length (nat (b div a))) \<le> 2 ^ 53"
proof -
  let ?n = "b div a" and ?k = "bit_length (nat (b div a))"
  have n: "0 < ?n" using assms by (simp add: pos_imp_zdiv_pos_iff)
  from bit_length_bounds [of "nat ?n"] n have k: "2 ^ ?k \<le> 2 * ?n" "?n < 2 ^ ?k"
    by (simp_all add: le_nat_iff nat_less_iff flip: of_nat_le_iff [where 'a = int])
  have "?n * a \<le> b" "b < (?n + 1) * a"
    using assms by (auto simp: algebra_simps) (smt (verit) mult.commute pos_mod_sign pos_mod_bound mult_div_mod_eq)+
  moreover have "(?n + 1) * a \<le> 2 ^ ?k * a" "2 ^ ?k * a \<le> 2 * (?n * a)"
    using k assms by (auto intro: mult_right_mono simp flip: mult.assoc)
  ultimately have "b \<le> a * 2 ^ ?k" "a * 2 ^ ?k \<le> 2 * b" by (simp_all add: mult.commute)
  then have "(of_int b :: rat) \<le> of_int (a * 2 ^ ?k)" "(of_int (a * 2 ^ ?k) :: rat) \<le> of_int (2 * b)"
    by (simp_all only: of_int_le_iff)
  moreover have "(0::rat) < of_int b" using assms by simp
  ultimately show "2 ^ 52 \<le> of_int a / of_int b * (2::rat) ^ (52 + ?k)" "of_int a / of_int b * (2::rat) ^ (52 + ?k) \<le> 2 ^ 53"
    by (simp_all add: power_add field_simps)
qed

lemma round4_bounds: "0 \<le> x \<Longrightarrow> x \<le> 1 \<Longrightarrow> 0 \<le> round4 x \<and> round4 x \<le> 1"
  using scaled_rounding(2,3) [of 10000 x] by (simp add: round4_def)

lemma double_quotient_bounds:
  assumes "0 \<le> a" and "a \<le> b"
  shows "0 \<le> double_quotient a b \<and> double_quotient a b \<le> 1"
    and "\<bar>double_quotient a b - of_int a / of_int b\<bar> \<le> 1 / 2 ^ 53"
proof -
  let ?k = "bit_length (nat (b div a))"
  have q: "0 \<le> (of_int a / of_int b :: rat)" "(of_int a / of_int b :: rat) \<le> 1"
    using assms by (auto simp: divide_le_eq_1)
  have s: "(0::int) < 2 ^ (52 + ?k)" by simp
  show "0 \<le> double_quotient a b \<and> double_quotient a b \<le> 1"
    using scaled_rounding(2,3) [OF s q] by (simp add: double_quotient_def Let_def)
  have "\<bar>double_quotient a b - of_int a / of_int b\<bar> \<le> 1 / (2 * 2 ^ (52 + ?k))"
    using scaled_rounding(1) [OF s, of "of_int a / of_int b"] by (simp add: double_quotient_def Let_def)
  also have "\<dots> = 1 / 2 ^ (53 + ?k)" by (simp add: power_add)
  also have "\<dots> \<le> 1 / 2 ^ 53" by (intro divide_left_mono power_increasing) simp_all
  finally show "\<bar>double_quotient a b - of_int a / of_int b\<bar> \<le> 1 / 2 ^ 53" .
qed

lemma rounded_rate:
  assumes "0 \<le> a" and "a \<le> b"
  shows "0 \<le> round4 (double_quotient a b) \<and> round4 (double_quotient a b) \<le> 1"
    and "\<bar>round4 (double_quotient a b) - of_int a / of_int b\<bar> \<le> 1 / 19999"
proof -
  show "0 \<le> round4 (double_quotient a b) \<and> round4 (double_quotient a b) \<le> 1"
    using round4_bounds double_quotient_bounds(1) [OF assms] by blast
  have "\<bar>round4 (double_quotient a b) - double_quotient a b\<bar> \<le> 1 / 20000"
    using scaled_rounding(1) [of 10000 "double_quotient a b"] by (simp add: round4_def)
  moreover have "(1::rat) / 20000 + 1 / 2 ^ 53 \<le> 1 / 19999" by simp
  ultimately show "\<bar>round4 (double_quotient a b) - of_int a / of_int b\<bar> \<le> 1 / 19999"
    using double_quotient_bounds(2) [OF assms] by linarith
qed

lemma double_quotient_simps [simp]: "double_quotient 0 b = 0" "0 < b \<Longrightarrow> double_quotient b b = 1"
proof -
  show "double_quotient 0 b = 0" using round_half_even_int [of 0] by (simp add: double_quotient_def Let_def)
  show "double_quotient b b = 1" if "0 < b"
    using round_half_even_int [of "2 ^ (52 + bit_length 1)"] that by (simp add: double_quotient_def Let_def)
qed

lemma round4_simps [simp]: "round4 0 = 0" "round4 1 = 1"
  using round_half_even_int [of 0] round_half_even_int [of 10000] by (simp_all add: round4_def)

end
