(* ===== verification/AuditLog.thy ===== *)
theory AuditLog
  imports ConsensusRound Persistence PyFloat
begin

section \<open>The audit log\<close>

text \<open>
  \<open>ecn/audit.py\<close>: the event recorded for every round, its JSON form, the log with its optional
  store, its queries and its summary. The operations take the store's operations as the record
  \<open>S\<close>, since the code is given any \<open>AuditStore\<close>; the lemmas assume of it what the locale
  \<open>audit_store\<close> says, which the SQLite store meets. Time stamps are texts passed in.

  The lemmas show that an event is read back from its JSON form, that a log is the content of
  its store, so that a restart reloads it, that round ids are positions, that a vote's status is
  the verdict of the consensus round, and what pagination and the summary return.
\<close>

record node_vote =
  nv_node_id :: string
  nv_state_hash :: string
  nv_signature :: "string option"
  nv_status :: string

record audit_event =
  ae_round_id :: int
  ae_timestamp :: string
  ae_transaction :: json
  ae_votes :: "node_vote list"
  ae_agreed_hash :: "string option"
  ae_consensus_reached :: bool
  ae_honest_nodes :: "string list"
  ae_faulty_nodes :: "string list"
  ae_invalid_sig_nodes :: "string list"
  ae_vote_counts :: "int dict"

definition has_fault :: "audit_event \<Rightarrow> bool" where
  "has_fault e \<longleftrightarrow> 0 < length (ae_faulty_nodes e)"

definition vote_to_dict :: "node_vote \<Rightarrow> json" where
  "vote_to_dict v = JObj [(''node_id'', JStr (nv_node_id v)), (''state_hash'', JStr (nv_state_hash v)),
     (''signature'', json_opt_str (nv_signature v)), (''status'', JStr (nv_status v))]"

definition event_to_dict :: "audit_event \<Rightarrow> json" where
  "event_to_dict e = JObj
    [(''round_id'', JInt (ae_round_id e)), (''timestamp'', JStr (ae_timestamp e)),
     (''transaction'', ae_transaction e), (''votes'', JList (map vote_to_dict (ae_votes e))),
     (''agreed_hash'', json_opt_str (ae_agreed_hash e)),
     (''consensus_reached'', JBool (ae_consensus_reached e)),
     (''honest_nodes'', JList (map JStr (ae_honest_nodes e))),
     (''faulty_nodes'', JList (map JStr (ae_faulty_nodes e))),
     (''invalid_sig_nodes'', JList (map JStr (ae_invalid_sig_nodes e))),
     (''vote_counts'', JObj (map (\<lambda>(h, n). (h, JInt n)) (ae_vote_counts e)))]"

subsection \<open>Reading an event back\<close>

fun as_counts :: "string \<Rightarrow> json \<Rightarrow> load_error + int dict" where
  "as_counts k (JObj kvs) = mapE (\<lambda>(h, j). bindE (as_int k j) (\<lambda>n. Inr (h, n))) kvs"
| "as_counts k _ = Inl (WrongType k)"

definition vote_from_dict :: "json \<Rightarrow> load_error + node_vote" where
  "vote_from_dict v =
     bindE (bindE (field ''node_id'' v) (as_str ''node_id'')) (\<lambda>node_id.
     bindE (bindE (field ''state_hash'' v) (as_str ''state_hash'')) (\<lambda>hash.
     bindE (as_opt_str ''signature'' (field_or ''signature'' JNull v)) (\<lambda>sig.
     bindE (bindE (field ''status'' v) (as_str ''status'')) (\<lambda>status.
       Inr \<lparr>nv_node_id = node_id, nv_state_hash = hash, nv_signature = sig, nv_status = status\<rparr>))))"

definition event_from_dict :: "json \<Rightarrow> load_error + audit_event" where
  "event_from_dict d =
     bindE (as_list vote_from_dict ''votes'' (field_or ''votes'' (JList []) d)) (\<lambda>votes.
     bindE (bindE (field ''round_id'' d) (as_int ''round_id'')) (\<lambda>round_id.
     bindE (bindE (field ''timestamp'' d) (as_str ''timestamp'')) (\<lambda>timestamp.
     bindE (field ''transaction'' d) (\<lambda>transaction.
     bindE (as_opt_str ''agreed_hash'' (field_or ''agreed_hash'' JNull d)) (\<lambda>agreed.
     bindE (as_bool ''consensus_reached'' (field_or ''consensus_reached'' (JBool False) d)) (\<lambda>reached.
     bindE (as_list (as_str ''honest_nodes'') ''honest_nodes'' (field_or ''honest_nodes'' (JList []) d)) (\<lambda>honest.
     bindE (as_list (as_str ''faulty_nodes'') ''faulty_nodes'' (field_or ''faulty_nodes'' (JList []) d)) (\<lambda>faulty.
     bindE (as_list (as_str ''invalid_sig_nodes'') ''invalid_sig_nodes''
              (field_or ''invalid_sig_nodes'' (JList []) d)) (\<lambda>invalid.
     bindE (as_counts ''vote_counts'' (field_or ''vote_counts'' (JObj []) d)) (\<lambda>counts.
       Inr \<lparr>ae_round_id = round_id, ae_timestamp = timestamp, ae_transaction = transaction,
            ae_votes = votes, ae_agreed_hash = agreed, ae_consensus_reached = reached,
            ae_honest_nodes = honest, ae_faulty_nodes = faulty, ae_invalid_sig_nodes = invalid,
            ae_vote_counts = counts\<rparr>))))))))))"

lemma vote_dict_roundtrip [simp]: "vote_from_dict (vote_to_dict v) = Inr v"
  by (simp add: vote_from_dict_def vote_to_dict_def field_def field_or_def json_field_def)

lemma mapE_counts [simp]:
  "mapE (\<lambda>(h, j). bindE (as_int k j) (\<lambda>n. Inr (h, n))) (map (\<lambda>(h, n). (h, JInt n)) d) = Inr d"
  by (induction d) auto

lemma mapE_votes [simp]: "mapE vote_from_dict (map vote_to_dict vs) = Inr vs"
  using mapE_map [of vs vote_from_dict vote_to_dict id] by simp

lemma event_dict_roundtrip [simp]: "event_from_dict (event_to_dict e) = Inr e"
  by (simp add: event_from_dict_def event_to_dict_def field_def field_or_def json_field_def)

subsection \<open>The log\<close>

record 's audit_log =
  al_store :: "'s option"
  al_tenant_id :: string
  al_events :: "audit_event list"

definition audit_log_init :: "'s audit_ops \<Rightarrow> 's option \<Rightarrow> string \<Rightarrow> load_error + 's audit_log" where
  "audit_log_init S store tenant_id =
     (case store of
        None \<Rightarrow> Inr \<lparr>al_store = None, al_tenant_id = tenant_id, al_events = []\<rparr>
      | Some s \<Rightarrow>
          bindE (mapE event_from_dict (ao_load_all S tenant_id s)) (\<lambda>events.
            Inr \<lparr>al_store = Some s, al_tenant_id = tenant_id, al_events = events\<rparr>))"

definition vote_status :: "consensus_result \<Rightarrow> node_result \<Rightarrow> string" where
  "vote_status cr r =
     (if nr_node_id r \<in> set (cr_invalid_sig_nodes cr) then ''sig_fault''
      else if nr_node_id r \<in> set (cr_faulty_nodes cr) then ''hash_fault''
      else ''honest'')"

definition make_event ::
  "int \<Rightarrow> string \<Rightarrow> json \<Rightarrow> node_result list \<Rightarrow> consensus_result \<Rightarrow> audit_event" where
  "make_event round_id timestamp transaction node_results cr =
     \<lparr>ae_round_id = round_id, ae_timestamp = timestamp, ae_transaction = transaction,
      ae_votes = map (\<lambda>r. \<lparr>nv_node_id = nr_node_id r, nv_state_hash = nr_state_hash r,
          nv_signature = nr_signature r, nv_status = vote_status cr r\<rparr>) node_results,
      ae_agreed_hash = cr_agreed_hash cr, ae_consensus_reached = cr_consensus_reached cr,
      ae_honest_nodes = cr_honest_nodes cr, ae_faulty_nodes = cr_faulty_nodes cr,
      ae_invalid_sig_nodes = cr_invalid_sig_nodes cr, ae_vote_counts = cr_vote_counts cr\<rparr>"

definition audit_record ::
  "'s audit_ops \<Rightarrow> string \<Rightarrow> json \<Rightarrow> node_result list \<Rightarrow> consensus_result \<Rightarrow> 's audit_log
     \<Rightarrow> audit_event \<times> 's audit_log" where
  "audit_record S timestamp transaction node_results cr al =
     (let event = make_event (int (length (al_events al)) + 1) timestamp transaction node_results cr;
          al' = al\<lparr>al_events := al_events al @ [event]\<rparr>
      in (event, al'\<lparr>al_store :=
            map_option (ao_append S (event_to_dict event) (al_tenant_id al)) (al_store al')\<rparr>))"

definition get_events :: "int option \<Rightarrow> int \<Rightarrow> 's audit_log \<Rightarrow> audit_event list" where
  "get_events limit offset al =
     (let sliced = slice_from offset (al_events al)
      in case limit of None \<Rightarrow> sliced | Some n \<Rightarrow> slice_to n sliced)"

definition get_fault_events :: "'s audit_log \<Rightarrow> audit_event list" where
  "get_fault_events al = filter has_fault (al_events al)"

definition get_event :: "int \<Rightarrow> 's audit_log \<Rightarrow> audit_event option" where
  "get_event round_id al =
     (let idx = round_id - 1
      in if 0 \<le> idx \<and> idx < int (length (al_events al)) then Some (al_events al ! nat idx) else None)"

text \<open>The summary; \<open>fault_rate\<close> is rounded to four decimals.\<close>

record audit_summary =
  as_total_rounds :: nat
  as_fault_rounds :: nat
  as_consensus_failure_rounds :: nat
  as_fault_rate :: rat
  as_top_faulty_nodes :: "(string \<times> int) list"

definition audit_summary_of :: "'s audit_log \<Rightarrow> audit_summary" where
  "audit_summary_of al =
     (let events = al_events al; total = length events;
          fault_rounds = length (filter has_fault events);
          consensus_failures = length (filter (\<lambda>e. \<not> ae_consensus_reached e) events);
          all_faulty = concat (map ae_faulty_nodes events);
          fault_counts = foldl (\<lambda>d n. dset n (dget_or d n 0 + 1) d) [] all_faulty
      in \<lparr>as_total_rounds = total, as_fault_rounds = fault_rounds,
          as_consensus_failure_rounds = consensus_failures,
          as_fault_rate = (if total = 0 then 0 else round4 (double_quotient (int fault_rounds) (int total))),
          as_top_faulty_nodes = sort_key (\<lambda>x. - snd x) fault_counts\<rparr>)"

subsection \<open>A log is the content of its store\<close>

definition numbered :: "audit_event list \<Rightarrow> bool" where
  "numbered es \<longleftrightarrow> map ae_round_id es = map int [1..<Suc (length es)]"

lemma numbered_snoc:
  "numbered es \<Longrightarrow> ae_round_id e = int (length es) + 1 \<Longrightarrow> numbered (es @ [e])"
  by (simp add: numbered_def)

lemma numbered_nth: "numbered es \<Longrightarrow> i < length es \<Longrightarrow> ae_round_id (es ! i) = int i + 1"
proof -
  assume "numbered es" and i: "i < length es"
  then have "map ae_round_id es ! i = map int [1..<Suc (length es)] ! i" by (simp only: numbered_def)
  with i show ?thesis by (simp del: upt_Suc)
qed

definition audit_inv :: "'s audit_ops \<Rightarrow> ('s \<Rightarrow> bool) \<Rightarrow> 's audit_log \<Rightarrow> bool" where
  "audit_inv S ok al \<longleftrightarrow> numbered (al_events al) \<and>
     (case al_store al of
        None \<Rightarrow> True
      | Some s \<Rightarrow> ok s \<and> ao_load_all S (al_tenant_id al) s = map event_to_dict (al_events al))"

lemma audit_record_events:
  "al_events (snd (audit_record S ts j rs cr al)) =
     al_events al @ [make_event (int (length (al_events al)) + 1) ts j rs cr]"
  "al_tenant_id (snd (audit_record S ts j rs cr al)) = al_tenant_id al"
  "al_store (snd (audit_record S ts j rs cr al)) = None \<longleftrightarrow> al_store al = None"
  by (simp_all add: audit_record_def Let_def)

context audit_store
begin

lemma audit_inv_fresh: "audit_inv S ok \<lparr>al_store = Some empty, al_tenant_id = t, al_events = []\<rparr>"
  by (simp add: audit_inv_def numbered_def inv_empty load_empty)

lemma audit_inv_record: "audit_inv S ok al \<Longrightarrow> audit_inv S ok (snd (audit_record S ts j rs cr al))"
  by (auto simp: audit_inv_def audit_record_def Let_def load_append inv_append make_event_def
      intro: numbered_snoc split: option.splits)

text \<open>What another tenant's log appends to the shared store.\<close>

lemma audit_inv_foreign:
  "audit_inv S ok al \<Longrightarrow> al_store al = Some s \<Longrightarrow> t \<noteq> al_tenant_id al \<Longrightarrow>
    audit_inv S ok (al\<lparr>al_store := Some (ao_append S e t s)\<rparr>)"
  by (auto simp: audit_inv_def load_append inv_append)

lemma audit_reload:
  "audit_inv S ok al \<Longrightarrow> al_store al = Some s \<Longrightarrow>
    audit_log_init S (Some s) (al_tenant_id al) = Inr al"
  using mapE_map [of "al_events al" event_from_dict event_to_dict id]
  by (simp add: audit_inv_def audit_log_init_def)

end

text \<open>
  Logs of several tenants over one store, as the processes of a deployment share its file:
  one entry of a schedule is the tenant whose log records a round.
\<close>

type_synonym audit_round = "string \<times> string \<times> json \<times> node_result list \<times> consensus_result"

definition shared_step ::
  "'s audit_ops \<Rightarrow> 's \<times> (string \<Rightarrow> audit_event list) \<Rightarrow> audit_round \<Rightarrow> 's \<times> (string \<Rightarrow> audit_event list)" where
  "shared_step S st rd =
     (case (st, rd) of ((s, logs), (tid, ts, j, rs, cr)) \<Rightarrow>
        let (e, al) = audit_record S ts j rs cr \<lparr>al_store = Some s, al_tenant_id = tid, al_events = logs tid\<rparr>
        in (the (al_store al), logs(tid := al_events al)))"

definition shared_run :: "'s audit_ops \<Rightarrow> 's \<Rightarrow> audit_round list \<Rightarrow> 's \<times> (string \<Rightarrow> audit_event list)" where
  "shared_run S s rds = foldl (shared_step S) (s, \<lambda>_. []) rds"

text \<open>What the log of tenant \<open>tid\<close> is to contain: its rounds of the schedule, numbered.\<close>

definition tenant_rounds :: "string \<Rightarrow> audit_round list \<Rightarrow> audit_event list" where
  "tenant_rounds tid rds =
     (let own = filter (\<lambda>rd. fst rd = tid) rds
      in map (\<lambda>(i, (_, ts, j, rs, cr)). make_event (int i) ts j rs cr) (enumerate 1 own))"

lemma tenant_rounds_snoc:
  "tenant_rounds tid (rds @ [(t, ts, j, rs, cr)]) = tenant_rounds tid rds @
     (if t = tid then [make_event (int (length (tenant_rounds tid rds)) + 1) ts j rs cr] else [])"
  by (simp add: tenant_rounds_def enumerate_append_eq Let_def add.commute)

context audit_store
begin

lemma shared_run_inv:
  "snd (shared_run S empty rds) tid = tenant_rounds tid rds
   \<and> audit_inv S ok \<lparr>al_store = Some (fst (shared_run S empty rds)), al_tenant_id = tid,
       al_events = tenant_rounds tid rds\<rparr>"
proof (induction rds arbitrary: tid rule: rev_induct)
  case Nil
  show ?case by (simp add: shared_run_def tenant_rounds_def audit_inv_fresh)
next
  case (snoc rd rds)
  obtain t ts j rs cr where rd: "rd = (t, ts, j, rs, cr)" by (cases rd)
  obtain s logs where st: "shared_run S empty rds = (s, logs)" by (cases "shared_run S empty rds")
  let ?al = "\<lambda>tid. \<lparr>al_store = Some s, al_tenant_id = tid, al_events = tenant_rounds tid rds\<rparr>"
  let ?e = "make_event (int (length (tenant_rounds t rds)) + 1) ts j rs cr"
  have ih: "logs x = tenant_rounds x rds" "audit_inv S ok (?al x)" for x
    using snoc.IH [of x] by (simp_all add: st)
  have run: "shared_run S empty (rds @ [rd]) =
      (ao_append S (event_to_dict ?e) t s, logs(t := tenant_rounds t rds @ [?e]))"
    using st by (simp add: shared_run_def shared_step_def rd audit_record_def ih(1) Let_def)
  show ?case
  proof (cases "t = tid")
    case True
    have "audit_inv S ok (snd (audit_record S ts j rs cr (?al t)))" by (rule audit_inv_record [OF ih(2)])
    with True run show ?thesis by (simp add: rd tenant_rounds_snoc audit_record_def Let_def)
  next
    case False
    with audit_inv_foreign [OF ih(2) [of tid], of s t "event_to_dict ?e"] run show ?thesis
      by (simp add: rd tenant_rounds_snoc ih(1))
  qed
qed

lemma shared_reload:
  "audit_log_init S (Some (fst (shared_run S empty rds))) tid =
     Inr \<lparr>al_store = Some (fst (shared_run S empty rds)), al_tenant_id = tid,
          al_events = tenant_rounds tid rds\<rparr>"
  using audit_reload [OF conjunct2 [OF shared_run_inv [of rds tid]]] by simp

end

lemma numbered_tenant_rounds: "numbered (tenant_rounds tid rds)"
  using conjunct2 [OF sqlite_audit.shared_run_inv [of rds tid]] by (simp add: audit_inv_def)

text \<open>C26. Audit trail: whatever rounds the logs of several tenants record into one SQLite store, in
  whatever order, opening a tenant's log again yields exactly the rounds that tenant recorded,
  in order and numbered from one, and nothing of another tenant's.\<close>

theorem audit_trail_reload:
  "(let db = fst (shared_run sqlite_audit (audit_init_db None) rds) in
     audit_log_init sqlite_audit (Some db) tid =
       Inr \<lparr>al_store = Some db, al_tenant_id = tid, al_events = tenant_rounds tid rds\<rparr>)
   \<and> map ae_round_id (tenant_rounds tid rds) = map int [1..<Suc (length (tenant_rounds tid rds))]"
  using sqlite_audit.shared_reload numbered_tenant_rounds by (simp add: numbered_def Let_def del: upt_Suc)

subsection \<open>Queries\<close>

lemma get_event_iff:
  assumes "numbered (al_events al)"
  shows "get_event i al = Some e \<longleftrightarrow> e \<in> set (al_events al) \<and> ae_round_id e = i"
proof
  assume "get_event i al = Some e"
  then have i: "0 \<le> i - 1" "nat (i - 1) < length (al_events al)" "e = al_events al ! nat (i - 1)"
    by (auto simp: get_event_def Let_def split: if_splits)
  then show "e \<in> set (al_events al) \<and> ae_round_id e = i"
    using numbered_nth [OF assms i(2)] by simp
next
  assume r: "e \<in> set (al_events al) \<and> ae_round_id e = i"
  then obtain n where n: "n < length (al_events al)" "al_events al ! n = e" by (auto simp: in_set_conv_nth)
  with r numbered_nth [OF assms n(1)] show "get_event i al = Some e"
    by (auto simp: get_event_def Let_def)
qed

lemma pages_append:
  "concat (map (\<lambda>i. get_events (Some (int n)) (int (i * n)) al) [0..<k]) = take (k * n) (al_events al)"
proof (induction k)
  case (Suc k)
  then show ?case
    using append_take_drop_id [of "k * n" "take (Suc k * n) (al_events al)"]
    by (simp add: get_events_def min_def take_drop del: append_take_drop_id of_nat_mult)
qed simp

text \<open>A log that was opened on a store, or grew from one, answers a query for a round with the
  event of that id and with nothing for any other number; and reading it in pages of size \<open>n\<close>
  returns every event exactly once, in order.\<close>

lemma audit_queries:
  assumes "al_events al = tenant_rounds tid rds"
  shows "(get_event i al = Some e \<longleftrightarrow> e \<in> set (al_events al) \<and> ae_round_id e = i)
    \<and> (get_event i al = None \<longleftrightarrow> i < 1 \<or> int (length (al_events al)) < i)
    \<and> concat (map (\<lambda>i. get_events (Some (int n)) (int (i * n)) al) [0..<k]) = take (k * n) (al_events al)"
  using get_event_iff [of al i e] pages_append [of n al k] numbered_tenant_rounds assms
  by (auto simp: get_event_def Let_def)

definition example_rounds :: "audit_round list" where
  "example_rounds = [(''t'', ''now'', JNull, [], run_consensus example_crypto [] None 1)]"

definition example_log :: "audit_table audit_log" where
  "example_log = \<lparr>al_store = None, al_tenant_id = ''t'', al_events = tenant_rounds ''t'' example_rounds\<rparr>"

lemma audit_queries_example:
  "get_event 1 example_log \<noteq> None \<and> get_event 2 example_log = None"
  using audit_queries [of example_log "''t''" example_rounds 1]
    audit_queries [of example_log "''t''" example_rounds 2]
  by (simp add: example_log_def) (simp add: tenant_rounds_def example_rounds_def)

lemma consensus_invalid:
  "cr_invalid_sig_nodes (run_consensus C rs pks t) = map nr_node_id (filter (\<lambda>r. \<not> counts_vote C pks r) rs)"
  by (cases "counted C pks rs = []")
    (auto simp: run_consensus_none run_consensus_some make_consensus_result_def Let_def)

text \<open>The verdicts of the trail are those of the round: with distinct node ids, a vote is filed as
  \<open>sig_fault\<close> exactly when its signature did not count, as \<open>honest\<close> exactly when it counted and
  its hash was the agreed one, and as \<open>hash_fault\<close> in the remaining case.\<close>

lemma audit_verdicts:
  assumes "distinct (map nr_node_id rs)" and "r \<in> set rs"
  shows "vote_status (run_consensus C rs pks t) r =
     (if \<not> counts_vote C pks r then ''sig_fault''
      else if cr_agreed_hash (run_consensus C rs pks t) = Some (nr_state_hash r) then ''honest''
      else ''hash_fault'')"
proof -
  have id: "r' = r" if "r' \<in> set rs" "nr_node_id r' = nr_node_id r" for r'
    using that assms by (metis distinct_map inj_onD)
  have "nr_node_id r \<in> set (cr_invalid_sig_nodes (run_consensus C rs pks t)) \<longleftrightarrow> \<not> counts_vote C pks r"
    using id assms(2) by (auto simp: consensus_invalid image_iff)
  moreover have "nr_node_id r \<in> set (cr_faulty_nodes (run_consensus C rs pks t)) \<longleftrightarrow>
      \<not> (counts_vote C pks r \<and> cr_agreed_hash (run_consensus C rs pks t) = Some (nr_state_hash r))"
    using id assms(2) unfolding consensus_faulty_set by metis
  ultimately show ?thesis by (auto simp: vote_status_def)
qed

lemma audit_verdicts_example:
  "vote_status (run_consensus example_crypto [example_vote ''N1'' ''a'', example_vote ''N2'' ''b'']
      (Some [(''N1'', ''N1'')]) (1 / 2)) (example_vote ''N2'' ''b'') = ''sig_fault''"
  using audit_verdicts [of "[example_vote ''N1'' ''a'', example_vote ''N2'' ''b'']" "example_vote ''N2'' ''b''"
      example_crypto "Some [(''N1'', ''N1'')]" "1 / 2"]
  by (simp add: example_vote_def counts_vote_def result_verified_def)

text \<open>The summary: its counts are those of the rounds with a fault and without consensus, and
  the list of faulty nodes has each node that was ever faulty once, with the number of times it
  was, most often faulty first.\<close>

lemma audit_summary_counts:
  "as_total_rounds (audit_summary_of al) = length (al_events al)
   \<and> as_fault_rounds (audit_summary_of al) = length (get_fault_events al)
   \<and> ((n, c) \<in> set (as_top_faulty_nodes (audit_summary_of al)) \<longleftrightarrow>
        0 < c \<and> c = int (count_list (concat (map ae_faulty_nodes (al_events al))) n))
   \<and> distinct (map fst (as_top_faulty_nodes (audit_summary_of al)))
   \<and> sorted (map (\<lambda>x. - snd x) (as_top_faulty_nodes (audit_summary_of al)))
   \<and> 0 \<le> as_fault_rate (audit_summary_of al) \<and> as_fault_rate (audit_summary_of al) \<le> 1
   \<and> \<bar>as_fault_rate (audit_summary_of al) - of_nat (length (get_fault_events al)) / of_nat (length (al_events al))\<bar> \<le> 1 / 19999"
proof -
  let ?ns = "concat (map ae_faulty_nodes (al_events al))"
  have top: "as_top_faulty_nodes (audit_summary_of al) = sort_key (\<lambda>x. - snd x) (count_votes ?ns)"
    by (simp add: audit_summary_of_def Let_def count_votes_def)
  have pos: "n \<in> set ?ns \<longleftrightarrow> 0 < count_list ?ns n"
    by (metis count_notin count_list_0_iff gr0I less_not_refl)
  have "mset (map fst (sort_key (\<lambda>x. - snd x) (count_votes ?ns))) = mset (map fst (count_votes ?ns))" by simp
  then have "distinct (map fst (sort_key (\<lambda>x. - snd x) (count_votes ?ns)))"
    by (metis mset_eq_imp_distinct_iff wf_count_votes)
  moreover have "0 \<le> as_fault_rate (audit_summary_of al) \<and> as_fault_rate (audit_summary_of al) \<le> 1
      \<and> \<bar>as_fault_rate (audit_summary_of al) - of_nat (length (get_fault_events al)) / of_nat (length (al_events al))\<bar> \<le> 1 / 19999"
    using rounded_rate [of "int (length (get_fault_events al))" "int (length (al_events al))"]
    by (simp add: audit_summary_of_def get_fault_events_def Let_def)
  moreover have "(n, c) \<in> set (sort_key (\<lambda>x. - snd x) (count_votes ?ns)) \<longleftrightarrow> 0 < c \<and> c = int (count_list ?ns n)"
    using pos by (auto simp only: set_sort count_votes_items)
  ultimately show ?thesis
    unfolding top by (simp add: audit_summary_of_def Let_def get_fault_events_def)
qed

end
