(* ===== verification/Network.thy ===== *)
theory Network
  imports AuditLog
begin

section \<open>The simulated network\<close>

text \<open>
  \<open>ecn/network.py\<close>: nodes in one process, a broadcast that executes a transaction on each in
  turn and runs a consensus round over the results. When a node rejects the transaction the
  exception leaves \<open>broadcast\<close> at once: the nodes before it keep their new state.

  The lemmas about a \<open>cohort\<close>, nodes that hold the same state, are shared with the TCP network:
  what its members answer, and what a round over their answers decides.
\<close>

text \<open>The transaction as the dict the audit log copies, in the order of \<open>to_ecn_tx\<close>.\<close>

definition tx_json :: "tx \<Rightarrow> json" where
  "tx_json t = JObj
     (opt_item ''type'' JStr (tx_type t) @ opt_item ''product_id'' JStr (tx_product_id t) @
      opt_item ''destination'' JStr (tx_destination t) @ opt_item ''shipper'' JStr (tx_shipper t) @
      opt_item ''receiver'' JStr (tx_receiver t) @ opt_item ''at_customs'' JBool (tx_at_customs t) @
      opt_item ''check_name'' JStr (tx_check_name t) @ opt_item ''inspector'' JStr (tx_inspector t) @
      opt_item ''reason'' JStr (tx_reason t) @ opt_item ''released_by'' JStr (tx_released_by t) @
      opt_item ''from'' JStr (tx_from t) @ opt_item ''to'' JStr (tx_to t) @
      opt_item ''amount'' JInt (tx_amount t))"

record ('sk, 'pk, 's) network =
  nw_nodes :: "'sk node list"
  nw_public_keys :: "'pk dict"
  nw_audit_log :: "'s audit_log option"
  nw_history :: "(tx \<times> node_result list \<times> consensus_result) list"

definition network_init ::
  "'sk node list \<Rightarrow> 'pk dict option \<Rightarrow> 's audit_log option \<Rightarrow> ('sk, 'pk, 's) network" where
  "network_init nodes public_keys audit =
     \<lparr>nw_nodes = nodes, nw_public_keys = (case public_keys of None \<Rightarrow> [] | Some ks \<Rightarrow> ks),
      nw_audit_log = audit, nw_history = []\<rparr>"

definition add_node :: "'sk node \<Rightarrow> ('sk, 'pk, 's) network \<Rightarrow> ('sk, 'pk, 's) network" where
  "add_node nd net = net\<lparr>nw_nodes := nw_nodes net @ [nd]\<rparr>"

fun run_nodes ::
  "('sk, 'pk) crypto \<Rightarrow> sha256 \<Rightarrow> registry \<Rightarrow> tx \<Rightarrow> 'sk node list
     \<Rightarrow> (exec_error + node_result list) \<times> 'sk node list" where
  "run_nodes C H R t [] = (Inr [], [])"
| "run_nodes C H R t (nd # nds) =
     (case node_execute C H R nd t of
        (Inl e, nd') \<Rightarrow> (Inl e, nd' # nds)
      | (Inr r, nd') \<Rightarrow>
          let (res, nds') = run_nodes C H R t nds
          in (bindE res (\<lambda>rs. Inr (r # rs)), nd' # nds'))"

definition network_broadcast ::
  "('sk, 'pk) crypto \<Rightarrow> sha256 \<Rightarrow> registry \<Rightarrow> 's audit_ops \<Rightarrow> string \<Rightarrow> tx \<Rightarrow> ('sk, 'pk, 's) network
     \<Rightarrow> (exec_error + node_result list \<times> consensus_result) \<times> ('sk, 'pk, 's) network" where
  "network_broadcast C H R S now t net =
     (case run_nodes C H R t (nw_nodes net) of
        (Inl e, nodes) \<Rightarrow> (Inl e, net\<lparr>nw_nodes := nodes\<rparr>)
      | (Inr results, nodes) \<Rightarrow>
          let cr = run_consensus C results
                (if nw_public_keys net \<noteq> [] then Some (nw_public_keys net) else None) default_quorum_threshold
          in (Inr (results, cr),
              net\<lparr>nw_nodes := nodes, nw_history := nw_history net @ [(t, results, cr)],
                nw_audit_log := map_option (\<lambda>al. snd (audit_record S now (tx_json t) results cr al))
                  (nw_audit_log net)\<rparr>))"

definition node_count :: "('sk, 'pk, 's) network \<Rightarrow> nat" where
  "node_count net = length (nw_nodes net)"

subsection \<open>Nodes that hold the same state\<close>

definition in_cohort :: "bool \<Rightarrow> world \<Rightarrow> 'sk node \<Rightarrow> bool" where
  "in_cohort m w nd \<longleftrightarrow>
     wf_world (node_state nd) \<and> same_world (node_state nd) w \<and> sm_use_merkle (n_manager nd) = m"

text \<open>The answer the state \<open>w\<close> makes a node give.\<close>

definition answers :: "('sk, 'pk) crypto \<Rightarrow> sha256 \<Rightarrow> bool \<Rightarrow> world \<Rightarrow> 'sk node \<Rightarrow> node_result \<Rightarrow> bool" where
  "answers C H m w nd r \<longleftrightarrow>
     nr_node_id r = n_node_id nd
     \<and> nr_state_hash r = (if n_malicious nd then corrupt_hash (state_hash H m w) else state_hash H m w)
     \<and> nr_signature r = map_option (sign_result C (n_node_id nd) (nr_state_hash r)) (n_signing_key nd)"

context handler_registry
begin

lemma cohort_accepts:
  assumes "in_cohort m v nd" and "wf_world v" and "execute R v t = Inr w"
  obtains r nd' where "node_execute C H R nd t = (Inr r, nd')" and "answers C H m w nd r"
    and "in_cohort m w nd'" and "n_node_id nd' = n_node_id nd" and "n_malicious nd' = n_malicious nd"
    and "n_signing_key nd' = n_signing_key nd"
proof -
  have nd: "wf_world (node_state nd)" "same_world (node_state nd) v" "sm_use_merkle (n_manager nd) = m"
    using assms(1) by (simp_all add: in_cohort_def)
  obtain w' where w': "execute R (node_state nd) t = Inr w'" "same_world w' w"
    using execute_cong [OF nd(2) assms(3)] by blast
  have wf: "wf_world w'" "wf_world w"
    using execute_wf [OF nd(1) w'(1)] execute_wf [OF assms(2,3)] by simp_all
  have h: "state_hash H m w' = state_hash H m w" by (rule state_hash_cong [OF w'(2) wf])
  obtain r nd' where r: "node_execute C H R nd t = (Inr r, nd')"
    "nr_node_id r = n_node_id nd" "nr_state_hash r = reported_hash H nd w'"
    "nr_signature r = map_option (sign_result C (n_node_id nd) (reported_hash H nd w')) (n_signing_key nd)"
    "node_state nd' = w'" "n_node_id nd' = n_node_id nd" "n_malicious nd' = n_malicious nd"
    "n_signing_key nd' = n_signing_key nd" "sm_use_merkle (n_manager nd') = sm_use_merkle (n_manager nd)"
    by (rule node_execute_Inr [OF w'(1), of C H]) blast
  show ?thesis
    by (rule that [OF r(1)])
      (use r nd h wf w' in \<open>simp_all add: answers_def in_cohort_def reported_hash_def Let_def\<close>)
qed

lemma cohort_rejects:
  assumes "in_cohort m v nd" and "execute R v t = Inl e"
  shows "\<exists>e'. node_execute C H R nd t = (Inl e', nd)"
proof -
  have "same_world (node_state nd) v" using assms(1) by (simp add: in_cohort_def)
  then obtain e' where "execute R (node_state nd) t = Inl e'"
    using execute_cong_fails [OF _ assms(2)] by blast
  then show ?thesis using node_execute_Inl by blast
qed

lemma run_nodes_accepts:
  assumes "\<forall>nd\<in>set nds. in_cohort m v nd" and "wf_world v" and "execute R v t = Inr w"
  shows "\<exists>rs nds'. run_nodes C H R t nds = (Inr rs, nds') \<and> list_all2 (answers C H m w) nds rs
    \<and> (\<forall>nd\<in>set nds'. in_cohort m w nd)
    \<and> map n_node_id nds' = map n_node_id nds \<and> map n_malicious nds' = map n_malicious nds
    \<and> map n_signing_key nds' = map n_signing_key nds"
  using assms(1)
proof (induction nds)
  case (Cons nd nds)
  then have "in_cohort m v nd" by simp
  then obtain r nd' where r: "node_execute C H R nd t = (Inr r, nd')" "answers C H m w nd r"
    "in_cohort m w nd'" "n_node_id nd' = n_node_id nd" "n_malicious nd' = n_malicious nd"
    "n_signing_key nd' = n_signing_key nd"
    by (rule cohort_accepts [OF _ assms(2,3), where C = C and H = H])
  have "\<forall>nd\<in>set nds. in_cohort m v nd" using Cons.prems by simp
  from Cons.IH [OF this] obtain rs nds' where "run_nodes C H R t nds = (Inr rs, nds')"
    "list_all2 (answers C H m w) nds rs" "\<forall>nd\<in>set nds'. in_cohort m w nd"
    "map n_node_id nds' = map n_node_id nds" "map n_malicious nds' = map n_malicious nds"
    "map n_signing_key nds' = map n_signing_key nds" by blast
  with r show ?case by simp
qed simp

lemma run_nodes_rejects:
  assumes "\<forall>nd\<in>set nds. in_cohort m v nd" and "execute R v t = Inl e" and "nds \<noteq> []"
  shows "\<exists>e'. run_nodes C H R t nds = (Inl e', nds)"
proof -
  obtain nd nds' where nds: "nds = nd # nds'" using assms(3) by (cases nds) auto
  then obtain e' where "node_execute C H R nd t = (Inl e', nd)"
    using cohort_rejects [OF _ assms(2)] assms(1) by fastforce
  with nds show ?thesis by simp
qed

end

subsection \<open>What a round over a cohort decides\<close>

text \<open>
  \<open>nds\<close> answer \<open>rs\<close>, every answer counts, and more of them are honest than malicious: then the
  honest hash is agreed and the faulty nodes are the malicious ones.
\<close>

lemma cohort_counts:
  assumes "list_all2 (answers C H m w) nds rs" and "hex_digest H"
  shows "count_list (map nr_state_hash rs) (state_hash H m w) = length (filter (\<lambda>nd. \<not> n_malicious nd) nds)"
  using assms(1)
proof (induction rule: list_all2_induct)
  case (Cons nd nds r rs)
  then show ?case using corrupt_hash_differs [OF assms(2), of "state_hash H m w" m w] by (simp add: answers_def)
qed simp

lemma cohort_honest:
  assumes "list_all2 (answers C H m w) nds rs" and "hex_digest H"
  shows "map nr_node_id (filter (\<lambda>r. nr_state_hash r = state_hash H m w) rs)
      = map n_node_id (filter (\<lambda>nd. \<not> n_malicious nd) nds)
    \<and> map nr_node_id (filter (\<lambda>r. nr_state_hash r \<noteq> state_hash H m w) rs)
      = map n_node_id (filter n_malicious nds)"
  using assms(1)
proof (induction rule: list_all2_induct)
  case (Cons nd nds r rs)
  then show ?case using corrupt_hash_differs [OF assms(2), of "state_hash H m w" m w] by (auto simp: answers_def)
qed simp

definition honest_count :: "'sk node list \<Rightarrow> nat" where
  "honest_count nds = length (filter (\<lambda>nd. \<not> n_malicious nd) nds)"

definition malicious_count :: "'sk node list \<Rightarrow> nat" where
  "malicious_count nds = length (filter n_malicious nds)"

lemma honest_malicious: "honest_count nds + malicious_count nds = length nds"
  by (simp add: honest_count_def malicious_count_def sum_length_filter_compl add.commute)

lemma run_consensus_all_counted:
  assumes "\<forall>r\<in>set rs. counts_vote C pks r" and "plurality (map nr_state_hash rs) h"
  shows "cr_agreed_hash (run_consensus C rs pks t) = Some h"
    and "cr_honest_nodes (run_consensus C rs pks t) = map nr_node_id (filter (\<lambda>r. nr_state_hash r = h) rs)"
    and "cr_faulty_nodes (run_consensus C rs pks t) = map nr_node_id (filter (\<lambda>r. nr_state_hash r \<noteq> h) rs)"
    and "cr_invalid_sig_nodes (run_consensus C rs pks t) = []"
    and "cr_consensus_reached (run_consensus C rs pks t)
      \<longleftrightarrow> t * rat_of_nat (length rs) \<le> rat_of_nat (count_list (map nr_state_hash rs) h)"
proof -
  have all: "filter (counts_vote C pks) rs = rs" using assms(1) by simp
  have none: "filter (\<lambda>r. \<not> counts_vote C pks r) rs = []" using assms(1) by simp
  have c: "counted C pks rs = map nr_state_hash rs" by (simp add: counted_def all)
  have ne: "counted C pks rs \<noteq> []" using assms(2) c by (auto simp: plurality_def)
  have w: "select_winner (count_votes (counted C pks rs)) = h"
    using select_winner_iff [OF ne] assms(2) c by simp
  have f: "filter (\<lambda>r. counts_vote C pks r \<and> P r) rs = filter P rs" for P
    using assms(1) by (intro filter_cong) auto
  note run = run_consensus_some [OF ne, of t, unfolded w Let_def f none]
  show "cr_agreed_hash (run_consensus C rs pks t) = Some h"
    and "cr_honest_nodes (run_consensus C rs pks t) = map nr_node_id (filter (\<lambda>r. nr_state_hash r = h) rs)"
    and "cr_faulty_nodes (run_consensus C rs pks t) = map nr_node_id (filter (\<lambda>r. nr_state_hash r \<noteq> h) rs)"
    and "cr_invalid_sig_nodes (run_consensus C rs pks t) = []"
    by (simp_all add: run make_consensus_result_def Let_def)
  show "cr_consensus_reached (run_consensus C rs pks t)
      \<longleftrightarrow> t * rat_of_nat (length rs) \<le> rat_of_nat (count_list (map nr_state_hash rs) h)"
    unfolding consensus_reached_iff c using assms(2) plurality_unique by auto
qed

lemma cohort_round:
  assumes "list_all2 (answers C H m w) nds rs" and "hex_digest H"
    and "\<forall>r\<in>set rs. counts_vote C pks r" and "malicious_count nds < honest_count nds"
  shows "cr_agreed_hash (run_consensus C rs pks t) = Some (state_hash H m w)"
    and "cr_honest_nodes (run_consensus C rs pks t) = map n_node_id (filter (\<lambda>nd. \<not> n_malicious nd) nds)"
    and "cr_faulty_nodes (run_consensus C rs pks t) = map n_node_id (filter n_malicious nds)"
    and "cr_consensus_reached (run_consensus C rs pks t)
      \<longleftrightarrow> t * rat_of_nat (length nds) \<le> rat_of_nat (honest_count nds)"
proof -
  note len = list_all2_lengthD [OF assms(1)]
  note cnt = cohort_counts [OF assms(1,2), folded honest_count_def]
  have "plurality (map nr_state_hash rs) (state_hash H m w)"
    by (rule plurality_majority) (use assms(4) len cnt honest_malicious [of nds] in simp)
  note r = run_consensus_all_counted [OF assms(3) this, of t] and h = cohort_honest [OF assms(1,2)]
  show "cr_agreed_hash (run_consensus C rs pks t) = Some (state_hash H m w)" by (rule r(1))
  show "cr_honest_nodes (run_consensus C rs pks t) = map n_node_id (filter (\<lambda>nd. \<not> n_malicious nd) nds)"
    using r(2) h by simp
  show "cr_faulty_nodes (run_consensus C rs pks t) = map n_node_id (filter n_malicious nds)"
    using r(3) h by simp
  show "cr_consensus_reached (run_consensus C rs pks t)
      \<longleftrightarrow> t * rat_of_nat (length nds) \<le> rat_of_nat (honest_count nds)"
    using r(5) cnt len by simp
qed

text \<open>Every answer counts when the keys are those the nodes sign with.\<close>

definition keys_match :: "('sk, 'pk) crypto \<Rightarrow> 'pk dict \<Rightarrow> 'sk node \<Rightarrow> bool" where
  "keys_match C keys nd \<longleftrightarrow>
     (\<exists>sk. n_signing_key nd = Some sk \<and> dget keys (n_node_id nd) = Some (c_public_key C sk))"

lemma cohort_verified:
  assumes "list_all2 (answers C H m w) nds rs" and "signs_correctly C" and "\<forall>nd\<in>set nds. keys_match C keys nd"
  shows "\<forall>r\<in>set rs. counts_vote C (Some keys) r"
  using assms(1,3)
  by (induction rule: list_all2_induct)
    (auto simp: answers_def keys_match_def counts_vote_def result_verified_def assms(2))

subsection \<open>The network as a replicated state machine\<close>

definition world_step :: "registry \<Rightarrow> world \<Rightarrow> tx \<Rightarrow> world" where
  "world_step R w t = (case execute R w t of Inl _ \<Rightarrow> w | Inr w' \<Rightarrow> w')"

text \<open>A caller that broadcasts a list of transactions with their times and goes on after a rejection.\<close>

definition network_run ::
  "('sk, 'pk) crypto \<Rightarrow> sha256 \<Rightarrow> registry \<Rightarrow> 's audit_ops \<Rightarrow> (string \<times> tx) list \<Rightarrow> ('sk, 'pk, 's) network
     \<Rightarrow> ('sk, 'pk, 's) network" where
  "network_run C H R S ts net = foldl (\<lambda>net (now, t). snd (network_broadcast C H R S now t net)) net ts"

lemma network_broadcast_nodes:
  "nw_nodes (snd (network_broadcast C H R S now t net)) = snd (run_nodes C H R t (nw_nodes net))"
  by (auto simp: network_broadcast_def Let_def split: prod.split sum.split)

context handler_registry
begin

lemma network_broadcast_cohort:
  assumes "\<forall>nd\<in>set (nw_nodes net). in_cohort m v nd" and "wf_world v"
  shows "\<forall>nd\<in>set (nw_nodes (snd (network_broadcast C H R S now t net))). in_cohort m (world_step R v t) nd"
proof (cases "execute R v t")
  case (Inr w)
  show ?thesis
    using run_nodes_accepts [OF assms Inr, of C H]
    by (auto simp: network_broadcast_nodes world_step_def Inr)
next
  case (Inl e)
  then show ?thesis
    using assms(1) run_nodes_rejects [OF assms(1) Inl, of C H]
    by (cases "nw_nodes net = []") (auto simp: network_broadcast_nodes world_step_def)
qed

lemma world_step_wf: "wf_world v \<Longrightarrow> wf_world (world_step R v t)"
  by (auto simp: world_step_def intro: execute_wf split: sum.split)

lemma world_steps_wf: "wf_world v \<Longrightarrow> wf_world (foldl (world_step R) v ts)"
  by (induction ts arbitrary: v) (simp_all add: world_step_wf)

lemma network_run_cohort:
  "\<forall>nd\<in>set (nw_nodes net). in_cohort m v nd \<Longrightarrow> wf_world v \<Longrightarrow>
    \<forall>nd\<in>set (nw_nodes (network_run C H R S ts net)). in_cohort m (foldl (world_step R) v (map snd ts)) nd"
proof (induction ts arbitrary: net v)
  case (Cons p ts)
  obtain now t where p: "p = (now, t)" by (cases p)
  have "\<forall>nd\<in>set (nw_nodes (snd (network_broadcast C H R S now t net))). in_cohort m (world_step R v t) nd"
    by (rule network_broadcast_cohort [OF Cons.prems])
  from Cons.IH [OF this world_step_wf [OF Cons.prems(2)]] show ?case by (simp add: network_run_def p)
qed (simp add: network_run_def)

end

lemma in_cohort_init: "wf_world w \<Longrightarrow> in_cohort m w (node_init n w mal m key)"
  by (simp add: in_cohort_def node_init_def sm_init_def)

lemma in_cohort_hash:
  "in_cohort m w nd \<Longrightarrow> wf_world w \<Longrightarrow> node_state_hash H nd = state_hash H m w"
  using state_hash_cong [of "node_state nd" w H m]
  by (simp add: in_cohort_def node_state_hash_def compute_state_hash_def)

text \<open>C27. Replication: nodes started on one state and fed the same transactions all hold, after any
  number of them, the state a single executor of those transactions holds, and so the same state
  hash, whether they are honest or not, and whichever transactions were rejected.\<close>

theorem network_replicates:
  assumes "wf_world w" and "nd \<in> set (nw_nodes (network_run C H ecn_handlers S ts
      (network_init (map (\<lambda>(n, mal, key). node_init n w mal m key) cfgs) keys audit)))"
  shows "same_world (node_state nd) (foldl (world_step ecn_handlers) w (map snd ts))
    \<and> node_state_hash H' nd = state_hash H' m (foldl (world_step ecn_handlers) w (map snd ts))"
proof -
  have "\<forall>nd\<in>set (nw_nodes (network_init (map (\<lambda>(n, mal, key). node_init n w mal m key) cfgs) keys audit)).
      in_cohort m w nd"
    by (auto simp: network_init_def intro: in_cohort_init [OF assms(1)])
  from ecn.network_run_cohort [OF this assms(1), of C H S ts] assms(2)
  have nd: "in_cohort m (foldl (world_step ecn_handlers) w (map snd ts)) nd" by blast
  then show ?thesis
    using in_cohort_hash [OF nd ecn.world_steps_wf [OF assms(1)]] nd by (simp add: in_cohort_def)
qed

lemma length_run_nodes: "length (snd (run_nodes C H R t nds)) = length nds"
  by (induction nds) (auto split: prod.split sum.split)

definition example_nodes :: "(string \<times> bool \<times> string option) list" where
  "example_nodes = [(''N1'', False, None), (''N2'', True, Some ''k'')]"

theorem network_replicates_witness:
  "\<exists>nd. nd \<in> set (nw_nodes (network_run example_crypto example_sha256 ecn_handlers sqlite_audit
        [(''now'', example_transfer 100)]
        (network_init (map (\<lambda>(n, mal, key). node_init n example_world mal False key) example_nodes) None None)))
    \<and> same_world (node_state nd) (world_step ecn_handlers example_world (example_transfer 100))"
proof -
  let ?net = "network_init (map (\<lambda>(n, mal, key). node_init n example_world mal False key) example_nodes) None None
    :: (string, string, audit_table) network"
  let ?net' = "network_run example_crypto example_sha256 ecn_handlers sqlite_audit [(''now'', example_transfer 100)] ?net"
  have "length (nw_nodes ?net') = 2"
    by (simp add: network_run_def network_broadcast_nodes length_run_nodes network_init_def example_nodes_def
        del: run_nodes.simps)
  then have "hd (nw_nodes ?net') \<in> set (nw_nodes ?net')" by (intro hd_in_set) auto
  with network_replicates [OF wf_example_world this, of example_sha256] show ?thesis by auto
qed

end
