(* ===== verification/NodeHealth.thy ===== *)
theory NodeHealth
  imports Prelude Complex_Main
begin

section \<open>Node health\<close>

text \<open>
  \<open>ecn/node_health.py\<close>: the health record of a node, the registry of all of them, and the two
  operations that advance it. Clock readings are arguments in microseconds; \<open>record_success\<close>
  reads the clock twice (\<open>now\<close> for its time stamps, \<open>later\<close> inside \<open>_seconds_since\<close>). The
  quotient \<open>int(n * 0.95)\<close> is \<open>n * 95 div 100\<close>: a window has at most 20 samples, and for those
  the float product truncates to it.

  The lifecycle is the step relation \<open>health_step\<close>; the lemmas are an invariant of the records
  that every sequence of operations reaches, the edges of the lifecycle, and what exclusion and
  rehabilitation take. The locale \<open>health_tracker\<close> is what the network uses of a registry.
\<close>

datatype node_state = HEALTHY | SUSPECT | EXCLUDED | REHABILITATING

definition suspect_threshold :: nat where "suspect_threshold = 3"
definition excluded_threshold :: nat where "excluded_threshold = 5"
definition rehab_window_us :: int where "rehab_window_us = 60 * 1000000"
definition latency_window :: nat where "latency_window = 20"

lemmas health_constants =
  suspect_threshold_def excluded_threshold_def rehab_window_us_def latency_window_def

record node_health =
  h_node_id :: string
  h_state :: node_state
  h_consecutive_failures :: nat
  h_last_success_at :: "int option"
  h_excluded_since :: "int option"
  h_latency_samples :: "rat list"

definition new_health :: "string \<Rightarrow> node_health" where
  "new_health node_id = \<lparr>h_node_id = node_id, h_state = HEALTHY, h_consecutive_failures = 0,
     h_last_success_at = None, h_excluded_since = None, h_latency_samples = []\<rparr>"

definition p95_latency_ms :: "node_health \<Rightarrow> rat option" where
  "p95_latency_ms h =
     (let samples = h_latency_samples h in
      if samples = [] then None
      else
        let sorted_samples = sort samples;
            idx = length sorted_samples * 95 div 100;
            idx = min idx (length sorted_samples - 1)
        in Some (sorted_samples ! idx))"

definition health_success :: "rat \<Rightarrow> int \<Rightarrow> int \<Rightarrow> node_health \<Rightarrow> node_health" where
  "health_success latency_ms now later health =
     (let h = health\<lparr>h_latency_samples := push_bounded latency_window (h_latency_samples health) latency_ms,
                h_consecutive_failures := 0, h_last_success_at := Some now\<rparr>
      in case h_state h of
           EXCLUDED \<Rightarrow>
             (case h_excluded_since h of
                None \<Rightarrow> h
              | Some since \<Rightarrow>
                  if rehab_window_us \<le> later - since
                  then h\<lparr>h_state := REHABILITATING, h_excluded_since := None\<rparr> else h)
         | REHABILITATING \<Rightarrow> h\<lparr>h_state := HEALTHY\<rparr>
         | SUSPECT \<Rightarrow> h\<lparr>h_state := HEALTHY\<rparr>
         | HEALTHY \<Rightarrow> h\<lparr>h_state := HEALTHY\<rparr>)"

definition health_failure :: "int \<Rightarrow> node_health \<Rightarrow> node_health" where
  "health_failure now health =
     (let h = health\<lparr>h_consecutive_failures := h_consecutive_failures health + 1\<rparr> in
      if h_state h = EXCLUDED then h
      else if excluded_threshold \<le> h_consecutive_failures h then
        (if h_state h \<noteq> EXCLUDED then h\<lparr>h_state := EXCLUDED, h_excluded_since := Some now\<rparr> else h)
      else if suspect_threshold \<le> h_consecutive_failures h then
        (if h_state h \<notin> {SUSPECT, EXCLUDED} then h\<lparr>h_state := SUSPECT\<rparr> else h)
      else if h_state h = REHABILITATING then h\<lparr>h_state := SUSPECT\<rparr>
      else h)"

subsection \<open>The registry\<close>

type_synonym health_registry = "node_health dict"

definition get_or_create :: "string \<Rightarrow> health_registry \<Rightarrow> node_health \<times> health_registry" where
  "get_or_create node_id reg =
     (case dget reg node_id of
        None \<Rightarrow> (new_health node_id, dset node_id (new_health node_id) reg)
      | Some h \<Rightarrow> (h, reg))"

definition record_success :: "string \<Rightarrow> rat \<Rightarrow> int \<Rightarrow> int \<Rightarrow> health_registry \<Rightarrow> health_registry" where
  "record_success node_id latency_ms now later reg =
     (let (h, reg) = get_or_create node_id reg in dset node_id (health_success latency_ms now later h) reg)"

definition record_failure :: "string \<Rightarrow> int \<Rightarrow> health_registry \<Rightarrow> health_registry" where
  "record_failure node_id now reg =
     (let (h, reg) = get_or_create node_id reg in dset node_id (health_failure now h) reg)"

definition active_nodes :: "health_registry \<Rightarrow> string list" where
  "active_nodes reg = map fst (filter (\<lambda>(nid, h). h_state h \<noteq> EXCLUDED) reg)"

definition excluded_nodes :: "health_registry \<Rightarrow> string list" where
  "excluded_nodes reg = map fst (filter (\<lambda>(nid, h). h_state h = EXCLUDED) reg)"

text \<open>The record a registry has or would create for a node.\<close>

definition health_of :: "health_registry \<Rightarrow> string \<Rightarrow> node_health" where
  "health_of reg node_id = fst (get_or_create node_id reg)"

lemma health_of_success:
  "health_of (record_success n l t t' reg) m =
     (if m = n then health_success l t t' (health_of reg n) else health_of reg m)"
  by (auto simp: health_of_def record_success_def get_or_create_def split: option.splits)

lemma health_of_failure:
  "health_of (record_failure n t reg) m =
     (if m = n then health_failure t (health_of reg n) else health_of reg m)"
  by (auto simp: health_of_def record_failure_def get_or_create_def split: option.splits)

lemma health_of_get: "health_of (snd (get_or_create n reg)) m = health_of reg m"
  by (auto simp: health_of_def get_or_create_def split: option.splits)

lemma health_of_Nil [simp]: "health_of [] n = new_health n"
  by (simp add: health_of_def get_or_create_def)

subsection \<open>The lifecycle\<close>

text \<open>One operation on a record: a success with its latency and clock readings, or a failure.\<close>

datatype health_event = Success rat int int | Failure int

fun health_apply :: "node_health \<Rightarrow> health_event \<Rightarrow> node_health" where
  "health_apply h (Success l now later) = health_success l now later h"
| "health_apply h (Failure now) = health_failure now h"

inductive health_reach :: "string \<Rightarrow> node_health \<Rightarrow> bool" for n where
  start: "health_reach n (new_health n)"
| step: "health_reach n h \<Longrightarrow> health_reach n (health_apply h ev)"

text \<open>The documented edges.\<close>

inductive lifecycle :: "node_state \<Rightarrow> node_state \<Rightarrow> bool" where
  stays: "lifecycle s s"
| suspected: "lifecycle HEALTHY SUSPECT"
| cleared: "lifecycle SUSPECT HEALTHY"
| excluded: "lifecycle SUSPECT EXCLUDED"
| readmitted: "lifecycle EXCLUDED REHABILITATING"
| rehabilitated: "lifecycle REHABILITATING HEALTHY"
| relapsed: "lifecycle REHABILITATING SUSPECT"

code_pred lifecycle .

inductive_simps lifecycle_from [simp]:
  "lifecycle HEALTHY s" "lifecycle SUSPECT s" "lifecycle EXCLUDED s" "lifecycle REHABILITATING s"

definition health_inv :: "node_health \<Rightarrow> bool" where
  "health_inv h \<longleftrightarrow>
     (h_state h = EXCLUDED) = (h_excluded_since h \<noteq> None)
     \<and> (h_state h = HEALTHY \<longrightarrow> h_consecutive_failures h < suspect_threshold)
     \<and> (h_state h = SUSPECT \<longrightarrow> 0 < h_consecutive_failures h \<and> h_consecutive_failures h < excluded_threshold)
     \<and> (h_state h = REHABILITATING \<longrightarrow> h_consecutive_failures h = 0 \<and> h_last_success_at h \<noteq> None)
     \<and> length (h_latency_samples h) \<le> latency_window
     \<and> ((h_last_success_at h = None) = (h_latency_samples h = []))"

lemma push_bounded_nonempty: "0 < n \<Longrightarrow> push_bounded n xs x \<noteq> []"
  using length_push_bounded [of n xs x] by auto

lemma health_inv_new: "health_inv (new_health n)"
  by (simp add: health_inv_def new_health_def health_constants)

lemma health_inv_success: "health_inv h \<Longrightarrow> health_inv (health_success l now later h)"
  by (auto simp: health_inv_def health_success_def Let_def health_constants length_push_bounded
      push_bounded_nonempty split: node_state.splits option.splits)

lemma health_inv_failure: "health_inv h \<Longrightarrow> health_inv (health_failure now h)"
  by (cases "h_state h") (auto simp: health_inv_def health_failure_def Let_def health_constants)

lemma health_inv_apply: "health_inv h \<Longrightarrow> health_inv (health_apply h ev)"
  by (cases ev) (simp_all add: health_inv_success health_inv_failure)

lemma health_reach_inv: "health_reach n h \<Longrightarrow> health_inv h"
  by (induction rule: health_reach.induct) (simp_all add: health_inv_new health_inv_apply)

lemma lifecycle_success: "lifecycle (h_state h) (h_state (health_success l now later h))"
  by (cases "h_state h") (auto simp: health_success_def Let_def split: option.splits)

lemma lifecycle_failure: "health_inv h \<Longrightarrow> lifecycle (h_state h) (h_state (health_failure now h))"
  by (cases "h_state h") (auto simp: health_inv_def health_failure_def Let_def health_constants)

lemma lifecycle_apply: "health_inv h \<Longrightarrow> lifecycle (h_state h) (h_state (health_apply h ev))"
  by (cases ev) (simp_all add: lifecycle_success lifecycle_failure)

text \<open>Failures in a row: how far they take a node.\<close>

lemma failures_state:
  assumes "health_inv h"
  shows "h_consecutive_failures (foldl (\<lambda>h t. health_failure t h) h ts) = h_consecutive_failures h + length ts
    \<and> (h_state h = EXCLUDED \<longrightarrow> h_state (foldl (\<lambda>h t. health_failure t h) h ts) = EXCLUDED)"
  by (induction ts rule: rev_induct) (auto simp: health_failure_def Let_def)

lemma health_inv_failures: "health_inv h \<Longrightarrow> health_inv (foldl (\<lambda>h t. health_failure t h) h ts)"
  by (induction ts rule: rev_induct) (simp_all add: health_inv_failure)

lemma failures_exclude:
  assumes "health_inv h" and "ts \<noteq> []" and "excluded_threshold \<le> h_consecutive_failures h + length ts"
  shows "h_state (foldl (\<lambda>h t. health_failure t h) h ts) = EXCLUDED"
proof -
  let ?h = "foldl (\<lambda>h t. health_failure t h) h (butlast ts)"
  have ts: "ts = butlast ts @ [last ts]" using assms(2) by simp
  have "h_consecutive_failures ?h + 1 = h_consecutive_failures h + length ts"
    using failures_state [OF assms(1), of "butlast ts"] assms(2) by simp
  then have "h_state (health_failure (last ts) ?h) = EXCLUDED"
    using assms(3) by (simp add: health_failure_def Let_def)
  then show ?thesis by (subst ts) simp
qed

lemma window_index: "0 < n \<Longrightarrow> n \<le> 20 \<Longrightarrow> n * 95 div 100 = n - (1::nat)"
  by (rule div_nat_eqI) auto

lemma p95_is_max:
  assumes "health_inv h" and "h_latency_samples h \<noteq> []"
  shows "p95_latency_ms h = Some (Max (set (h_latency_samples h)))"
proof -
  let ?n = "length (h_latency_samples h)"
  have n: "0 < ?n" "?n \<le> 20" using assms by (auto simp: health_inv_def health_constants)
  then have "min (?n * 95 div 100) (?n - 1) = ?n - 1" by (simp add: window_index)
  moreover have ne: "sort (h_latency_samples h) \<noteq> []" using n(1) by (metis length_sort list.size(3) less_irrefl)
  moreover have "sort (h_latency_samples h) ! (?n - 1) = last (sort (h_latency_samples h))"
    using ne by (simp add: last_conv_nth)
  moreover have "last xs = Max (set xs)" if "sorted xs" "xs \<noteq> []" for xs :: "rat list"
  proof (rule Max_eqI [symmetric])
    show "x \<le> last xs" if "x \<in> set xs" for x
      using that \<open>sorted xs\<close> last_conv_nth [OF \<open>xs \<noteq> []\<close>]
      by (auto simp: sorted_iff_nth_mono in_set_conv_nth)
  qed (use that in auto)
  from this [of "sort (h_latency_samples h)"]
  have "last (sort (h_latency_samples h)) = Max (set (h_latency_samples h))" using ne by simp
  ultimately show ?thesis using assms(2) by (simp add: p95_latency_ms_def Let_def)
qed

text \<open>C37. The lifecycle of a node: whatever successes and failures are recorded for it, at whatever
  times, its record keeps the invariant (a node is excluded exactly while the time of its
  exclusion is recorded; a healthy node has fewer than three failures in a row, a suspect one
  fewer than five; at most twenty latency samples) and every operation moves it along an edge
  of the lifecycle or leaves it.\<close>

theorem health_lifecycle:
  assumes "health_reach n h"
  shows "health_inv h \<and> lifecycle (h_state h) (h_state (health_apply h ev))"
  using health_reach_inv [OF assms] lifecycle_apply by blast

theorem health_lifecycle_witness:
  "health_inv (new_health ''N'') \<and> lifecycle HEALTHY (h_state (health_apply (new_health ''N'') (Failure 0)))"
  using health_lifecycle [OF health_reach.start [of "''N''"], of "Failure 0"] by (simp add: new_health_def)

text \<open>Exclusion and rehabilitation: five failures in a row exclude a node from any reachable
  state; from then on further failures leave it excluded, successes leave it excluded for sixty
  seconds after the exclusion, and a later one starts the rehabilitation, which the next success
  completes and the next failure turns into suspicion.\<close>

lemma health_exclusion:
  assumes "health_reach n h" and "length ts = 5"
  shows "let x = foldl (\<lambda>h t. health_failure t h) h ts in
    h_state x = EXCLUDED
    \<and> h_state (health_failure t x) = EXCLUDED
    \<and> (\<exists>since. h_excluded_since x = Some since
        \<and> h_state (health_success l now later x) =
            (if later - since < 60 * 1000000 then EXCLUDED else REHABILITATING)
        \<and> (let y = health_success l now later x in
             h_state y = REHABILITATING \<longrightarrow>
               h_state (health_success l' now' later' y) = HEALTHY \<and> h_state (health_failure t' y) = SUSPECT))"
proof -
  define x where "x = foldl (\<lambda>h t. health_failure t h) h ts"
  note inv = health_reach_inv [OF assms(1)]
  have ex: "h_state x = EXCLUDED"
    unfolding x_def by (rule failures_exclude [OF inv]) (use assms(2) in \<open>auto simp: health_constants\<close>)
  moreover obtain since where "h_excluded_since x = Some since"
    using ex health_inv_failures [OF inv, of ts] by (auto simp: health_inv_def x_def)
  ultimately show ?thesis
    unfolding x_def [symmetric] Let_def
    by (intro conjI exI [of _ since])
      (auto simp: health_failure_def health_success_def Let_def health_constants)
qed

lemma health_exclusion_example:
  "h_state (foldl (\<lambda>h t. health_failure t h) (new_health ''N'') [1, 2, 3, 4, 5]) = EXCLUDED"
  using health_exclusion [OF health_reach.start [of "''N''"], of "[1, 2, 3, 4, 5]"]
  by (simp only: Let_def) simp

text \<open>The 95th percentile the registry reports is the largest latency of its window: with at most
  twenty samples the index never falls below the last one.\<close>

lemma p95_is_the_maximum:
  assumes "health_reach n h"
  shows "p95_latency_ms h =
    (if h_latency_samples h = [] then None else Some (Max (set (h_latency_samples h))))"
  using p95_is_max [OF health_reach_inv [OF assms]] by (simp add: p95_latency_ms_def)

lemma p95_is_the_maximum_example:
  "p95_latency_ms (health_apply (health_apply (new_health ''N'') (Success 7 0 0)) (Success 5 1 1)) = Some 7"
  using p95_is_the_maximum [OF health_reach.step [OF health_reach.step [OF health_reach.start [of "''N''"],
      of "Success 7 0 0"], of "Success 5 1 1"]]
  by (simp add: health_success_def new_health_def push_bounded_def Let_def health_constants)

subsection \<open>What the network uses of a registry\<close>

text \<open>
  The network reads states and records the outcome of each node it contacted; the operations
  on one node leave every other node's state alone.
\<close>

locale health_tracker =
  fixes state_of :: "'r \<Rightarrow> string \<Rightarrow> node_state"
    and success :: "string \<Rightarrow> rat \<Rightarrow> int \<Rightarrow> int \<Rightarrow> 'r \<Rightarrow> 'r"
    and failure :: "string \<Rightarrow> int \<Rightarrow> 'r \<Rightarrow> 'r"
  assumes success_frame: "m \<noteq> n \<Longrightarrow> state_of (success n l t t' reg) m = state_of reg m"
    and failure_frame: "m \<noteq> n \<Longrightarrow> state_of (failure n t reg) m = state_of reg m"
begin

definition outcome :: "'r \<Rightarrow> string \<times> (rat option) \<times> int \<times> int \<Rightarrow> 'r" where
  "outcome reg ev = (case ev of (n, None, t, t') \<Rightarrow> failure n t reg | (n, Some l, t, t') \<Rightarrow> success n l t t' reg)"

lemma outcomes_frame:
  "m \<notin> fst ` set evs \<Longrightarrow> state_of (foldl outcome reg evs) m = state_of reg m"
  by (induction evs arbitrary: reg) (auto simp: outcome_def success_frame failure_frame split: option.splits)

end

interpretation health: health_tracker "\<lambda>reg n. h_state (health_of reg n)" record_success record_failure
  by unfold_locales (simp_all add: health_of_success health_of_failure)

text \<open>Every record of a registry belongs to its key and is reachable.\<close>

definition registry_ok :: "health_registry \<Rightarrow> bool" where
  "registry_ok reg \<longleftrightarrow> wf_dict reg \<and> (\<forall>n. health_reach n (health_of reg n))"

lemma registry_ok_Nil: "registry_ok []"
  by (simp add: registry_ok_def health_reach.start)

lemma registry_ok_success: "registry_ok reg \<Longrightarrow> registry_ok (record_success n l t t' reg)"
  using health_reach.step [of n "health_of reg n" "Success l t t'"]
  by (auto simp: registry_ok_def health_of_success)
    (auto simp: record_success_def get_or_create_def split: option.split)

lemma registry_ok_failure: "registry_ok reg \<Longrightarrow> registry_ok (record_failure n t reg)"
  using health_reach.step [of n "health_of reg n" "Failure t"]
  by (auto simp: registry_ok_def health_of_failure)
    (auto simp: record_failure_def get_or_create_def split: option.split)

lemma registry_ok_get: "registry_ok reg \<Longrightarrow> registry_ok (snd (get_or_create n reg))"
  by (auto simp: registry_ok_def health_of_get) (auto simp: get_or_create_def split: option.split)

end
