(* ===== verification/P2PNetwork.thy ===== *)
theory P2PNetwork
  imports Network NodeHealth
begin

section \<open>The TCP network\<close>

text \<open>
  \<open>ecn/node_server.py\<close> and \<open>ecn/p2p_network.py\<close>: a server around a node with its own key, and
  the broadcast to all servers that are not excluded. The environment decides for each server
  whether the request and the response get through (\<open>delivery\<close>: a connection that fails or
  times out before the server read the request, a response that is lost or too late after the
  server executed it, or a response with its latency); the servers are independent, so the
  order in which \<open>asyncio.gather\<close> interleaves them does not show. JSON over the wire is the
  identity on the values sent (\<open>json_dumps_unique\<close>). Clock readings are arguments.

  The lemmas show what a broadcast decides when the servers that answer hold one state, that
  it records exactly the rounds it returns, what the health registry learns from it, and that
  an excluded server is never contacted again.
\<close>

record 'sk server =
  sv_node :: "'sk node"
  sv_private_key :: 'sk

definition server_init :: "string \<Rightarrow> world \<Rightarrow> bool \<Rightarrow> 'sk \<Rightarrow> 'sk server" where
  "server_init node_id initial_state malicious private_key =
     \<lparr>sv_node = node_init node_id initial_state malicious False (Some private_key),
      sv_private_key = private_key\<rparr>"

abbreviation sv_node_id :: "'sk server \<Rightarrow> string" where
  "sv_node_id s \<equiv> n_node_id (sv_node s)"

datatype wire_response = Wire_result string string "string option" | Wire_error exec_error

definition handle_client ::
  "('sk, 'pk) crypto \<Rightarrow> sha256 \<Rightarrow> registry \<Rightarrow> tx \<Rightarrow> 'sk server \<Rightarrow> wire_response \<times> 'sk server" where
  "handle_client C H R t s =
     (case node_execute C H R (sv_node s) t of
        (Inl e, nd) \<Rightarrow> (Wire_error e, s\<lparr>sv_node := nd\<rparr>)
      | (Inr r, nd) \<Rightarrow> (Wire_result (nr_node_id r) (nr_state_hash r) (nr_signature r), s\<lparr>sv_node := nd\<rparr>))"

datatype delivery = Delivered rat | Lost_before | Lost_after

text \<open>\<open>None\<close> is any exception of \<open>_send_to_server\<close>.\<close>

definition send_to_server ::
  "('sk, 'pk) crypto \<Rightarrow> sha256 \<Rightarrow> registry \<Rightarrow> tx \<Rightarrow> delivery \<Rightarrow> 'sk server
     \<Rightarrow> (node_result \<times> rat) option \<times> 'sk server" where
  "send_to_server C H R t d s =
     (case d of
        Lost_before \<Rightarrow> (None, s)
      | Lost_after \<Rightarrow> (None, snd (handle_client C H R t s))
      | Delivered latency_ms \<Rightarrow>
          (case handle_client C H R t s of
             (Wire_error _, s') \<Rightarrow> (None, s')
           | (Wire_result node_id hash sig, s') \<Rightarrow>
               (Some (\<lparr>nr_node_id = node_id, nr_state_hash = hash, nr_result_state = None,
                       nr_trace_entry = None, nr_signature = sig\<rparr>, latency_ms), s')))"

record ('sk, 'pk, 's) p2p =
  p_servers :: "'sk server list"
  p_audit_log :: "'s audit_log option"
  p_quorum_threshold :: rat
  p_min_responses :: int
  p_public_keys :: "'pk dict"
  p_history :: "(tx \<times> node_result list \<times> consensus_result) list"
  p_health :: health_registry

text \<open>\<open>parse_float\<close> is Python's \<open>float\<close> on the text, \<open>None\<close> for what is not a finite number.\<close>

definition get_quorum_threshold :: "(string \<Rightarrow> rat option) \<Rightarrow> string option \<Rightarrow> rat" where
  "get_quorum_threshold parse_float env =
     (let raw = strip (case env of None \<Rightarrow> [] | Some s \<Rightarrow> s) in
      if raw \<noteq> [] then
        (case parse_float raw of
           Some val \<Rightarrow> if 0 < val \<and> val \<le> 1 then val else default_quorum_threshold
         | None \<Rightarrow> default_quorum_threshold)
      else default_quorum_threshold)"

definition p2p_init ::
  "('sk, 'pk) crypto \<Rightarrow> 'sk server list \<Rightarrow> 's audit_log option \<Rightarrow> rat \<Rightarrow> rat option \<Rightarrow> int option
     \<Rightarrow> health_registry option \<Rightarrow> ('sk, 'pk, 's) p2p" where
  "p2p_init C servers audit env_threshold quorum_threshold min_responses health =
     \<lparr>p_servers = servers, p_audit_log = audit,
      p_quorum_threshold = (case quorum_threshold of Some t \<Rightarrow> t | None \<Rightarrow> env_threshold),
      p_min_responses = (case min_responses of Some m \<Rightarrow> m | None \<Rightarrow> 1),
      p_public_keys = foldl (\<lambda>d s. dset (sv_node_id s) (c_public_key C (sv_private_key s)) d) [] servers,
      p_history = [],
      p_health = foldl (\<lambda>reg s. snd (get_or_create (sv_node_id s) reg))
        (case health of Some h \<Rightarrow> h | None \<Rightarrow> []) servers\<rparr>"

text \<open>
  \<open>create\<close>: a server for each config, which names a node and may mark it as malicious; the
  keys are what \<open>generate_keypair\<close> returned for each.
\<close>

definition p2p_create ::
  "('sk, 'pk) crypto \<Rightarrow> (string \<times> bool option) list \<Rightarrow> 'sk list \<Rightarrow> world \<Rightarrow> 's audit_log option \<Rightarrow> rat
     \<Rightarrow> rat option \<Rightarrow> int option \<Rightarrow> health_registry option \<Rightarrow> ('sk, 'pk, 's) p2p" where
  "p2p_create C node_configs private_keys initial_state audit env_threshold quorum_threshold min_responses health =
     p2p_init C
       (map (\<lambda>((node_id, mal), sk). server_init node_id initial_state (mal = Some True) sk)
         (zip node_configs private_keys))
       audit env_threshold quorum_threshold min_responses health"

text \<open>The loop over the responses: failures and successes go to the health registry.\<close>

fun settle ::
  "(string \<Rightarrow> int \<times> int) \<Rightarrow> (string \<times> (node_result \<times> rat) option) list \<Rightarrow> health_registry
     \<Rightarrow> node_result list \<times> health_registry" where
  "settle clock [] health = ([], health)"
| "settle clock ((node_id, None) # rest) health =
     settle clock rest (record_failure node_id (fst (clock node_id)) health)"
| "settle clock ((node_id, Some (r, latency_ms)) # rest) health =
     (let (rs, health') =
        settle clock rest (record_success node_id latency_ms (fst (clock node_id)) (snd (clock node_id)) health)
      in (r # rs, health'))"

datatype broadcast_error = InsufficientQuorum nat nat int

definition participates :: "health_registry \<Rightarrow> 'sk server \<Rightarrow> bool" where
  "participates health s \<longleftrightarrow> h_state (health_of health (sv_node_id s)) \<noteq> EXCLUDED"

definition p2p_broadcast ::
  "('sk, 'pk) crypto \<Rightarrow> sha256 \<Rightarrow> registry \<Rightarrow> 's audit_ops \<Rightarrow> string \<Rightarrow> (string \<Rightarrow> int \<times> int)
     \<Rightarrow> (string \<Rightarrow> delivery) \<Rightarrow> tx \<Rightarrow> ('sk, 'pk, 's) p2p
     \<Rightarrow> (broadcast_error + node_result list \<times> consensus_result) \<times> ('sk, 'pk, 's) p2p" where
  "p2p_broadcast C H R S now clock env t net =
     (let health = foldl (\<lambda>reg s. snd (get_or_create (sv_node_id s) reg)) (p_health net) (p_servers net);
          participating = filter (participates (p_health net)) (p_servers net);
          raw = map (\<lambda>s. (sv_node_id s, fst (send_to_server C H R t (env (sv_node_id s)) s))) participating;
          servers = map (\<lambda>s. if participates (p_health net) s
                     then snd (send_to_server C H R t (env (sv_node_id s)) s) else s) (p_servers net);
          (results, health) = settle clock raw health;
          net = net\<lparr>p_servers := servers, p_health := health\<rparr>
      in if int (length results) < p_min_responses net then
           (Inl (InsufficientQuorum (length results) (length (p_servers net)) (p_min_responses net)), net)
         else
           let cr = run_consensus C results (Some (p_public_keys net)) (p_quorum_threshold net)
           in (Inr (results, cr),
               net\<lparr>p_history := p_history net @ [(t, results, cr)],
                 p_audit_log := map_option (\<lambda>al. snd (audit_record S now (tx_json t) results cr al))
                   (p_audit_log net)\<rparr>))"

subsection \<open>One broadcast\<close>

definition p2p_raw ::
  "('sk, 'pk) crypto \<Rightarrow> sha256 \<Rightarrow> registry \<Rightarrow> (string \<Rightarrow> delivery) \<Rightarrow> tx \<Rightarrow> ('sk, 'pk, 's) p2p
     \<Rightarrow> (string \<times> (node_result \<times> rat) option) list" where
  "p2p_raw C H R env t net = map (\<lambda>s. (sv_node_id s, fst (send_to_server C H R t (env (sv_node_id s)) s)))
     (filter (participates (p_health net)) (p_servers net))"

definition p2p_results ::
  "('sk, 'pk) crypto \<Rightarrow> sha256 \<Rightarrow> registry \<Rightarrow> (string \<Rightarrow> delivery) \<Rightarrow> tx \<Rightarrow> ('sk, 'pk, 's) p2p
     \<Rightarrow> node_result list" where
  "p2p_results C H R env t net = List.map_filter (\<lambda>(n, r). map_option fst r) (p2p_raw C H R env t net)"

lemma settle_results: "fst (settle clock raw reg) = List.map_filter (\<lambda>(n, r). map_option fst r) raw"
  by (induction clock raw reg rule: settle.induct) (auto simp: map_filter_simps split: prod.split)

lemma settle_health:
  "snd (settle clock raw reg) = foldl health.outcome reg
     (map (\<lambda>(n, r). (n, map_option snd r, clock n)) raw)"
proof (induction clock raw reg rule: settle.induct)
  case (2 clock n rest reg)
  then show ?case by (cases "clock n") (simp add: health.outcome_def)
next
  case (3 clock n r l rest reg)
  then show ?case by (cases "clock n") (auto simp: health.outcome_def split: prod.split)
qed simp

lemma health_of_gets:
  "health_of (foldl (\<lambda>reg s. snd (get_or_create (sv_node_id s) reg)) reg servers) n = health_of reg n"
  by (induction servers arbitrary: reg) (simp_all add: health_of_get)

lemma snd_settle:
  "snd (settle clock [] reg) = reg"
  "snd (settle clock ((k, None) # rest) reg) = snd (settle clock rest (record_failure k (fst (clock k)) reg))"
  "snd (settle clock ((k, Some (r, l)) # rest) reg) =
     snd (settle clock rest (record_success k l (fst (clock k)) (snd (clock k)) reg))"
  by (simp_all split: prod.split)

lemma settle_frame:
  "n \<notin> fst ` set raw \<Longrightarrow> health_of (snd (settle clock raw reg)) n = health_of reg n"
  by (induction clock raw reg rule: settle.induct)
    (simp_all add: snd_settle health_of_failure health_of_success del: settle.simps)

lemma settle_failed:
  assumes "distinct (map fst raw)" and "(n, None) \<in> set raw"
  shows "health_of (snd (settle clock raw reg)) n = health_failure (fst (clock n)) (health_of reg n)"
  using assms
proof (induction clock raw reg rule: settle.induct)
  case (2 clock k rest reg)
  show ?case
  proof (cases "n = k")
    case True
    then show ?thesis
      using 2(2) settle_frame [of k rest clock "record_failure k (fst (clock k)) reg"]
      by (simp add: snd_settle health_of_failure del: settle.simps)
  next
    case False
    with 2 show ?thesis by (simp add: snd_settle health_of_failure del: settle.simps)
  qed
next
  case (3 clock k r l rest reg)
  then have "n \<noteq> k" by (auto intro: rev_image_eqI)
  with 3 show ?case by (simp add: snd_settle health_of_success del: settle.simps)
qed simp

text \<open>The parts of what a broadcast returns.\<close>

lemma p2p_broadcast_servers:
  "p_servers (snd (p2p_broadcast C H R S now clock env t net)) =
     map (\<lambda>s. if participates (p_health net) s
           then snd (send_to_server C H R t (env (sv_node_id s)) s) else s) (p_servers net)"
  by (auto simp: p2p_broadcast_def Let_def split: prod.split)

lemma p2p_broadcast_fields:
  "p_public_keys (snd (p2p_broadcast C H R S now clock env t net)) = p_public_keys net"
  "p_quorum_threshold (snd (p2p_broadcast C H R S now clock env t net)) = p_quorum_threshold net"
  "p_min_responses (snd (p2p_broadcast C H R S now clock env t net)) = p_min_responses net"
  by (auto simp: p2p_broadcast_def Let_def split: prod.split)

lemma p2p_broadcast_health:
  "health_of (p_health (snd (p2p_broadcast C H R S now clock env t net))) n =
     health_of (snd (settle clock (p2p_raw C H R env t net)
       (foldl (\<lambda>reg s. snd (get_or_create (sv_node_id s) reg)) (p_health net) (p_servers net)))) n"
  by (auto simp: p2p_broadcast_def p2p_raw_def Let_def split: prod.split)

lemma p2p_broadcast_result:
  "fst (p2p_broadcast C H R S now clock env t net) =
     (let rs = p2p_results C H R env t net in
      if int (length rs) < p_min_responses net
      then Inl (InsufficientQuorum (length rs) (length (p_servers net)) (p_min_responses net))
      else Inr (rs, run_consensus C rs (Some (p_public_keys net)) (p_quorum_threshold net)))"
  using settle_results [of clock "p2p_raw C H R env t net"
    "foldl (\<lambda>reg s. snd (get_or_create (sv_node_id s) reg)) (p_health net) (p_servers net)"]
  by (auto simp: p2p_broadcast_def p2p_results_def Let_def p2p_raw_def split: prod.split)

lemma p2p_broadcast_trail:
  assumes "p2p_broadcast C H R S now clock env t net = (Inr (rs, cr), net')"
  shows "p_history net' = p_history net @ [(t, rs, cr)]"
    and "p_audit_log net' = map_option (\<lambda>al. snd (audit_record S now (tx_json t) rs cr al)) (p_audit_log net)"
  using assms by (auto simp: p2p_broadcast_def Let_def split: prod.splits if_splits)

lemma p2p_broadcast_no_trail:
  assumes "p2p_broadcast C H R S now clock env t net = (Inl e, net')"
  shows "p_history net' = p_history net" and "p_audit_log net' = p_audit_log net"
  using assms by (auto simp: p2p_broadcast_def Let_def split: prod.splits if_splits)

subsection \<open>The network's own invariant\<close>

definition p2p_inv :: "('sk, 'pk) crypto \<Rightarrow> ('sk, 'pk, 's) p2p \<Rightarrow> bool" where
  "p2p_inv C net \<longleftrightarrow> distinct (map sv_node_id (p_servers net))
     \<and> (\<forall>s\<in>set (p_servers net). keys_match C (p_public_keys net) (sv_node s))
     \<and> (\<forall>n. health_reach n (health_of (p_health net) n))"

lemma server_after_node:
  "n_node_id (sv_node (snd (handle_client C H R t s))) = sv_node_id s
   \<and> n_malicious (sv_node (snd (handle_client C H R t s))) = n_malicious (sv_node s)
   \<and> n_signing_key (sv_node (snd (handle_client C H R t s))) = n_signing_key (sv_node s)"
proof -
  have "sv_node (snd (handle_client C H R t s)) = snd (node_execute C H R (sv_node s) t)"
    by (auto simp: handle_client_def split: prod.split sum.split)
  then show ?thesis by (simp add: node_execute_node)
qed

lemma server_after_send:
  "n_node_id (sv_node (snd (send_to_server C H R t d s))) = sv_node_id s"
  "n_malicious (sv_node (snd (send_to_server C H R t d s))) = n_malicious (sv_node s)"
  "n_signing_key (sv_node (snd (send_to_server C H R t d s))) = n_signing_key (sv_node s)"
proof -
  have "snd (send_to_server C H R t d s) \<in> {s, snd (handle_client C H R t s)}"
    by (auto simp: send_to_server_def split: delivery.splits prod.splits wire_response.splits)
  then show "n_node_id (sv_node (snd (send_to_server C H R t d s))) = sv_node_id s"
    and "n_malicious (sv_node (snd (send_to_server C H R t d s))) = n_malicious (sv_node s)"
    and "n_signing_key (sv_node (snd (send_to_server C H R t d s))) = n_signing_key (sv_node s)"
    using server_after_node [of C H R t s] by auto
qed

lemma health_reach_success: "health_reach n h \<Longrightarrow> health_reach n (health_success l t t' h)"
  using health_reach.step [of n h "Success l t t'"] by simp

lemma health_reach_failure: "health_reach n h \<Longrightarrow> health_reach n (health_failure t h)"
  using health_reach.step [of n h "Failure t"] by simp

lemma settle_reach:
  "\<forall>n. health_reach n (health_of reg n) \<Longrightarrow> \<forall>n. health_reach n (health_of (snd (settle clock raw reg)) n)"
  by (induction clock raw reg rule: settle.induct)
    (simp_all add: snd_settle health_of_failure health_of_success health_reach_success
      health_reach_failure del: settle.simps)

lemma p2p_inv_broadcast: "p2p_inv C net \<Longrightarrow> p2p_inv C (snd (p2p_broadcast C H R S now clock env t net))"
proof -
  assume inv: "p2p_inv C net"
  let ?net = "snd (p2p_broadcast C H R S now clock env t net)"
  have "map sv_node_id (p_servers ?net) = map sv_node_id (p_servers net)"
    by (simp add: p2p_broadcast_servers server_after_send)
  then have "distinct (map sv_node_id (p_servers ?net))" using inv by (simp only: p2p_inv_def)
  moreover have "\<forall>s\<in>set (p_servers ?net). keys_match C (p_public_keys ?net) (sv_node s)"
    using inv by (auto simp: p2p_inv_def p2p_broadcast_fields p2p_broadcast_servers keys_match_def server_after_send)
  moreover have "\<forall>n. health_reach n (health_of (p_health ?net) n)"
    unfolding p2p_broadcast_health by (rule settle_reach) (use inv in \<open>simp add: p2p_inv_def health_of_gets\<close>)
  ultimately show ?thesis by (simp add: p2p_inv_def)
qed

text \<open>\<open>create\<close> with distinct node ids and one key each establishes it.\<close>

lemma dget_key_dict:
  "distinct (map f xs) \<Longrightarrow> x \<in> set xs \<Longrightarrow> dget (foldl (\<lambda>d s. dset (f s) (g s) d) [] xs) (f x) = Some (g x)"
proof (induction xs rule: rev_induct)
  case (snoc y xs)
  then have "f x \<noteq> f y \<or> x = y" by (auto intro: rev_image_eqI)
  with snoc show ?case by auto
qed simp

lemma p2p_inv_create:
  assumes "distinct (map fst cfgs)" and "length sks = length cfgs"
  shows "p2p_inv C (p2p_create C cfgs sks w audit env_t q m None)"
proof -
  let ?servers = "map (\<lambda>((n, mal), sk). server_init n w (mal = Some True) sk) (zip cfgs sks)"
  have ids: "map sv_node_id ?servers = map fst cfgs"
    using assms(2) by (induction cfgs sks rule: list_induct2') (auto simp: server_init_def node_init_def)
  have keys: "n_signing_key (sv_node s) = Some (sv_private_key s)" if "s \<in> set ?servers" for s
    using that by (auto simp: server_init_def node_init_def)
  show ?thesis
    unfolding p2p_inv_def p2p_create_def p2p_init_def
    using assms(1) ids keys dget_key_dict [of sv_node_id ?servers _ "\<lambda>s. c_public_key C (sv_private_key s)"]
    by (auto simp: keys_match_def health_of_gets health_reach.start)
qed

subsection \<open>What a broadcast decides\<close>

text \<open>The servers that are contacted and whose response gets through.\<close>

definition reaches :: "(string \<Rightarrow> delivery) \<Rightarrow> 'sk server \<Rightarrow> bool" where
  "reaches env s \<longleftrightarrow> (\<exists>l. env (sv_node_id s) = Delivered l)"

definition responders :: "(string \<Rightarrow> delivery) \<Rightarrow> ('sk, 'pk, 's) p2p \<Rightarrow> 'sk node list" where
  "responders env net = map sv_node
     (filter (\<lambda>s. participates (p_health net) s \<and> reaches env s) (p_servers net))"

lemma send_delivered:
  "send_to_server C H R t (Delivered l) s =
     (case node_execute C H R (sv_node s) t of
        (Inl e, nd) \<Rightarrow> (None, s\<lparr>sv_node := nd\<rparr>)
      | (Inr r, nd) \<Rightarrow> (Some (r\<lparr>nr_result_state := None, nr_trace_entry := None\<rparr>, l), s\<lparr>sv_node := nd\<rparr>))"
  by (auto simp: send_to_server_def handle_client_def split: prod.split sum.split)

context handler_registry
begin

lemma p2p_results_accepts:
  assumes "\<forall>nd\<in>set (responders env net). in_cohort m v nd" and "wf_world v" and "execute R v t = Inr w"
  shows "list_all2 (answers C H m w) (responders env net) (p2p_results C H R env t net)"
proof -
  have "list_all2 (answers C H m w) (map sv_node (filter (\<lambda>s. participates hl s \<and> reaches env s) ss))
      (List.map_filter (\<lambda>(n, r). map_option fst r)
        (map (\<lambda>s. (sv_node_id s, fst (send_to_server C H R t (env (sv_node_id s)) s)))
          (filter (participates hl) ss)))"
    if "\<forall>nd\<in>set (map sv_node (filter (\<lambda>s. participates hl s \<and> reaches env s) ss)). in_cohort m v nd" for hl ss
    using that
  proof (induction ss)
    case (Cons s ss)
    show ?case
    proof (cases "participates hl s \<and> reaches env s")
      case True
      then obtain l where l: "env (sv_node_id s) = Delivered l" by (auto simp: reaches_def)
      have "in_cohort m v (sv_node s)" using Cons.prems True by simp
      then obtain r nd' where "node_execute C H R (sv_node s) t = (Inr r, nd')" "answers C H m w (sv_node s) r"
        by (rule cohort_accepts [OF _ assms(2,3), where C = C and H = H])
      with Cons l True show ?thesis by (simp add: map_filter_simps send_delivered answers_def)
    next
      case False
      then have "participates hl s \<Longrightarrow> fst (send_to_server C H R t (env (sv_node_id s)) s) = None"
        by (cases "env (sv_node_id s)") (auto simp: reaches_def send_to_server_def)
      with Cons False show ?thesis by (auto simp: map_filter_simps)
    qed
  qed (simp add: map_filter_simps)
  then show ?thesis using assms(1) by (simp add: responders_def p2p_results_def p2p_raw_def)
qed

lemma send_rejects:
  assumes "in_cohort m v (sv_node s)" and "execute R v t = Inl e"
  shows "send_to_server C H R t d s = (None, s)"
proof -
  obtain e' where "node_execute C H R (sv_node s) t = (Inl e', sv_node s)"
    using cohort_rejects [OF assms] by blast
  then show ?thesis by (simp add: send_to_server_def handle_client_def split: delivery.split)
qed

end

lemma responders_keys: "p2p_inv C net \<Longrightarrow> \<forall>nd\<in>set (responders env net). keys_match C (p_public_keys net) nd"
  by (auto simp: p2p_inv_def responders_def)

lemma p2p_decides:
  assumes "hex_digest H" and "signs_correctly C" and "p2p_inv C net" and "wf_world v"
    and "\<forall>nd\<in>set (responders env net). in_cohort m v nd"
    and "execute ecn_handlers v t = Inr w"
    and "malicious_count (responders env net) < honest_count (responders env net)"
    and "p_min_responses net \<le> int (length (responders env net))"
  shows "\<exists>rs cr. fst (p2p_broadcast C H ecn_handlers S now clock env t net) = Inr (rs, cr)
    \<and> length rs = length (responders env net)
    \<and> cr_agreed_hash cr = Some (state_hash H m w)
    \<and> cr_honest_nodes cr = map n_node_id (filter (\<lambda>nd. \<not> n_malicious nd) (responders env net))
    \<and> cr_faulty_nodes cr = map n_node_id (filter n_malicious (responders env net))
    \<and> (cr_consensus_reached cr \<longleftrightarrow>
        p_quorum_threshold net * rat_of_nat (length (responders env net))
          \<le> rat_of_nat (honest_count (responders env net)))"
proof -
  note ans = ecn.p2p_results_accepts [OF assms(5,4,6), of C H]
  note ver = cohort_verified [OF ans assms(2) responders_keys [OF assms(3)]]
  note round = cohort_round [OF ans assms(1) ver assms(7), of "p_quorum_threshold net"]
  have len: "length (p2p_results C H ecn_handlers env t net) = length (responders env net)"
    using list_all2_lengthD [OF ans] by simp
  then have "fst (p2p_broadcast C H ecn_handlers S now clock env t net) =
      Inr (p2p_results C H ecn_handlers env t net,
        run_consensus C (p2p_results C H ecn_handlers env t net) (Some (p_public_keys net)) (p_quorum_threshold net))"
    using assms(8) by (simp add: p2p_broadcast_result Let_def)
  with round len show ?thesis by blast
qed

text \<open>C4. A broadcast decides for the honest: when the servers that answer hold one state, on which
  the transaction succeeds, more of them are honest than malicious and they are as many as the
  network requires, then the agreed hash is the hash of the state the transaction leads to, the
  honest servers are reported as honest, exactly the malicious ones as faulty, and the quorum is
  reached when the honest share is at least the threshold. What other servers do, whether their
  messages are lost and what the malicious ones report plays no part.\<close>

theorem p2p_broadcast_decides:
  assumes "hex_digest H" and "signs_correctly C" and "p2p_inv C net" and "wf_world v"
    and "\<forall>nd\<in>set (responders env net). in_cohort m v nd"
    and "execute ecn_handlers v t = Inr w"
    and "malicious_count (responders env net) < honest_count (responders env net)"
    and "p_min_responses net \<le> int (length (responders env net))"
  shows "\<exists>rs cr. fst (p2p_broadcast C H ecn_handlers S now clock env t net) = Inr (rs, cr)
    \<and> cr_agreed_hash cr = Some (state_hash H m w)
    \<and> cr_honest_nodes cr = map n_node_id (filter (\<lambda>nd. \<not> n_malicious nd) (responders env net))
    \<and> cr_faulty_nodes cr = map n_node_id (filter n_malicious (responders env net))
    \<and> (cr_consensus_reached cr \<longleftrightarrow>
        p_quorum_threshold net * rat_of_nat (length (responders env net))
          \<le> rat_of_nat (honest_count (responders env net)))"
  using p2p_decides [OF assms, of S now clock] by blast

subsection \<open>What the health registry learns\<close>

type_synonym p2p_round = "string \<times> (string \<Rightarrow> int \<times> int) \<times> (string \<Rightarrow> delivery) \<times> tx"

definition p2p_run ::
  "('sk, 'pk) crypto \<Rightarrow> sha256 \<Rightarrow> registry \<Rightarrow> 's audit_ops \<Rightarrow> p2p_round list \<Rightarrow> ('sk, 'pk, 's) p2p \<Rightarrow> ('sk, 'pk, 's) p2p" where
  "p2p_run C H R S rounds net =
     foldl (\<lambda>net (now, clock, env, t). snd (p2p_broadcast C H R S now clock env t net)) net rounds"

lemma p2p_excluded_step:
  assumes "\<not> participates (p_health net) s" and "s \<in> set (p_servers net)"
  shows "\<not> participates (p_health (snd (p2p_broadcast C H R S now clock env t net))) s
    \<and> s \<in> set (p_servers (snd (p2p_broadcast C H R S now clock env t net)))"
proof -
  have "sv_node_id s \<notin> fst ` set (p2p_raw C H R env t net)"
    using assms(1) by (auto simp: p2p_raw_def participates_def)
  then have "health_of (p_health (snd (p2p_broadcast C H R S now clock env t net))) (sv_node_id s)
      = health_of (p_health net) (sv_node_id s)"
    by (simp add: p2p_broadcast_health settle_frame health_of_gets)
  with assms show ?thesis by (force simp: participates_def p2p_broadcast_servers)
qed

lemma p2p_inv_run: "p2p_inv C net \<Longrightarrow> p2p_inv C (p2p_run C H R S rounds net)"
  unfolding p2p_run_def by (induction rounds arbitrary: net) (auto simp: p2p_inv_broadcast)

text \<open>C36. Exclusion is for good: a server the registry has excluded takes part in no later broadcast,
  whatever is broadcast and however long after, and its node stays as it was. Only a success
  recorded for it could readmit it, and no broadcast records one.\<close>

theorem p2p_exclusion_permanent:
  assumes "s \<in> set (p_servers net)" and "\<not> participates (p_health net) s"
  shows "s \<in> set (p_servers (p2p_run C H R S rounds net))
    \<and> \<not> participates (p_health (p2p_run C H R S rounds net)) s"
  using assms
proof (induction rounds arbitrary: net)
  case (Cons rd rounds)
  then show ?case
    using p2p_excluded_step [of net s C H R S] by (cases rd) (auto simp: p2p_run_def)
qed (simp add: p2p_run_def)

text \<open>A rejected transaction: no response, no round, a failure for every server contacted.\<close>

definition p2p_cohort :: "bool \<Rightarrow> world \<Rightarrow> ('sk, 'pk, 's) p2p \<Rightarrow> bool" where
  "p2p_cohort m v net \<longleftrightarrow> (\<forall>s\<in>set (p_servers net). in_cohort m v (sv_node s))"

lemma map_filter_none: "\<forall>x\<in>set xs. f x = None \<Longrightarrow> List.map_filter f xs = []"
  by (induction xs) (simp_all add: map_filter_simps)

context handler_registry
begin

lemma p2p_rejected:
  assumes "p2p_cohort m v net" and "execute R v t = Inl e"
  shows "p_servers (snd (p2p_broadcast C H R S now clock env t net)) = p_servers net"
    and "p2p_results C H R env t net = []"
    and "p2p_raw C H R env t net = map (\<lambda>s. (sv_node_id s, None)) (filter (participates (p_health net)) (p_servers net))"
proof -
  have send: "send_to_server C H R t d s = (None, s)" if "s \<in> set (p_servers net)" for d s
    using that assms(1) by (intro send_rejects [where m = m, OF _ assms(2)]) (simp add: p2p_cohort_def)
  then show "p_servers (snd (p2p_broadcast C H R S now clock env t net)) = p_servers net"
    by (simp add: p2p_broadcast_servers map_idI)
  show "p2p_raw C H R env t net = map (\<lambda>s. (sv_node_id s, None)) (filter (participates (p_health net)) (p_servers net))"
    by (simp add: p2p_raw_def send)
  then show "p2p_results C H R env t net = []"
    by (simp add: p2p_results_def map_filter_none)
qed

lemma p2p_rejected_health:
  assumes "p2p_inv C net" and "p2p_cohort m v net" and "execute R v t = Inl e"
    and "s \<in> set (p_servers net)" and "participates (p_health net) s"
  shows "health_of (p_health (snd (p2p_broadcast C H R S now clock env t net))) (sv_node_id s)
    = health_failure (fst (clock (sv_node_id s))) (health_of (p_health net) (sv_node_id s))"
proof -
  note raw = p2p_rejected(3) [OF assms(2,3), of C H env]
  have "distinct (map fst (p2p_raw C H R env t net))"
    using assms(1) by (simp add: raw comp_def p2p_inv_def distinct_map_filter)
  moreover have "(sv_node_id s, None) \<in> set (p2p_raw C H R env t net)" using assms(4,5) by (auto simp: raw)
  ultimately show ?thesis by (simp add: p2p_broadcast_health settle_failed health_of_gets)
qed

text \<open>After \<open>k\<close> rejections every server is excluded or has failed \<open>k\<close> times in a row.\<close>

lemma p2p_rejections:
  assumes "p2p_inv C net" and "p2p_cohort m v net"
    and "\<forall>rd\<in>set rounds. \<exists>e. execute R v (snd (snd (snd rd))) = Inl e"
  shows "p_servers (p2p_run C H R S rounds net) = p_servers net \<and>
    (\<forall>s\<in>set (p_servers net). \<not> participates (p_health (p2p_run C H R S rounds net)) s
      \<or> length rounds \<le> h_consecutive_failures (health_of (p_health (p2p_run C H R S rounds net)) (sv_node_id s)))"
  using assms(3)
proof (induction rounds rule: rev_induct)
  case (snoc rd rounds)
  obtain now clock env t where rd: "rd = (now, clock, env, t)" by (cases rd)
  let ?net = "p2p_run C H R S rounds net"
  have ih: "p_servers ?net = p_servers net" "\<forall>s\<in>set (p_servers net). \<not> participates (p_health ?net) s
      \<or> length rounds \<le> h_consecutive_failures (health_of (p_health ?net) (sv_node_id s))"
    using snoc by simp_all
  have run: "p2p_run C H R S (rounds @ [rd]) net = snd (p2p_broadcast C H R S now clock env t ?net)"
    by (simp add: p2p_run_def rd)
  have c: "p2p_cohort m v ?net" using assms(2) ih(1) by (simp add: p2p_cohort_def)
  obtain e where e: "execute R v t = Inl e" using snoc.prems rd by auto
  note inv = p2p_inv_run [OF assms(1), of H R S rounds]
  have "\<not> participates (p_health (p2p_run C H R S (rounds @ [rd]) net)) s
      \<or> Suc (length rounds) \<le> h_consecutive_failures (health_of (p_health (p2p_run C H R S (rounds @ [rd]) net)) (sv_node_id s))"
    if s: "s \<in> set (p_servers net)" for s
  proof (cases "participates (p_health ?net) s")
    case False
    then show ?thesis using p2p_excluded_step [OF False, of C H R S now clock env t] s ih(1) by (simp add: run)
  next
    case True
    then have "length rounds \<le> h_consecutive_failures (health_of (p_health ?net) (sv_node_id s))"
      using ih(2) s by blast
    then show ?thesis
      using p2p_rejected_health [OF inv c e _ True] s ih(1)
      by (simp add: run) (simp add: health_failure_def Let_def)
  qed
  then show ?case using p2p_rejected(1) [OF c e] ih(1) by (simp add: run)
qed (simp add: p2p_run_def)

end

lemma p2p_none_left:
  assumes "\<forall>s\<in>set (p_servers net). \<not> participates (p_health net) s" and "0 < p_min_responses net"
  shows "fst (p2p_broadcast C H R S now clock env t net) =
    Inl (InsufficientQuorum 0 (length (p_servers net)) (p_min_responses net))"
proof -
  have "p2p_raw C H R env t net = []" using assms(1) by (simp add: p2p_raw_def filter_empty_conv)
  then show ?thesis using assms(2) by (simp add: p2p_broadcast_result p2p_results_def map_filter_simps)
qed

lemma p2p_run_fields:
  "p_min_responses (p2p_run C H R S rounds net) = p_min_responses net"
  unfolding p2p_run_def by (induction rounds arbitrary: net) (auto simp: p2p_broadcast_fields)

text \<open>C35. Rejections are taken for failures of the nodes: when five transactions in a row are ones
  that every node rejects (an unknown type, an overdraft), every server is excluded, and from
  then on each broadcast, of whatever transaction, fails with an insufficient quorum of zero
  responses.\<close>

theorem p2p_rejections_exclude_all:
  assumes "p2p_inv C net" and "p2p_cohort m v net" and "length bad = 5"
    and "\<forall>rd\<in>set bad. \<exists>e. execute ecn_handlers v (snd (snd (snd rd))) = Inl e"
    and "0 < p_min_responses net"
  shows "(\<forall>s\<in>set (p_servers net). \<not> participates (p_health (p2p_run C H ecn_handlers S bad net)) s)
    \<and> fst (p2p_broadcast C H ecn_handlers S now clock env t (p2p_run C H ecn_handlers S bad net))
      = Inl (InsufficientQuorum 0 (length (p_servers net)) (p_min_responses net))"
proof -
  let ?net = "p2p_run C H ecn_handlers S bad net"
  note r = ecn.p2p_rejections [OF assms(1,2,4), of H S]
  note inv = p2p_inv_run [OF assms(1), of H ecn_handlers S bad]
  have "h_state h = EXCLUDED" if "health_inv h" "5 \<le> h_consecutive_failures h" for h
    using that by (cases "h_state h") (auto simp: health_inv_def health_constants)
  moreover have "health_inv (health_of (p_health ?net) n)" for n
    using inv health_reach_inv by (auto simp: p2p_inv_def)
  ultimately have ex: "\<forall>s\<in>set (p_servers net). \<not> participates (p_health ?net) s"
    using r assms(3) by (auto simp: participates_def)
  then show ?thesis
    using r assms(5) p2p_none_left [of ?net C H ecn_handlers S now clock env t] by (simp add: p2p_run_fields)
qed

subsection \<open>Witnesses\<close>

definition example_p2p :: "(string, string, audit_table) p2p" where
  "example_p2p = p2p_create example_crypto [(''N1'', None), (''N2'', None), (''N3'', Some True)]
     [''k1'', ''k2'', ''k3''] example_world None default_quorum_threshold None None None"

lemma example_p2p_inv: "p2p_inv example_crypto example_p2p"
  unfolding example_p2p_def by (rule p2p_inv_create) simp_all

lemma example_p2p_servers:
  "p_servers example_p2p = [server_init ''N1'' example_world False ''k1'',
     server_init ''N2'' example_world False ''k2'', server_init ''N3'' example_world True ''k3'']"
  by (simp add: example_p2p_def p2p_create_def p2p_init_def)

lemma example_p2p_participates: "participates (p_health example_p2p) s"
  by (simp add: participates_def example_p2p_def p2p_create_def p2p_init_def health_of_get new_health_def)

lemma example_p2p_fields:
  "p_min_responses example_p2p = 1" "p_quorum_threshold example_p2p = 51 / 100"
  by (simp_all add: example_p2p_def p2p_create_def p2p_init_def default_quorum_threshold_def)

lemma example_p2p_responders:
  "responders (\<lambda>_. Delivered 5) example_p2p =
     [node_init ''N1'' example_world False False (Some ''k1''), node_init ''N2'' example_world False False (Some ''k2''),
      node_init ''N3'' example_world True False (Some ''k3'')]"
  by (simp add: responders_def example_p2p_servers example_p2p_participates reaches_def server_init_def)

lemma example_transfer_executes: "\<exists>w. execute ecn_handlers example_world (example_transfer 100) = Inr w"
  by (simp add: execute_def ecn_handlers_eq example_transfer_def blank_tx_def handle_transfer_def example_world_def)

theorem p2p_broadcast_decides_witness:
  "\<exists>rs cr. fst (p2p_broadcast example_crypto example_sha256 ecn_handlers sqlite_audit ''now'' (\<lambda>_. (0, 0))
        (\<lambda>_. Delivered 5) (example_transfer 100) example_p2p) = Inr (rs, cr)
     \<and> cr_faulty_nodes cr = [''N3''] \<and> cr_consensus_reached cr"
proof -
  obtain w where w: "execute ecn_handlers example_world (example_transfer 100) = Inr w"
    using example_transfer_executes by blast
  have c: "\<forall>nd\<in>set (responders (\<lambda>_. Delivered 5) example_p2p). in_cohort False example_world nd"
    by (simp add: example_p2p_responders in_cohort_init wf_example_world)
  have "malicious_count (responders (\<lambda>_. Delivered 5) example_p2p) < honest_count (responders (\<lambda>_. Delivered 5) example_p2p)"
    and "p_min_responses example_p2p \<le> int (length (responders (\<lambda>_. Delivered 5) example_p2p))"
    by (simp_all add: example_p2p_responders malicious_count_def honest_count_def node_init_def
        example_p2p_fields)
  from p2p_broadcast_decides [OF hex_digest_example example_crypto_ok(1) example_p2p_inv wf_example_world c w this,
      of sqlite_audit "''now''" "\<lambda>_. (0, 0)"]
  obtain rs cr where "fst (p2p_broadcast example_crypto example_sha256 ecn_handlers sqlite_audit ''now'' (\<lambda>_. (0, 0))
        (\<lambda>_. Delivered 5) (example_transfer 100) example_p2p) = Inr (rs, cr)"
    "cr_faulty_nodes cr = map n_node_id (filter n_malicious (responders (\<lambda>_. Delivered 5) example_p2p))"
    "cr_consensus_reached cr \<longleftrightarrow> p_quorum_threshold example_p2p
        * rat_of_nat (length (responders (\<lambda>_. Delivered 5) example_p2p))
      \<le> rat_of_nat (honest_count (responders (\<lambda>_. Delivered 5) example_p2p))" by blast
  then show ?thesis
    by (simp add: example_p2p_responders node_init_def honest_count_def example_p2p_fields)
qed

definition example_excluded_p2p :: "(string, string, audit_table) p2p" where
  "example_excluded_p2p = p2p_create example_crypto [(''N1'', None)] [''k1''] example_world None
     default_quorum_threshold None None
     (Some [(''N1'', (new_health ''N1'')\<lparr>h_state := EXCLUDED, h_excluded_since := Some 0\<rparr>)])"

theorem p2p_exclusion_permanent_witness:
  "\<not> participates (p_health (p2p_run example_crypto example_sha256 ecn_handlers sqlite_audit
      [(''now'', \<lambda>_. (10 ^ 12, 10 ^ 12), \<lambda>_. Delivered 5, example_transfer 100)] example_excluded_p2p))
      (server_init ''N1'' example_world False ''k1'')"
proof -
  have "server_init ''N1'' example_world False ''k1'' \<in> set (p_servers example_excluded_p2p)"
    and "\<not> participates (p_health example_excluded_p2p) (server_init ''N1'' example_world False ''k1'')"
    by (simp_all add: example_excluded_p2p_def p2p_create_def p2p_init_def participates_def server_init_def
        node_init_def health_of_def get_or_create_def)
  from p2p_exclusion_permanent [OF this] show ?thesis by blast
qed

definition example_bad_rounds :: "p2p_round list" where
  "example_bad_rounds = replicate 5 (''now'', \<lambda>_. (0, 0), \<lambda>_. Delivered 5, blank_tx ''bogus'')"

theorem p2p_rejections_exclude_all_witness:
  "fst (p2p_broadcast example_crypto example_sha256 ecn_handlers sqlite_audit ''now'' (\<lambda>_. (0, 0)) (\<lambda>_. Delivered 5)
      (example_transfer 100)
      (p2p_run example_crypto example_sha256 ecn_handlers sqlite_audit example_bad_rounds example_p2p))
    = Inl (InsufficientQuorum 0 3 1)"
proof -
  have c: "p2p_cohort False example_world example_p2p"
    by (simp add: p2p_cohort_def example_p2p_servers server_init_def in_cohort_init wf_example_world)
  have b: "\<forall>rd\<in>set example_bad_rounds. \<exists>e. execute ecn_handlers example_world (snd (snd (snd rd))) = Inl e"
    by (simp add: example_bad_rounds_def execute_def ecn_handlers_eq blank_tx_def)
  show ?thesis
    using p2p_rejections_exclude_all [OF example_p2p_inv c _ b, of example_sha256 sqlite_audit "''now''"
        "\<lambda>_. (0, 0)" "\<lambda>_. Delivered 5" "example_transfer 100"]
    by (simp add: example_p2p_fields example_p2p_servers) (simp add: example_bad_rounds_def)
qed

end
