(* ===== verification/Overlap.thy ===== *)
theory Overlap
  imports P2PNetwork
begin

section \<open>Broadcasts that overlap\<close>

text \<open>
  \<open>P2PNetwork.broadcast\<close> awaits its servers, so while one broadcast waits the event loop may start
  another: the API does so for each concurrent \<open>POST /transactions\<close>. Here a broadcast is cut where
  the code yields: starting it (who is contacted), the exchange with one server (the server
  executes the transaction in one go), and concluding it once every server contacted has
  answered or failed (the rest of \<open>broadcast\<close>, which does not yield). A schedule is a list of such
  actions; an action that is not enabled changes nothing. A server that would execute a request
  after its client gave up is not modelled.

  The lemmas show that a schedule without overlap is \<open>p2p_broadcast\<close>, whatever the order of the
  servers; that in every schedule each server is a replica of the transactions it executed, in its
  own order; and that two conflicting transactions can both be agreed.
\<close>

record flight =
  f_tx :: tx
  f_contacts :: "string list"
  f_answers :: "(node_result \<times> rat) option dict"

record ('sk, 'pk, 's) overlap =
  o_net :: "('sk, 'pk, 's) p2p"
  o_flights :: "(nat \<times> flight) list"
  o_outcomes :: "(nat \<times> (broadcast_error + node_result list \<times> consensus_result)) list"
  o_executed :: "(string \<times> tx) list"

definition start_broadcast :: "tx \<Rightarrow> ('sk, 'pk, 's) p2p \<Rightarrow> flight \<times> ('sk, 'pk, 's) p2p" where
  "start_broadcast t net =
     (\<lparr>f_tx = t, f_contacts = map sv_node_id (filter (participates (p_health net)) (p_servers net)), f_answers = []\<rparr>,
      net\<lparr>p_health := foldl (\<lambda>reg s. snd (get_or_create (sv_node_id s) reg)) (p_health net) (p_servers net)\<rparr>)"

definition answer_of ::
  "('sk, 'pk) crypto \<Rightarrow> sha256 \<Rightarrow> registry \<Rightarrow> tx \<Rightarrow> delivery \<Rightarrow> string \<Rightarrow> 'sk server list \<Rightarrow> (node_result \<times> rat) option" where
  "answer_of C H R t d n servers =
     (case find (\<lambda>s. sv_node_id s = n) servers of
        None \<Rightarrow> None | Some s \<Rightarrow> fst (send_to_server C H R t d s))"

definition deliver_to ::
  "('sk, 'pk) crypto \<Rightarrow> sha256 \<Rightarrow> registry \<Rightarrow> string \<Rightarrow> delivery \<Rightarrow> flight \<times> ('sk, 'pk, 's) p2p
     \<Rightarrow> flight \<times> ('sk, 'pk, 's) p2p" where
  "deliver_to C H R n d = (\<lambda>(f, net).
     (f\<lparr>f_answers := dset n (answer_of C H R (f_tx f) d n (p_servers net)) (f_answers f)\<rparr>,
      net\<lparr>p_servers := map (\<lambda>s. if sv_node_id s = n then snd (send_to_server C H R (f_tx f) d s) else s)
        (p_servers net)\<rparr>))"

definition flight_raw :: "flight \<Rightarrow> (string \<times> (node_result \<times> rat) option) list" where
  "flight_raw f = map (\<lambda>n. (n, Option.bind (dget (f_answers f) n) (\<lambda>r. r))) (f_contacts f)"

definition conclude_broadcast ::
  "('sk, 'pk) crypto \<Rightarrow> 's audit_ops \<Rightarrow> string \<Rightarrow> (string \<Rightarrow> int \<times> int) \<Rightarrow> flight \<Rightarrow> ('sk, 'pk, 's) p2p
     \<Rightarrow> (broadcast_error + node_result list \<times> consensus_result) \<times> ('sk, 'pk, 's) p2p" where
  "conclude_broadcast C S now clock f net =
     (let (results, health) = settle clock (flight_raw f) (p_health net);
          net = net\<lparr>p_health := health\<rparr>
      in if int (length results) < p_min_responses net then
           (Inl (InsufficientQuorum (length results) (length (p_servers net)) (p_min_responses net)), net)
         else
           let cr = run_consensus C results (Some (p_public_keys net)) (p_quorum_threshold net)
           in (Inr (results, cr),
               net\<lparr>p_history := p_history net @ [(f_tx f, results, cr)],
                 p_audit_log := map_option (\<lambda>al. snd (audit_record S now (tx_json (f_tx f)) results cr al))
                   (p_audit_log net)\<rparr>))"

datatype action =
    Start nat tx
  | Deliver nat string delivery
  | Finish nat string "string \<Rightarrow> int \<times> int"

fun overlap_step ::
  "('sk, 'pk) crypto \<Rightarrow> sha256 \<Rightarrow> registry \<Rightarrow> 's audit_ops \<Rightarrow> ('sk, 'pk, 's) overlap \<Rightarrow> action \<Rightarrow> ('sk, 'pk, 's) overlap" where
  "overlap_step C H R S st (Start i t) =
     (if dget (o_flights st) i \<noteq> None \<or> dget (o_outcomes st) i \<noteq> None then st
      else case start_broadcast t (o_net st) of (f, net) \<Rightarrow>
        st\<lparr>o_net := net, o_flights := dset i f (o_flights st)\<rparr>)"
| "overlap_step C H R S st (Deliver i n d) =
     (case dget (o_flights st) i of
        None \<Rightarrow> st
      | Some f \<Rightarrow>
          if n \<notin> set (f_contacts f) \<or> dget (f_answers f) n \<noteq> None then st
          else case deliver_to C H R n d (f, o_net st) of (f', net) \<Rightarrow>
            st\<lparr>o_net := net, o_flights := dset i f' (o_flights st),
               o_executed := o_executed st @ (if d = Lost_before then [] else [(n, f_tx f)])\<rparr>)"
| "overlap_step C H R S st (Finish i now clock) =
     (case dget (o_flights st) i of
        None \<Rightarrow> st
      | Some f \<Rightarrow>
          if \<exists>n\<in>set (f_contacts f). dget (f_answers f) n = None then st
          else case conclude_broadcast C S now clock f (o_net st) of (out, net) \<Rightarrow>
            st\<lparr>o_net := net, o_flights := dpop i (o_flights st), o_outcomes := o_outcomes st @ [(i, out)]\<rparr>)"

definition overlap_run ::
  "('sk, 'pk) crypto \<Rightarrow> sha256 \<Rightarrow> registry \<Rightarrow> 's audit_ops \<Rightarrow> action list \<Rightarrow> ('sk, 'pk, 's) overlap \<Rightarrow> ('sk, 'pk, 's) overlap" where
  "overlap_run C H R S acts st = foldl (overlap_step C H R S) st acts"

definition at_rest :: "('sk, 'pk, 's) p2p \<Rightarrow> ('sk, 'pk, 's) overlap" where
  "at_rest net = \<lparr>o_net = net, o_flights = [], o_outcomes = [], o_executed = []\<rparr>"

lemma overlap_run_simps:
  "overlap_run C H R S [] st = st"
  "overlap_run C H R S (a # acts) st = overlap_run C H R S acts (overlap_step C H R S st a)"
  "overlap_run C H R S (acts @ acts') st = overlap_run C H R S acts' (overlap_run C H R S acts st)"
  by (simp_all add: overlap_run_def)

subsection \<open>The exchanges of one broadcast\<close>

definition after_batch ::
  "('sk, 'pk) crypto \<Rightarrow> sha256 \<Rightarrow> registry \<Rightarrow> tx \<Rightarrow> (string \<Rightarrow> delivery) \<Rightarrow> string set \<Rightarrow> 'sk server list \<Rightarrow> 'sk server list" where
  "after_batch C H R t env ns servers =
     map (\<lambda>s. if sv_node_id s \<in> ns then snd (send_to_server C H R t (env (sv_node_id s)) s) else s) servers"

lemma find_map_id:
  assumes "\<And>s. sv_node_id (g s) = sv_node_id s"
  shows "find (\<lambda>s. sv_node_id s = n) (map g ss) = map_option g (find (\<lambda>s. sv_node_id s = n) ss)"
  by (induction ss) (auto simp: assms)

lemma ids_after_batch: "map sv_node_id (after_batch C H R t env ns ss) = map sv_node_id ss"
  by (auto simp: after_batch_def server_after_send)

lemma answer_after_batch:
  assumes "n \<notin> ns"
  shows "answer_of C' H' R' t' d n (after_batch C H R t env ns ss) = answer_of C' H' R' t' d n ss"
proof -
  let ?g = "\<lambda>s. if sv_node_id s \<in> ns then snd (send_to_server C H R t (env (sv_node_id s)) s) else s"
  have "find (\<lambda>s. sv_node_id s = n) (map ?g ss) = map_option ?g (find (\<lambda>s. sv_node_id s = n) ss)"
    by (rule find_map_id) (simp add: server_after_send)
  moreover have "map_option ?g (find (\<lambda>s. sv_node_id s = n) ss) = find (\<lambda>s. sv_node_id s = n) ss"
  proof (cases "find (\<lambda>s. sv_node_id s = n) ss")
    case (Some s)
    then have "sv_node_id s = n" by (auto simp: find_Some_iff)
    then show ?thesis using assms Some by simp
  qed simp
  ultimately show ?thesis by (simp add: answer_of_def after_batch_def)
qed

lemma answer_of_server:
  assumes "distinct (map sv_node_id ss)" and "s \<in> set ss"
  shows "answer_of C H R t d (sv_node_id s) ss = fst (send_to_server C H R t d s)"
proof -
  have "find (\<lambda>s'. sv_node_id s' = sv_node_id s) ss = Some s"
    using assms by (induction ss) (auto simp: image_iff)
  then show ?thesis by (simp add: answer_of_def)
qed

text \<open>Exchanges of flight \<open>i\<close> with the servers \<open>ns\<close>, none of which has answered it yet.\<close>

lemma deliver_batch:
  assumes "dget (o_flights st) i = Some f" and "distinct ns" and "set ns \<subseteq> set (f_contacts f)"
    and "\<forall>n\<in>set ns. dget (f_answers f) n = None"
  shows "let st' = overlap_run C H R S (map (\<lambda>n. Deliver i n (env n)) ns) st in
    o_net st' = (o_net st)\<lparr>p_servers := after_batch C H R (f_tx f) env (set ns) (p_servers (o_net st))\<rparr>
    \<and> o_outcomes st' = o_outcomes st
    \<and> (\<forall>j. j \<noteq> i \<longrightarrow> dget (o_flights st') j = dget (o_flights st) j)
    \<and> (\<exists>f'. dget (o_flights st') i = Some f' \<and> f_tx f' = f_tx f \<and> f_contacts f' = f_contacts f
        \<and> (\<forall>n. dget (f_answers f') n = (if n \<in> set ns then Some (answer_of C H R (f_tx f) (env n) n (p_servers (o_net st)))
              else dget (f_answers f) n)))"
  using assms
proof (induction ns arbitrary: st f)
  case Nil
  then show ?case by (simp add: overlap_run_simps after_batch_def)
next
  case (Cons n ns)
  let ?ss = "p_servers (o_net st)"
  let ?f = "f\<lparr>f_answers := dset n (answer_of C H R (f_tx f) (env n) n ?ss) (f_answers f)\<rparr>"
  define st1 where "st1 = overlap_step C H R S st (Deliver i n (env n))"
  have one: "map (\<lambda>s. if sv_node_id s = n then snd (send_to_server C H R (f_tx f) (env n) s) else s) ?ss =
      after_batch C H R (f_tx f) env {n} ?ss"
    by (auto simp: after_batch_def)
  have st: "o_net st1 = (o_net st)\<lparr>p_servers := after_batch C H R (f_tx f) env {n} ?ss\<rparr>"
    "o_flights st1 = dset i ?f (o_flights st)" "o_outcomes st1 = o_outcomes st"
    using Cons.prems by (simp_all add: st1_def deliver_to_def one)
  have two: "after_batch C H R (f_tx f) env (set ns) (after_batch C H R (f_tx f) env {n} ?ss)
      = after_batch C H R (f_tx f) env (set (n # ns)) ?ss"
    using Cons.prems(2) by (auto simp: after_batch_def server_after_send)
  have ans: "answer_of C H R (f_tx f) (env k) k (p_servers (o_net st1)) = answer_of C H R (f_tx f) (env k) k ?ss"
    if "k \<in> set ns" for k
    using that Cons.prems(2) by (simp add: st(1)) (rule answer_after_batch, auto)
  have "dget (o_flights st1) i = Some ?f" "\<forall>k\<in>set ns. dget (f_answers ?f) k = None"
    using Cons.prems by (auto simp: st)
  note ih = Cons.IH [OF this(1) _ _ this(2), unfolded Let_def]
  obtain f' where f': "dget (o_flights (overlap_run C H R S (map (\<lambda>n. Deliver i n (env n)) ns) st1)) i = Some f'"
    "f_tx f' = f_tx f" "f_contacts f' = f_contacts f"
    "\<forall>k. dget (f_answers f') k = (if k \<in> set (n # ns) then Some (answer_of C H R (f_tx f) (env k) k ?ss) else dget (f_answers f) k)"
    using ih Cons.prems(2,3) ans by auto
  show ?case
    using ih Cons.prems(2,3) f' by (simp add: overlap_run_simps st1_def [symmetric] Let_def st two del: overlap_step.simps)
qed

subsection \<open>Without overlap\<close>

lemma answered_raw:
  assumes "distinct (map sv_node_id ss)" and "f_contacts f = map sv_node_id (filter P ss)"
    and "\<forall>n\<in>set (f_contacts f). dget (f_answers f) n = Some (answer_of C H R t (env n) n ss)"
  shows "flight_raw f = map (\<lambda>s. (sv_node_id s, fst (send_to_server C H R t (env (sv_node_id s)) s))) (filter P ss)"
  using assms(2,3) answer_of_server [OF assms(1), where C = C and H = H and R = R and t = t]
  by (auto simp: flight_raw_def)

text \<open>Gathering the servers' answers in any order is one broadcast: a schedule that starts a
  broadcast, lets it exchange with each server it contacts, in whatever order, and concludes it,
  leaves the network as \<open>broadcast\<close> does and returns what it returns.\<close>

lemma overlap_sequential:
  assumes "p2p_inv C (o_net st)" and "dget (o_flights st) i = None" and "dget (o_outcomes st) i = None"
    and "mset order = mset (map sv_node_id (filter (participates (p_health (o_net st))) (p_servers (o_net st))))"
  shows "let st' = overlap_run C H R S (Start i t # map (\<lambda>n. Deliver i n (env n)) order @ [Finish i now clock]) st;
      B = p2p_broadcast C H R S now clock env t (o_net st)
    in o_net st' = snd B \<and> o_outcomes st' = o_outcomes st @ [(i, fst B)]
      \<and> dget (o_flights st') = dget (o_flights st)"
proof -
  let ?net = "o_net st" and ?part = "participates (p_health (o_net st))"
  let ?ss = "p_servers ?net"
  have ids: "distinct (map sv_node_id ?ss)" using assms(1) by (simp add: p2p_inv_def)
  define f0 where "f0 = fst (start_broadcast t ?net)"
  define st1 where "st1 = overlap_step C H R S st (Start i t)"
  have f0: "f_tx f0 = t" "f_contacts f0 = map sv_node_id (filter ?part ?ss)" "f_answers f0 = []"
    by (simp_all add: f0_def start_broadcast_def)
  have st1: "o_net st1 = ?net\<lparr>p_health := foldl (\<lambda>reg s. snd (get_or_create (sv_node_id s) reg)) (p_health ?net) ?ss\<rparr>"
    "o_flights st1 = dset i f0 (o_flights st)" "o_outcomes st1 = o_outcomes st"
    using assms(2,3) by (simp_all add: st1_def f0_def start_broadcast_def)
  have order: "set order = set (f_contacts f0)" "distinct order"
    using mset_eq_setD [OF assms(4)] mset_eq_imp_distinct_iff [OF assms(4)] ids by (simp_all add: f0 distinct_map_filter)
  define st2 where "st2 = overlap_run C H R S (map (\<lambda>n. Deliver i n (env n)) order) st1"
  obtain f where f: "dget (o_flights st2) i = Some f" "f_tx f = t" "f_contacts f = f_contacts f0"
    "\<forall>n. dget (f_answers f) n = (if n \<in> set order then Some (answer_of C H R t (env n) n ?ss) else None)"
    and st2: "o_net st2 = (o_net st1)\<lparr>p_servers := after_batch C H R t env (set order) ?ss\<rparr>"
      "o_outcomes st2 = o_outcomes st" "\<forall>j. j \<noteq> i \<longrightarrow> dget (o_flights st2) j = dget (o_flights st) j"
    using deliver_batch [of st1 i f0 order C H R S env] order by (auto simp: st1 st2_def f0 Let_def)
  have sv: "after_batch C H R t env (set order) ?ss =
      map (\<lambda>s. if ?part s then snd (send_to_server C H R t (env (sv_node_id s)) s) else s) ?ss"
  proof -
    have "sv_node_id s \<in> set order \<longleftrightarrow> ?part s" if "s \<in> set ?ss" for s
      using that order(1) f0(2) by (auto simp: participates_def)
    then show ?thesis by (auto simp: after_batch_def)
  qed
  have raw: "flight_raw f = map (\<lambda>s. (sv_node_id s, fst (send_to_server C H R t (env (sv_node_id s)) s))) (filter ?part ?ss)"
    using f(3,4) order(1) f0(2) by (intro answered_raw [OF ids]) auto
  have done1: "\<not> (\<exists>n\<in>set (f_contacts f). dget (f_answers f) n = None)" using f(3,4) order(1) by auto
  obtain out net where fin: "conclude_broadcast C S now clock f (o_net st2) = (out, net)" by fastforce
  obtain rs h where se: "settle clock (flight_raw f) (p_health (o_net st2)) = (rs, h)" by fastforce
  have "p2p_broadcast C H R S now clock env t ?net = (out, net)"
    using fin se unfolding raw
    by (simp add: p2p_broadcast_def conclude_broadcast_def raw st2(1) st1(1) sv f(2) Let_def split: if_splits)
  moreover have "overlap_run C H R S (Start i t # map (\<lambda>n. Deliver i n (env n)) order @ [Finish i now clock]) st =
      overlap_step C H R S st2 (Finish i now clock)"
    by (simp add: overlap_run_simps st1_def st2_def del: overlap_step.simps)
  moreover have "overlap_step C H R S st2 (Finish i now clock) =
      st2\<lparr>o_net := net, o_flights := dpop i (o_flights st2), o_outcomes := o_outcomes st @ [(i, out)]\<rparr>"
    using done1 by (auto simp: f(1) fin st2(2))
  moreover have "dget (dpop i (o_flights st2)) x = dget (o_flights st) x" for x
    using st2(3) assms(2) by (cases "x = i") (simp_all add: dget_dpop)
  ultimately show ?thesis by (simp add: Let_def fun_eq_iff del: overlap_step.simps)
qed

subsection \<open>Every schedule\<close>

definition executed_by :: "string \<Rightarrow> ('sk, 'pk, 's) overlap \<Rightarrow> tx list" where
  "executed_by n st = map snd (filter (\<lambda>x. fst x = n) (o_executed st))"

definition concluded :: "('sk, 'pk, 's) overlap \<Rightarrow> (node_result list \<times> consensus_result) list" where
  "concluded st = List.map_filter (\<lambda>(i, out). case out of Inl _ \<Rightarrow> None | Inr x \<Rightarrow> Some x) (o_outcomes st)"

context handler_registry
begin

lemma send_replica:
  assumes "in_cohort m v (sv_node s)" and "wf_world v"
  shows "in_cohort m (if d = Lost_before then v else world_step R v t) (sv_node (snd (send_to_server C H R t d s)))"
proof -
  have "in_cohort m (world_step R v t) (sv_node (snd (handle_client C H R t s)))"
  proof (cases "execute R v t")
    case (Inl e)
    then show ?thesis using cohort_rejects [OF assms(1) Inl, of C H] assms(1)
      by (auto simp: handle_client_def world_step_def)
  next
    case (Inr w)
    obtain r nd' where "node_execute C H R (sv_node s) t = (Inr r, nd')" "in_cohort m w nd'"
      by (rule cohort_accepts [OF assms Inr, where C = C and H = H])
    then show ?thesis by (simp add: handle_client_def world_step_def Inr)
  qed
  then show ?thesis using assms(1)
    by (auto simp: send_to_server_def split: delivery.split prod.split wire_response.split)
qed

definition replicas :: "bool \<Rightarrow> world \<Rightarrow> ('sk, 'pk, 's) overlap \<Rightarrow> bool" where
  "replicas m v st \<longleftrightarrow>
     (\<forall>s\<in>set (p_servers (o_net st)). in_cohort m (foldl (world_step R) v (executed_by (sv_node_id s) st)) (sv_node s))"

lemma replicas_step:
  assumes "replicas m v st" and "wf_world v"
  shows "replicas m v (overlap_step C H R S st a)"
proof (cases a)
  case (Start i t)
  then show ?thesis using assms(1) by (auto simp: replicas_def executed_by_def start_broadcast_def)
next
  case (Finish i now clock)
  then show ?thesis using assms(1)
    by (auto simp: replicas_def executed_by_def conclude_broadcast_def Let_def split: option.splits prod.splits)
next
  case (Deliver i n d)
  show ?thesis
  proof (cases "\<exists>f. dget (o_flights st) i = Some f \<and> n \<in> set (f_contacts f) \<and> dget (f_answers f) n = None")
    case True
    then obtain f where f: "dget (o_flights st) i = Some f" "n \<in> set (f_contacts f)" "dget (f_answers f) n = None" by blast
    let ?more = "if d = Lost_before then [] else [(n, f_tx f)]"
    let ?g = "\<lambda>s. if sv_node_id s = n then snd (send_to_server C H R (f_tx f) d s) else s"
    define st' where "st' = overlap_step C H R S st a"
    have st': "p_servers (o_net st') = map ?g (p_servers (o_net st))" "o_executed st' = o_executed st @ ?more"
      using f by (simp_all add: st'_def Deliver deliver_to_def)
    have "in_cohort m (foldl (world_step R) v (executed_by (sv_node_id (?g s)) st')) (sv_node (?g s))"
      if s: "s \<in> set (p_servers (o_net st))" for s
    proof (cases "sv_node_id s = n")
      case True
      have "in_cohort m (foldl (world_step R) v (executed_by n st)) (sv_node s)"
        using assms(1) s True by (auto simp: replicas_def)
      from send_replica [OF this world_steps_wf [OF assms(2)], of d "f_tx f" C H] True show ?thesis
        by (simp add: executed_by_def st'(2) server_after_send split: if_splits)
    next
      case False
      then have "executed_by (sv_node_id s) st' = executed_by (sv_node_id s) st" by (simp add: executed_by_def st'(2))
      then show ?thesis using assms(1) s False by (simp add: replicas_def)
    qed
    then show ?thesis unfolding replicas_def st'_def [symmetric] st'(1) set_map by blast
  next
    case False
    then show ?thesis using assms(1) by (auto simp: Deliver split: option.splits)
  qed
qed

lemma replicas_run: "replicas m v st \<Longrightarrow> wf_world v \<Longrightarrow> replicas m v (overlap_run C H R S acts st)"
  by (induction acts arbitrary: st) (simp_all add: overlap_run_simps replicas_step del: overlap_step.simps)

end

text \<open>The trail and the history get one entry for each broadcast that reaches a result, as it concludes.\<close>

definition trail_follows :: "'s audit_log \<Rightarrow> ('sk, 'pk, 's) overlap \<Rightarrow> bool" where
  "trail_follows al st \<longleftrightarrow> (\<exists>al' evs. p_audit_log (o_net st) = Some al' \<and> al_events al' = al_events al @ evs
     \<and> map ae_round_id evs = map int [Suc (length (al_events al))..<Suc (length (al_events al) + length evs)]
     \<and> map ae_consensus_reached evs = map (\<lambda>x. cr_consensus_reached (snd x)) (concluded st)
     \<and> map ae_faulty_nodes evs = map (\<lambda>x. cr_faulty_nodes (snd x)) (concluded st))"

lemma concluded_snoc:
  "o_outcomes st' = o_outcomes st @ [(i, out)] \<Longrightarrow>
    concluded st' = concluded st @ (case out of Inl _ \<Rightarrow> [] | Inr x \<Rightarrow> [x])"
  by (simp add: concluded_def map_filter_def split: sum.split)

lemma step_trail:
  assumes "trail_follows al st"
  shows "trail_follows al (overlap_step C H R S st a)"
proof (cases a)
  case (Finish i now clock)
  show ?thesis
  proof (cases "\<exists>f. dget (o_flights st) i = Some f \<and> \<not> (\<exists>n\<in>set (f_contacts f). dget (f_answers f) n = None)")
    case True
    then obtain f where f: "dget (o_flights st) i = Some f" "\<not> (\<exists>n\<in>set (f_contacts f). dget (f_answers f) n = None)" by blast
    obtain out net where fin: "conclude_broadcast C S now clock f (o_net st) = (out, net)" by fastforce
    define st' where "st' = overlap_step C H R S st a"
    have st': "o_net st' = net" "o_outcomes st' = o_outcomes st @ [(i, out)]"
      using f by (auto simp: st'_def Finish fin)
    obtain al' evs where al': "p_audit_log (o_net st) = Some al'" "al_events al' = al_events al @ evs"
      "map ae_round_id evs = map int [Suc (length (al_events al))..<Suc (length (al_events al) + length evs)]"
      "map ae_consensus_reached evs = map (\<lambda>x. cr_consensus_reached (snd x)) (concluded st)"
      "map ae_faulty_nodes evs = map (\<lambda>x. cr_faulty_nodes (snd x)) (concluded st)"
      using assms by (auto simp: trail_follows_def)
    show ?thesis
    proof (cases out)
      case (Inl e)
      then have "p_audit_log net = p_audit_log (o_net st)"
        using fin by (auto simp: conclude_broadcast_def Let_def split: prod.splits if_splits)
      then show ?thesis
        using al' concluded_snoc [OF st'(2)] by (auto simp: trail_follows_def st'_def [symmetric] st'(1) Inl)
    next
      case (Inr x)
      obtain rs cr where x: "x = (rs, cr)" by (cases x)
      let ?al = "snd (audit_record S now (tx_json (f_tx f)) rs cr al')"
      let ?e = "make_event (int (length (al_events al')) + 1) now (tx_json (f_tx f)) rs cr"
      have "p_audit_log net = Some ?al"
        using fin al'(1) by (auto simp: conclude_broadcast_def Let_def Inr x split: prod.splits if_splits)
      moreover have "al_events ?al = al_events al @ evs @ [?e]" using al'(2) by (simp add: audit_record_def Let_def)
      ultimately show ?thesis
        using al' concluded_snoc [OF st'(2)] unfolding trail_follows_def st'_def [symmetric] st'(1)
        by (intro exI [of _ ?al] exI [of _ "evs @ [?e]"]) (simp add: make_event_def Inr x)
    qed
  next
    case False
    then show ?thesis using assms by (auto simp: Finish split: option.splits)
  qed
next
  case (Start i t)
  then have "p_audit_log (o_net (overlap_step C H R S st a)) = p_audit_log (o_net st)
      \<and> o_outcomes (overlap_step C H R S st a) = o_outcomes st"
    by (simp add: start_broadcast_def)
  then show ?thesis using assms by (simp add: trail_follows_def concluded_def)
next
  case (Deliver i n d)
  then have "p_audit_log (o_net (overlap_step C H R S st a)) = p_audit_log (o_net st)
      \<and> o_outcomes (overlap_step C H R S st a) = o_outcomes st"
    by (simp add: deliver_to_def split: option.split)
  then show ?thesis using assms by (simp add: trail_follows_def concluded_def)
qed

lemma run_trail: "trail_follows al st \<Longrightarrow> trail_follows al (overlap_run C H R S acts st)"
  by (induction acts arbitrary: st) (simp_all add: overlap_run_simps step_trail del: overlap_step.simps)

text \<open>C7. Whatever broadcasts overlap, and however their exchanges are scheduled, every server is a
  replica of one executor that runs the transactions it received, in the order it received them,
  with its state and its hash, honest or not; and the audit trail gets exactly one event for each
  broadcast that reaches a result, in the order in which they conclude, numbered on from the
  events before, with the verdict of its own round.\<close>

theorem overlap_replicas:
  assumes "p2p_cohort m v net" and "wf_world v" and "p_audit_log net = Some al"
    and "s \<in> set (p_servers (o_net (overlap_run C H ecn_handlers S acts (at_rest net))))"
  shows "let st = overlap_run C H ecn_handlers S acts (at_rest net);
      w = foldl (world_step ecn_handlers) v (executed_by (sv_node_id s) st)
    in same_world (node_state (sv_node s)) w \<and> node_state_hash H' (sv_node s) = state_hash H' m w
      \<and> (\<exists>al' evs. p_audit_log (o_net st) = Some al' \<and> al_events al' = al_events al @ evs
          \<and> map ae_round_id evs = map int [Suc (length (al_events al))..<Suc (length (al_events al) + length evs)]
          \<and> map ae_consensus_reached evs = map (\<lambda>x. cr_consensus_reached (snd x)) (concluded st)
          \<and> map ae_faulty_nodes evs = map (\<lambda>x. cr_faulty_nodes (snd x)) (concluded st))"
proof -
  let ?st = "overlap_run C H ecn_handlers S acts (at_rest net)"
  have "ecn.replicas m v (at_rest net)"
    using assms(1) by (simp add: ecn.replicas_def at_rest_def executed_by_def p2p_cohort_def)
  then have c: "in_cohort m (foldl (world_step ecn_handlers) v (executed_by (sv_node_id s) ?st)) (sv_node s)"
    using ecn.replicas_run [of m v "at_rest net" C H S acts] assms(2,4) by (simp add: ecn.replicas_def)
  have "trail_follows al ?st"
    by (rule run_trail) (simp add: trail_follows_def at_rest_def concluded_def map_filter_simps assms(3))
  then show ?thesis
    using c in_cohort_hash [OF c ecn.world_steps_wf [OF assms(2)]] unfolding trail_follows_def Let_def in_cohort_def
    by blast
qed

subsection \<open>Two transactions that exclude each other\<close>

lemma conclude_result:
  "fst (conclude_broadcast C S now clock f net) =
     (let rs = List.map_filter (\<lambda>(n, r). map_option fst r) (flight_raw f) in
      if int (length rs) < p_min_responses net
      then Inl (InsufficientQuorum (length rs) (length (p_servers net)) (p_min_responses net))
      else Inr (rs, run_consensus C rs (Some (p_public_keys net)) (p_quorum_threshold net)))"
  using settle_results [of clock "flight_raw f" "p_health net"]
  by (auto simp: conclude_broadcast_def Let_def split: prod.split)

lemma conclude_frame:
  "p_servers (snd (conclude_broadcast C S now clock f net)) = p_servers net"
  "p_public_keys (snd (conclude_broadcast C S now clock f net)) = p_public_keys net"
  "p_quorum_threshold (snd (conclude_broadcast C S now clock f net)) = p_quorum_threshold net"
  "p_min_responses (snd (conclude_broadcast C S now clock f net)) = p_min_responses net"
  by (auto simp: conclude_broadcast_def Let_def split: prod.split)

text \<open>The first group of servers gets \<open>t1\<close> first, the second \<open>t2\<close>; then each gets the other.\<close>

definition conflict_schedule ::
  "tx \<Rightarrow> tx \<Rightarrow> string list \<Rightarrow> string list \<Rightarrow> string \<Rightarrow> (string \<Rightarrow> int \<times> int) \<Rightarrow> action list" where
  "conflict_schedule t1 t2 xs ys now clock =
     Start 1 t1 # Start 2 t2 # map (\<lambda>n. Deliver 1 n (Delivered 1)) xs @ map (\<lambda>n. Deliver 2 n (Delivered 1)) ys
       @ map (\<lambda>n. Deliver 2 n (Delivered 1)) xs @ map (\<lambda>n. Deliver 1 n (Delivered 1)) ys
       @ [Finish 1 now clock, Finish 2 now clock]"

lemma batch_step:
  assumes "dget (o_flights st) i = Some f" and "f_tx f = t" and "f_contacts f = cs" and "p_servers (o_net st) = ss"
    and "distinct ns" and "set ns \<subseteq> set cs" and "\<forall>n\<in>set ns. dget (f_answers f) n = None"
    and "st' = overlap_run C H R S (map (\<lambda>n. Deliver i n d) ns) st"
  obtains f' where "dget (o_flights st') i = Some f'" and "f_tx f' = t" and "f_contacts f' = cs"
    and "\<forall>n. dget (f_answers f') n = (if n \<in> set ns then Some (answer_of C H R t d n ss) else dget (f_answers f) n)"
    and "o_net st' = (o_net st)\<lparr>p_servers := after_batch C H R t (\<lambda>_. d) (set ns) ss\<rparr>"
    and "o_outcomes st' = o_outcomes st" and "\<forall>j. j \<noteq> i \<longrightarrow> dget (o_flights st') j = dget (o_flights st) j"
  using deliver_batch [of st i f ns C H R S "\<lambda>_. d"] assms by (auto simp: Let_def)

definition half_way ::
  "('sk, 'pk) crypto \<Rightarrow> sha256 \<Rightarrow> registry \<Rightarrow> tx \<Rightarrow> tx \<Rightarrow> string list \<Rightarrow> 'sk server list \<Rightarrow> 'sk server list" where
  "half_way C H R t1 t2 xs ss = map (\<lambda>s. if sv_node_id s \<in> set xs then snd (send_to_server C H R t1 (Delivered 1) s)
     else snd (send_to_server C H R t2 (Delivered 1) s)) ss"

text \<open>The exchanges of the schedule, whatever the transactions.\<close>

lemma conflict_exchanges:
  fixes net :: "('sk, 'pk, 's) p2p"
  assumes "distinct (map sv_node_id (p_servers net))" and "\<forall>s\<in>set (p_servers net). participates (p_health net) s"
    and "distinct (xs @ ys)" and "set (xs @ ys) = sv_node_id ` set (p_servers net)"
  shows "let ss = p_servers net; half = half_way C H R t1 t2 xs ss;
      third = after_batch C H R t2 (\<lambda>_. Delivered 1) (set xs) half;
      st = overlap_run C H R S (Start 1 t1 # Start 2 t2 # map (\<lambda>n. Deliver 1 n (Delivered 1)) xs
        @ map (\<lambda>n. Deliver 2 n (Delivered 1)) ys @ map (\<lambda>n. Deliver 2 n (Delivered 1)) xs
        @ map (\<lambda>n. Deliver 1 n (Delivered 1)) ys) (at_rest net) in
    \<exists>f1 f2 hl. dget (o_flights st) 1 = Some f1 \<and> dget (o_flights st) 2 = Some f2 \<and> o_outcomes st = []
      \<and> o_net st = net\<lparr>p_health := hl, p_servers := after_batch C H R t1 (\<lambda>_. Delivered 1) (set ys) third\<rparr>
      \<and> f_tx f1 = t1 \<and> f_tx f2 = t2 \<and> f_contacts f1 = map sv_node_id ss \<and> f_contacts f2 = map sv_node_id ss
      \<and> (\<forall>n\<in>set xs. dget (f_answers f1) n = Some (answer_of C H R t1 (Delivered 1) n ss)
          \<and> dget (f_answers f2) n = Some (answer_of C H R t2 (Delivered 1) n half))
      \<and> (\<forall>n\<in>set ys. dget (f_answers f2) n = Some (answer_of C H R t2 (Delivered 1) n ss)
          \<and> dget (f_answers f1) n = Some (answer_of C H R t1 (Delivered 1) n third))"
proof -
  let ?ss = "p_servers net" and ?d = "\<lambda>_::string. Delivered 1"
  let ?gets = "\<lambda>reg. foldl (\<lambda>reg s. snd (get_or_create (sv_node_id s) reg)) reg ?ss"
  define st1 where "st1 = overlap_step C H R S (overlap_step C H R S (at_rest net) (Start 1 t1)) (Start 2 t2)"
  let ?f = "\<lambda>t. \<lparr>f_tx = t, f_contacts = map sv_node_id ?ss, f_answers = []\<rparr>"
  have all: "filter (participates (p_health net)) ?ss = ?ss" using assms(2) by simp
  have all': "filter (participates (?gets (p_health net))) ?ss = ?ss"
    using assms(2) by (simp add: participates_def health_of_gets)
  have st1: "o_net st1 = net\<lparr>p_health := ?gets (?gets (p_health net))\<rparr>" "o_flights st1 = [(1, ?f t1), (2, ?f t2)]"
    "o_outcomes st1 = []"
    by (simp_all add: st1_def at_rest_def start_broadcast_def all all')
  have sub: "set xs \<subseteq> set (map sv_node_id ?ss)" "set ys \<subseteq> set (map sv_node_id ?ss)"
    "distinct xs" "distinct ys" "set xs \<inter> set ys = {}" using assms(3,4) by auto
  define st2 where "st2 = overlap_run C H R S (map (\<lambda>n. Deliver 1 n (Delivered 1)) xs) st1"
  define ss1 where "ss1 = after_batch C H R t1 ?d (set xs) ?ss"
  have fl1: "dget (o_flights st1) 1 = Some (?f t1)" "dget (o_flights st1) 2 = Some (?f t2)" "p_servers (o_net st1) = ?ss"
    by (simp_all add: st1)
  have ft: "f_tx (?f t) = t" "f_contacts (?f t) = map sv_node_id ?ss" "\<forall>n\<in>A. dget (f_answers (?f t)) n = None" for t A
    by simp_all
  obtain f1 where f1: "dget (o_flights st2) 1 = Some f1" "f_tx f1 = t1" "f_contacts f1 = map sv_node_id ?ss"
    "\<forall>n. dget (f_answers f1) n = (if n \<in> set xs then Some (answer_of C H R t1 (Delivered 1) n ?ss) else dget (f_answers (?f t1)) n)"
    and st2: "o_net st2 = (o_net st1)\<lparr>p_servers := ss1\<rparr>" "o_outcomes st2 = o_outcomes st1"
      "\<forall>j. j \<noteq> 1 \<longrightarrow> dget (o_flights st2) j = dget (o_flights st1) j"
    by (rule batch_step [OF fl1(1) ft(1,2) fl1(3) sub(3,1) ft(3) st2_def, folded ss1_def])
  define st3 where "st3 = overlap_run C H R S (map (\<lambda>n. Deliver 2 n (Delivered 1)) ys) st2"
  define ss2 where "ss2 = after_batch C H R t2 ?d (set ys) ss1"
  have fl2: "dget (o_flights st2) 2 = Some (?f t2)" "p_servers (o_net st2) = ss1" by (simp_all add: st2 st1)
  obtain f2 where f2: "dget (o_flights st3) 2 = Some f2" "f_tx f2 = t2" "f_contacts f2 = map sv_node_id ?ss"
    "\<forall>n. dget (f_answers f2) n = (if n \<in> set ys then Some (answer_of C H R t2 (Delivered 1) n ss1) else dget (f_answers (?f t2)) n)"
    and st3: "o_net st3 = (o_net st2)\<lparr>p_servers := ss2\<rparr>" "o_outcomes st3 = o_outcomes st2"
      "\<forall>j. j \<noteq> 2 \<longrightarrow> dget (o_flights st3) j = dget (o_flights st2) j"
    by (rule batch_step [OF fl2(1) ft(1,2) fl2(2) sub(4,2) ft(3) st3_def, folded ss2_def])
  define st4 where "st4 = overlap_run C H R S (map (\<lambda>n. Deliver 2 n (Delivered 1)) xs) st3"
  define ss3 where "ss3 = after_batch C H R t2 ?d (set xs) ss2"
  have fl3: "\<forall>n\<in>set xs. dget (f_answers f2) n = None" "p_servers (o_net st3) = ss2"
    using f2(4) sub(5) by (auto simp: st3)
  obtain f2' where f2': "dget (o_flights st4) 2 = Some f2'" "f_tx f2' = t2" "f_contacts f2' = map sv_node_id ?ss"
    "\<forall>n. dget (f_answers f2') n = (if n \<in> set xs then Some (answer_of C H R t2 (Delivered 1) n ss2) else dget (f_answers f2) n)"
    and st4: "o_net st4 = (o_net st3)\<lparr>p_servers := ss3\<rparr>" "o_outcomes st4 = o_outcomes st3"
      "\<forall>j. j \<noteq> 2 \<longrightarrow> dget (o_flights st4) j = dget (o_flights st3) j"
    by (rule batch_step [OF f2(1-3) fl3(2) sub(3,1) fl3(1) st4_def, folded ss3_def])
  define st5 where "st5 = overlap_run C H R S (map (\<lambda>n. Deliver 1 n (Delivered 1)) ys) st4"
  have fl4: "\<forall>n\<in>set ys. dget (f_answers f1) n = None" "p_servers (o_net st4) = ss3" "dget (o_flights st4) 1 = Some f1"
    using f1(1,4) sub(5) by (auto simp: st4 st3)
  obtain f1' where f1': "dget (o_flights st5) 1 = Some f1'" "f_tx f1' = t1" "f_contacts f1' = map sv_node_id ?ss"
    "\<forall>n. dget (f_answers f1') n = (if n \<in> set ys then Some (answer_of C H R t1 (Delivered 1) n ss3) else dget (f_answers f1) n)"
    and st5: "o_net st5 = (o_net st4)\<lparr>p_servers := after_batch C H R t1 ?d (set ys) ss3\<rparr>" "o_outcomes st5 = o_outcomes st4"
      "\<forall>j. j \<noteq> 1 \<longrightarrow> dget (o_flights st5) j = dget (o_flights st4) j"
    by (rule batch_step [OF fl4(3) f1(2,3) fl4(2) sub(4,2) fl4(1) st5_def])
  have out: "o_outcomes st5 = []" "dget (o_flights st5) 2 = Some f2'" by (simp_all add: st5 st4 st3 st2 st1 f2'(1))
  have half: "ss2 = half_way C H R t1 t2 xs ?ss"
    using assms(4) sub(5) by (auto simp: ss2_def ss1_def after_batch_def half_way_def server_after_send)
  have same: "answer_of C H R t2 (Delivered 1) n ss1 = answer_of C H R t2 (Delivered 1) n ?ss" if "n \<in> set ys" for n
    unfolding ss1_def using that sub(5) by (intro answer_after_batch) auto
  have run: "overlap_run C H R S (Start 1 t1 # Start 2 t2 # map (\<lambda>n. Deliver 1 n (Delivered 1)) xs
      @ map (\<lambda>n. Deliver 2 n (Delivered 1)) ys @ map (\<lambda>n. Deliver 2 n (Delivered 1)) xs
      @ map (\<lambda>n. Deliver 1 n (Delivered 1)) ys) (at_rest net) = st5"
    by (simp add: overlap_run_simps st1_def st2_def st3_def st4_def st5_def del: overlap_step.simps)
  have net: "o_net st5 = net\<lparr>p_health := ?gets (?gets (p_health net)),
      p_servers := after_batch C H R t1 ?d (set ys) ss3\<rparr>"
    by (simp add: st5 st4 st3 st2 st1)
  have "\<forall>n\<in>set xs. dget (f_answers f1') n = Some (answer_of C H R t1 (Delivered 1) n ?ss)
      \<and> dget (f_answers f2') n = Some (answer_of C H R t2 (Delivered 1) n ss2)"
    and "\<forall>n\<in>set ys. dget (f_answers f2') n = Some (answer_of C H R t2 (Delivered 1) n ?ss)
      \<and> dget (f_answers f1') n = Some (answer_of C H R t1 (Delivered 1) n ss3)"
    using f1(4) f1'(4) f2(4) f2'(4) same sub(5) by auto
  then show ?thesis
    unfolding Let_def run half [symmetric] ss3_def [symmetric]
    using f1'(1-3) out f2'(2,3) net by blast
qed

text \<open>What a flight concludes is what a broadcast concludes whose other exchanges are lost.\<close>

lemma conclude_as_broadcast:
  assumes "distinct (map sv_node_id (p_servers net))" and "\<forall>s\<in>set (p_servers net). participates (p_health net) s"
    and "f_contacts f = map sv_node_id (p_servers net)"
    and "\<forall>s\<in>set (p_servers net). dget (f_answers f) (sv_node_id s) =
      Some (if sv_node_id s \<in> A then answer_of C H R t (Delivered 1) (sv_node_id s) (p_servers net) else None)"
    and "length (p_servers net') = length (p_servers net)" and "p_public_keys net' = p_public_keys net"
    and "p_quorum_threshold net' = p_quorum_threshold net" and "p_min_responses net' = p_min_responses net"
  shows "fst (conclude_broadcast C S now clock f net') =
    fst (p2p_broadcast C H R S now clock (\<lambda>n. if n \<in> A then Delivered 1 else Lost_before) t net)"
proof -
  have lost: "send_to_server C H R t Lost_before s = (None, s)" for s by (simp add: send_to_server_def)
  have "flight_raw f = p2p_raw C H R (\<lambda>n. if n \<in> A then Delivered 1 else Lost_before) t net"
    unfolding flight_raw_def p2p_raw_def assms(3) map_map
    using assms(2,4) by (auto simp: answer_of_server [OF assms(1)] lost)
  then show ?thesis using assms(5-) by (simp add: conclude_result p2p_broadcast_result p2p_results_def Let_def)
qed

context handler_registry
begin

lemma conflict_servers:
  fixes net :: "('sk, 'pk, 's) p2p"
  assumes "p2p_cohort m v net" and "wf_world v" and "execute R v t1 = Inr w1" and "execute R v t2 = Inr w2"
    and "execute R w1 t2 = Inl e2" and "execute R w2 t1 = Inl e1"
    and "distinct (map sv_node_id (p_servers net))" and "set xs \<inter> set ys = {}"
  shows "\<forall>s\<in>set (half_way C H R t1 t2 xs (p_servers net)). in_cohort m (if sv_node_id s \<in> set xs then w1 else w2) (sv_node s)"
    and "after_batch C H R t2 (\<lambda>_. Delivered 1) (set xs) (half_way C H R t1 t2 xs (p_servers net)) = (half_way C H R t1 t2 xs (p_servers net))"
    and "after_batch C H R t1 (\<lambda>_. Delivered 1) (set ys) (half_way C H R t1 t2 xs (p_servers net)) = (half_way C H R t1 t2 xs (p_servers net))"
    and "s \<in> set (p_servers net) \<Longrightarrow> sv_node_id s \<in> set xs \<Longrightarrow> answer_of C H R t2 (Delivered 1) (sv_node_id s) (half_way C H R t1 t2 xs (p_servers net)) = None"
    and "s \<in> set (p_servers net) \<Longrightarrow> sv_node_id s \<in> set ys \<Longrightarrow> answer_of C H R t1 (Delivered 1) (sv_node_id s) (half_way C H R t1 t2 xs (p_servers net)) = None"
proof -
  let ?half = "half_way C H R t1 t2 xs (p_servers net)"
  let ?h = "\<lambda>s. if sv_node_id s \<in> set xs then snd (send_to_server C H R t1 (Delivered 1) s)
      else snd (send_to_server C H R t2 (Delivered 1) s)"
  have id: "sv_node_id (?h s) = sv_node_id s" for s by (simp add: server_after_send)
  have c: "in_cohort m (if sv_node_id s \<in> set xs then w1 else w2) (sv_node (?h s))" if "s \<in> set (p_servers net)" for s
    using send_replica [OF _ assms(2), of m s "Delivered 1" t1 C H] send_replica [OF _ assms(2), of m s "Delivered 1" t2 C H]
      assms(1,3,4) that by (simp add: p2p_cohort_def world_step_def)
  show cohort: "\<forall>s\<in>set ?half. in_cohort m (if sv_node_id s \<in> set xs then w1 else w2) (sv_node s)"
    using c id unfolding half_way_def set_map by (metis (no_types, lifting) imageE)
  have r2: "send_to_server C H R t2 d s = (None, s)" if "s \<in> set ?half" "sv_node_id s \<in> set xs" for s d
    using cohort that by (intro send_rejects [OF _ assms(5), of m]) auto
  have r1: "send_to_server C H R t1 d s = (None, s)" if "s \<in> set ?half" "sv_node_id s \<in> set ys" for s d
  proof (rule send_rejects [OF _ assms(6), of m])
    have "sv_node_id s \<notin> set xs" using that(2) assms(8) by auto
    then show "in_cohort m w2 (sv_node s)" using cohort that(1) by auto
  qed
  show "after_batch C H R t2 (\<lambda>_. Delivered 1) (set xs) ?half = ?half"
    and "after_batch C H R t1 (\<lambda>_. Delivered 1) (set ys) ?half = ?half"
    using r1 r2 by (auto simp: after_batch_def intro: map_idI)
  have ids: "distinct (map sv_node_id ?half)"
  proof -
    have "map sv_node_id ?half = map sv_node_id (p_servers net)" unfolding half_way_def map_map comp_def id ..
    then show ?thesis using assms(7) by simp
  qed
  have mem: "?h s \<in> set ?half" if "s \<in> set (p_servers net)" for s using that by (auto simp: half_way_def)
  show "answer_of C H R t2 (Delivered 1) (sv_node_id s) ?half = None" if "s \<in> set (p_servers net)" "sv_node_id s \<in> set xs"
    using answer_of_server [OF ids mem [OF that(1)], where C = C and H = H and R = R, unfolded id] r2 [OF mem [OF that(1)], unfolded id] that(2) by simp
  show "answer_of C H R t1 (Delivered 1) (sv_node_id s) ?half = None" if "s \<in> set (p_servers net)" "sv_node_id s \<in> set ys"
    using answer_of_server [OF ids mem [OF that(1)], where C = C and H = H and R = R, unfolded id] r1 [OF mem [OF that(1)], unfolded id] that(2) by simp
qed

end

lemma honest_group_decides:
  fixes net :: "('sk, 'pk, 's) p2p"
  assumes "hex_digest H" and "signs_correctly C" and "p2p_inv C net" and "p2p_cohort m v net" and "wf_world v"
    and "\<forall>s\<in>set (p_servers net). \<not> n_malicious (sv_node s) \<and> participates (p_health net) s"
    and "execute ecn_handlers v t = Inr w" and "s \<in> set (p_servers net)" and "sv_node_id s \<in> A"
    and "p_min_responses net \<le> 1" and "p_quorum_threshold net \<le> 1"
  shows "\<exists>rs cr. fst (p2p_broadcast C H ecn_handlers S now clock (\<lambda>n. if n \<in> A then Delivered 1 else Lost_before) t net)
      = Inr (rs, cr) \<and> cr_consensus_reached cr \<and> cr_agreed_hash cr = Some (state_hash H m w) \<and> cr_faulty_nodes cr = []"
proof -
  let ?env = "\<lambda>n. if n \<in> A then Delivered 1 else Lost_before"
  have r: "responders ?env net = map sv_node (filter (\<lambda>s. sv_node_id s \<in> A) (p_servers net))"
    using assms(6) by (auto simp: responders_def reaches_def intro!: arg_cong [where f = "map sv_node"] filter_cong)
  have all: "\<forall>nd\<in>set (responders ?env net). in_cohort m v nd \<and> \<not> n_malicious nd"
    using assms(4,6) by (auto simp: r p2p_cohort_def)
  then have mal: "filter n_malicious (responders ?env net) = []" by (simp add: filter_empty_conv)
  have "sv_node s \<in> set (responders ?env net)" using assms(8,9) by (auto simp: r)
  then have len: "0 < length (responders ?env net)" by (cases "responders ?env net") auto
  have hc: "honest_count (responders ?env net) = length (responders ?env net)" "malicious_count (responders ?env net) = 0"
    using honest_malicious [of "responders ?env net"] mal by (simp_all add: malicious_count_def)
  have coh: "\<forall>nd\<in>set (responders ?env net). in_cohort m v nd" using all by blast
  have "malicious_count (responders ?env net) < honest_count (responders ?env net)"
    "p_min_responses net \<le> int (length (responders ?env net))"
    using hc len assms(10) by linarith+
  from p2p_decides [OF assms(1-3,5) coh assms(7) this, of S now clock] obtain rs cr where
    "fst (p2p_broadcast C H ecn_handlers S now clock ?env t net) = Inr (rs, cr)"
    "cr_agreed_hash cr = Some (state_hash H m w)" "cr_faulty_nodes cr = map n_node_id (filter n_malicious (responders ?env net))"
    "cr_consensus_reached cr \<longleftrightarrow> p_quorum_threshold net * rat_of_nat (length (responders ?env net))
      \<le> rat_of_nat (honest_count (responders ?env net))" by blast
  moreover have "p_quorum_threshold net * rat_of_nat k \<le> rat_of_nat k" for k
    using assms(11) mult_right_mono [of "p_quorum_threshold net" 1 "rat_of_nat k"] by simp
  ultimately show ?thesis using hc(1) mal by simp
qed

text \<open>C6. Two transactions that exclude each other can both be agreed, and split the network: take a network
  of honest nodes that all take part and hold one state, on which each of two transactions succeeds but
  neither after the other, and which they lead to two different states, as two transfers of different
  amounts from the same funds; one response is enough for the network, and its threshold is at most
  one. Divide the nodes into two groups, neither empty, and let broadcasts of the two transactions
  overlap so that the nodes of the first group receive the first transaction, those of the second the
  second, and then each the other. Then both broadcasts reach consensus, each on the hash of its own
  transaction's state, and report no faulty node. When both have concluded, every node of the first
  group holds the state after the first transaction alone and every node of the second group that after
  the second alone, so any node of one group and any of the other hold different states.\<close>

theorem overlap_double_agreement:
  assumes "hex_digest H" and "signs_correctly C" and "p2p_inv C net" and "p2p_cohort m v net" and "wf_world v"
    and "\<forall>s\<in>set (p_servers net). \<not> n_malicious (sv_node s) \<and> participates (p_health net) s"
    and "execute ecn_handlers v t1 = Inr w1" and "execute ecn_handlers v t2 = Inr w2"
    and "execute ecn_handlers w1 t2 = Inl e2" and "execute ecn_handlers w2 t1 = Inl e1" and "\<not> same_world w1 w2"
    and "distinct (xs @ ys)" and "set (xs @ ys) = sv_node_id ` set (p_servers net)" and "xs \<noteq> []" and "ys \<noteq> []"
    and "p_min_responses net \<le> 1" and "p_quorum_threshold net \<le> 1"
  shows "let st = overlap_run C H ecn_handlers S (conflict_schedule t1 t2 xs ys now clock) (at_rest net) in
    \<exists>rs1 cr1 rs2 cr2. o_outcomes st = [(1, Inr (rs1, cr1)), (2, Inr (rs2, cr2))]
      \<and> cr_consensus_reached cr1 \<and> cr_agreed_hash cr1 = Some (state_hash H m w1) \<and> cr_faulty_nodes cr1 = []
      \<and> cr_consensus_reached cr2 \<and> cr_agreed_hash cr2 = Some (state_hash H m w2) \<and> cr_faulty_nodes cr2 = []
      \<and> (\<forall>s\<in>set (p_servers (o_net st)). let w = (if sv_node_id s \<in> set xs then w1 else w2)
          in same_world (node_state (sv_node s)) w \<and> node_state_hash H (sv_node s) = state_hash H m w)
      \<and> (\<forall>a\<in>set (p_servers (o_net st)). \<forall>b\<in>set (p_servers (o_net st)).
          sv_node_id a \<in> set xs \<and> sv_node_id b \<in> set ys \<longrightarrow> \<not> same_world (node_state (sv_node a)) (node_state (sv_node b)))"
proof -
  let ?ss = "p_servers net" and ?half = "half_way C H ecn_handlers t1 t2 xs (p_servers net)"
  have ids: "distinct (map sv_node_id ?ss)" using assms(3) by (simp add: p2p_inv_def)
  have part: "\<forall>s\<in>set ?ss. participates (p_health net) s" using assms(6) by blast
  have dis: "set xs \<inter> set ys = {}" using assms(12) by simp
  note srv = ecn.conflict_servers [OF assms(4,5,7-10) ids dis, where C = C and H = H]
  define st where "st = overlap_run C H ecn_handlers S (Start 1 t1 # Start 2 t2 # map (\<lambda>n. Deliver 1 n (Delivered 1)) xs
    @ map (\<lambda>n. Deliver 2 n (Delivered 1)) ys @ map (\<lambda>n. Deliver 2 n (Delivered 1)) xs
    @ map (\<lambda>n. Deliver 1 n (Delivered 1)) ys) (at_rest net)"
  obtain f1 f2 hl where f: "dget (o_flights st) 1 = Some f1" "dget (o_flights st) 2 = Some f2" "o_outcomes st = []"
    "o_net st = net\<lparr>p_health := hl, p_servers := ?half\<rparr>" "f_tx f1 = t1" "f_tx f2 = t2"
    "f_contacts f1 = map sv_node_id ?ss" "f_contacts f2 = map sv_node_id ?ss"
    "\<forall>n\<in>set xs. dget (f_answers f1) n = Some (answer_of C H ecn_handlers t1 (Delivered 1) n ?ss)
        \<and> dget (f_answers f2) n = Some (answer_of C H ecn_handlers t2 (Delivered 1) n ?half)"
    "\<forall>n\<in>set ys. dget (f_answers f2) n = Some (answer_of C H ecn_handlers t2 (Delivered 1) n ?ss)
        \<and> dget (f_answers f1) n = Some (answer_of C H ecn_handlers t1 (Delivered 1) n ?half)"
    using conflict_exchanges [OF ids part assms(12,13), where C = C and H = H and R = ecn_handlers and S = S and ?t1.0 = t1
        and ?t2.0 = t2, unfolded Let_def, folded st_def,
        unfolded srv(2,3)] by blast
  have mem: "sv_node_id s \<in> set xs \<or> sv_node_id s \<in> set ys" if "s \<in> set ?ss" for s using assms(13) that by auto
  have a1: "\<forall>s\<in>set ?ss. dget (f_answers f1) (sv_node_id s) = Some (if sv_node_id s \<in> set xs
      then answer_of C H ecn_handlers t1 (Delivered 1) (sv_node_id s) ?ss else None)"
  proof
    fix s assume s: "s \<in> set ?ss"
    show "dget (f_answers f1) (sv_node_id s) = Some (if sv_node_id s \<in> set xs
        then answer_of C H ecn_handlers t1 (Delivered 1) (sv_node_id s) ?ss else None)"
    proof (cases "sv_node_id s \<in> set xs")
      case True
      then show ?thesis using f(9) [rule_format, OF True] by simp
    next
      case False
      then have y: "sv_node_id s \<in> set ys" using mem [OF s] by simp
      show ?thesis using f(10) [rule_format, OF y] srv(5) [OF s y] False by simp
    qed
  qed
  have a2: "\<forall>s\<in>set ?ss. dget (f_answers f2) (sv_node_id s) = Some (if sv_node_id s \<in> set ys
      then answer_of C H ecn_handlers t2 (Delivered 1) (sv_node_id s) ?ss else None)"
  proof
    fix s assume s: "s \<in> set ?ss"
    show "dget (f_answers f2) (sv_node_id s) = Some (if sv_node_id s \<in> set ys
        then answer_of C H ecn_handlers t2 (Delivered 1) (sv_node_id s) ?ss else None)"
    proof (cases "sv_node_id s \<in> set ys")
      case True
      then show ?thesis using f(10) [rule_format, OF True] by simp
    next
      case False
      then have y: "sv_node_id s \<in> set xs" using mem [OF s] by simp
      show ?thesis using f(9) [rule_format, OF y] srv(4) [OF s y] False by simp
    qed
  qed
  have "hd xs \<in> set xs" "hd ys \<in> set ys" using assms(14,15) by simp_all
  moreover from this have "hd xs \<in> sv_node_id ` set ?ss" "hd ys \<in> sv_node_id ` set ?ss"
    using assms(13) by auto
  ultimately obtain s1 s2 where s: "s1 \<in> set ?ss" "sv_node_id s1 \<in> set xs" "s2 \<in> set ?ss" "sv_node_id s2 \<in> set ys"
    by (elim imageE) simp
  note decide = honest_group_decides [OF assms(1-6)]
  let ?c1 = "conclude_broadcast C S now clock f1 (o_net st)"
  let ?c2 = "conclude_broadcast C S now clock f2 (snd ?c1)"
  have len: "length ?half = length ?ss" by (simp add: half_way_def)
  have "fst ?c1 = fst (p2p_broadcast C H ecn_handlers S now clock (\<lambda>n. if n \<in> set xs then Delivered 1 else Lost_before) t1 net)"
    by (rule conclude_as_broadcast [OF ids part f(7) a1]) (simp_all add: f(4) len)
  then obtain rs1 cr1 where 1: "fst ?c1 = Inr (rs1, cr1)" "cr_consensus_reached cr1"
    "cr_agreed_hash cr1 = Some (state_hash H m w1)" "cr_faulty_nodes cr1 = []"
    using decide [OF assms(7) s(1,2) assms(16,17), where S = S and now = now and clock = clock] by auto
  have "fst ?c2 = fst (p2p_broadcast C H ecn_handlers S now clock (\<lambda>n. if n \<in> set ys then Delivered 1 else Lost_before) t2 net)"
    by (rule conclude_as_broadcast [OF ids part f(8) a2]) (simp_all add: conclude_frame f(4) len)
  then obtain rs2 cr2 where 2: "fst ?c2 = Inr (rs2, cr2)" "cr_consensus_reached cr2"
    "cr_agreed_hash cr2 = Some (state_hash H m w2)" "cr_faulty_nodes cr2 = []"
    using decide [OF assms(8) s(3,4) assms(16,17), where S = S and now = now and clock = clock] by auto
  have answered: "\<not> (\<exists>n\<in>set (f_contacts f1). dget (f_answers f1) n = None)" "\<not> (\<exists>n\<in>set (f_contacts f2). dget (f_answers f2) n = None)"
    using a1 a2 f(7,8) by auto
  define st' where "st' = overlap_step C H ecn_handlers S (overlap_step C H ecn_handlers S st (Finish 1 now clock)) (Finish 2 now clock)"
  have run: "overlap_run C H ecn_handlers S (conflict_schedule t1 t2 xs ys now clock) (at_rest net) = st'"
    by (simp add: conflict_schedule_def st'_def st_def overlap_run_simps del: overlap_step.simps)
  have "o_outcomes st' = [(1, fst ?c1), (2, fst ?c2)] \<and> o_net st' = snd ?c2"
    using answered f(1-3) by (auto simp: st'_def dget_dpop split: prod.split)
  moreover have cohort: "in_cohort m (if sv_node_id s \<in> set xs then w1 else w2) (sv_node s)" if "s \<in> set ?half" for s
    using srv(1) that by blast
  moreover have "wf_world w1" "wf_world w2" using ecn.execute_wf assms(5,7,8) by blast+
  then have "same_world (node_state (sv_node s)) (if sv_node_id s \<in> set xs then w1 else w2)
      \<and> node_state_hash H (sv_node s) = state_hash H m (if sv_node_id s \<in> set xs then w1 else w2)" if "s \<in> set ?half" for s
    using cohort [OF that] in_cohort_hash [OF cohort [OF that], of H] by (auto simp: in_cohort_def split: if_splits)
  moreover have "\<not> same_world (node_state (sv_node a)) (node_state (sv_node b))"
    if "a \<in> set ?half" "b \<in> set ?half" "sv_node_id a \<in> set xs" "sv_node_id b \<in> set ys" for a b
  proof -
    have "sv_node_id b \<notin> set xs" using dis that(4) by auto
    then show ?thesis using cohort [OF that(1)] cohort [OF that(2)] that(3) assms(11) by (auto simp: in_cohort_def same_world_def)
  qed
  ultimately show ?thesis unfolding Let_def run using 1 2 by (simp add: conclude_frame f(4))
qed

subsection \<open>Witnesses\<close>

lemma overlap_sequential_example:
  "o_net (overlap_run example_crypto example_sha256 ecn_handlers sqlite_audit
      [Start 7 (example_transfer 100), Deliver 7 ''N3'' (Delivered 5), Deliver 7 ''N1'' (Delivered 5),
       Deliver 7 ''N2'' (Delivered 5), Finish 7 ''now'' (\<lambda>_. (0, 0))] (at_rest example_p2p))
    = snd (p2p_broadcast example_crypto example_sha256 ecn_handlers sqlite_audit ''now'' (\<lambda>_. (0, 0))
        (\<lambda>_. Delivered 5) (example_transfer 100) example_p2p)"
proof -
  have "mset [''N3'', ''N1'', ''N2''] = mset (map sv_node_id (filter (participates (p_health (o_net (at_rest example_p2p))))
      (p_servers (o_net (at_rest example_p2p)))))"
    by (simp add: at_rest_def example_p2p_servers example_p2p_participates server_init_def node_init_def)
  then show ?thesis
    using overlap_sequential [where C = example_crypto and st = "at_rest example_p2p" and i = 7 and H = example_sha256
        and R = ecn_handlers and S = sqlite_audit and t = "example_transfer 100" and env = "\<lambda>_. Delivered 5" and now = "''now''"
        and clock = "\<lambda>_. (0, 0)" and order = "[''N3'', ''N1'', ''N2'']"] example_p2p_inv
    by (simp add: at_rest_def Let_def)
qed

definition example_audited_p2p :: "(string, string, audit_table) p2p" where
  "example_audited_p2p = p2p_create example_crypto [(''N1'', None), (''N2'', None)] [''k1'', ''k2''] example_world
     (Some \<lparr>al_store = None, al_tenant_id = ''main'', al_events = []\<rparr>) default_quorum_threshold None None None"

lemma example_audited_servers:
  "p_servers example_audited_p2p = [server_init ''N1'' example_world False ''k1'', server_init ''N2'' example_world False ''k2'']"
  "p_audit_log example_audited_p2p = Some \<lparr>al_store = None, al_tenant_id = ''main'', al_events = []\<rparr>"
  "participates (p_health example_audited_p2p) s"
  "p_min_responses example_audited_p2p \<le> 1" "p_quorum_threshold example_audited_p2p \<le> 1"
  by (simp_all add: example_audited_p2p_def p2p_create_def p2p_init_def participates_def health_of_get new_health_def
      default_quorum_threshold_def)

lemma example_audited_inv: "p2p_inv example_crypto example_audited_p2p"
  unfolding example_audited_p2p_def by (rule p2p_inv_create) simp_all

lemma example_audited_cohort: "p2p_cohort False example_world example_audited_p2p"
  by (simp add: p2p_cohort_def example_audited_servers server_init_def in_cohort_init wf_example_world)

theorem overlap_replicas_witness:
  "\<exists>s. s \<in> set (p_servers (o_net (overlap_run example_crypto example_sha256 ecn_handlers sqlite_audit
        [Start 1 (example_transfer 100), Deliver 1 ''N1'' (Delivered 5)] (at_rest example_audited_p2p))))
     \<and> same_world (node_state (sv_node s)) (world_step ecn_handlers example_world (example_transfer 100))"
proof -
  let ?acts = "[Start 1 (example_transfer 100), Deliver 1 ''N1'' (Delivered 5)]"
  let ?st = "overlap_run example_crypto example_sha256 ecn_handlers sqlite_audit ?acts (at_rest example_audited_p2p)"
  let ?s = "snd (send_to_server example_crypto example_sha256 ecn_handlers (example_transfer 100) (Delivered 5)
      (server_init ''N1'' example_world False ''k1''))"
  have id: "sv_node_id (server_init n w m k) = n" for n w m k by (simp add: server_init_def node_init_def)
  have s: "?s \<in> set (p_servers (o_net ?st))" "executed_by (sv_node_id ?s) ?st = [example_transfer 100]"
    by (simp_all add: overlap_run_simps at_rest_def start_broadcast_def deliver_to_def example_audited_servers id
        executed_by_def server_after_send)
  from overlap_replicas [OF example_audited_cohort wf_example_world example_audited_servers(2) s(1),
      of example_sha256, unfolded s(2) Let_def]
  show ?thesis using s(1) by (intro exI [of _ ?s]) simp
qed

theorem overlap_double_agreement_witness:
  "\<exists>rs1 cr1 rs2 cr2. o_outcomes (overlap_run example_crypto example_sha256 ecn_handlers sqlite_audit
        (conflict_schedule (example_transfer 600) (example_transfer 700) [''N1''] [''N2''] ''now'' (\<lambda>_. (0, 0)))
        (at_rest example_audited_p2p)) = [(1, Inr (rs1, cr1)), (2, Inr (rs2, cr2))]
     \<and> cr_consensus_reached cr1 \<and> cr_consensus_reached cr2 \<and> cr_faulty_nodes cr1 = [] \<and> cr_faulty_nodes cr2 = []"
proof -
  let ?w = "\<lambda>a. example_world\<lparr>w_balances := Some [(''A'', 1000 - a), (''B'', 500 + a)]\<rparr>"
  have e: "execute ecn_handlers example_world (example_transfer 600) = Inr (?w 600)"
    "execute ecn_handlers example_world (example_transfer 700) = Inr (?w 700)"
    "execute ecn_handlers (?w 600) (example_transfer 700) = Inl (InsufficientFunds ''A'' 400 700)"
    "execute ecn_handlers (?w 700) (example_transfer 600) = Inl (InsufficientFunds ''A'' 300 600)"
    by (simp_all add: execute_def ecn_handlers_eq example_transfer_def blank_tx_def handle_transfer_def example_world_def
        dadd_def)
  have d: "\<not> same_world (?w 600) (?w 700)" by (auto simp: same_world_def example_world_def fun_eq_iff)
  have s: "\<forall>s\<in>set (p_servers example_audited_p2p). \<not> n_malicious (sv_node s) \<and> participates (p_health example_audited_p2p) s"
    "distinct ([''N1''] @ [''N2''])" "set ([''N1''] @ [''N2'']) = sv_node_id ` set (p_servers example_audited_p2p)"
    by (simp_all add: example_audited_servers server_init_def node_init_def)
  from overlap_double_agreement [OF hex_digest_example example_crypto_ok(1) example_audited_inv example_audited_cohort
      wf_example_world s(1) e d s(2,3) _ _ example_audited_servers(4,5), where S = sqlite_audit and now = "''now''"
      and clock = "\<lambda>_. (0, 0)"]
  show ?thesis unfolding Let_def by blast
qed

end
