(* ===== verification/Webhooks.thy ===== *)
theory Webhooks
  imports AuditLog
begin

section \<open>Webhooks\<close>

text \<open>
  The webhook registry of \<open>ecn/api.py\<close> (every tenant has one of its own as well), the three
  routes of the global registry and the dispatch after a round. \<open>uuid\<close> is the id \<open>uuid4\<close>
  returned. A dispatch is the list of the requests it posts, in order: what the HTTP client
  does with one, delivered or not, changes nothing here.
\<close>

definition webhook_events :: "string list" where
  "webhook_events = [''transaction'', ''fault'']"

record subscription =
  wb_webhook_id :: string
  wb_url :: string
  wb_events :: "string list"

type_synonym webhook_registry = "subscription dict"

definition subscribe :: "string \<Rightarrow> string \<Rightarrow> string list \<Rightarrow> webhook_registry \<Rightarrow> subscription \<times> webhook_registry" where
  "subscribe uuid url events reg =
     (let sub = \<lparr>wb_webhook_id = uuid, wb_url = url, wb_events = events\<rparr>
      in (sub, dset (wb_webhook_id sub) sub reg))"

definition unsubscribe :: "string \<Rightarrow> webhook_registry \<Rightarrow> bool \<times> webhook_registry" where
  "unsubscribe webhook_id reg =
     (if dget reg webhook_id \<noteq> None then (True, dpop webhook_id reg) else (False, reg))"

definition list_subscriptions :: "webhook_registry \<Rightarrow> subscription list" where
  "list_subscriptions reg = dvalues reg"

definition triggered :: "audit_event \<Rightarrow> string list" where
  "triggered event = [''transaction''] @ (if has_fault event then [''fault''] else [])"

definition wants :: "audit_event \<Rightarrow> subscription \<Rightarrow> bool" where
  "wants event sub \<longleftrightarrow> \<not> (wb_events sub \<noteq> [] \<and> \<not> (\<exists>t\<in>set (triggered event). t \<in> set (wb_events sub)))"

definition webhook_body :: "audit_event \<Rightarrow> subscription \<Rightarrow> json" where
  "webhook_body event sub = JObj [(''webhook_id'', JStr (wb_webhook_id sub)),
     (''event_types'', JList (map JStr (triggered event))), (''payload'', event_to_dict event)]"

definition dispatch :: "audit_event \<Rightarrow> webhook_registry \<Rightarrow> (string \<times> json) list" where
  "dispatch event reg =
     (if reg = [] then []
      else map (\<lambda>sub. (wb_url sub, webhook_body event sub)) (filter (wants event) (dvalues reg)))"

subsection \<open>Routes\<close>

text \<open>The body names a URL and the event types; an unknown type is refused.\<close>

definition validate_events :: "string list \<Rightarrow> http_error + unit" where
  "validate_events events = ensure (Http 422) (set events - set webhook_events = {})"

definition subscribe_webhook ::
  "string \<Rightarrow> string \<Rightarrow> string list \<Rightarrow> webhook_registry \<Rightarrow> http_error + subscription \<times> webhook_registry" where
  "subscribe_webhook uuid url events reg =
     bindE (validate_events events) (\<lambda>_. Inr (subscribe uuid url events reg))"

definition list_webhooks :: "webhook_registry \<Rightarrow> (string \<times> string \<times> string list) list" where
  "list_webhooks reg = map (\<lambda>s. (wb_webhook_id s, wb_url s, wb_events s)) (list_subscriptions reg)"

definition unsubscribe_webhook :: "string \<Rightarrow> webhook_registry \<Rightarrow> http_error + webhook_registry" where
  "unsubscribe_webhook webhook_id reg =
     (case unsubscribe webhook_id reg of (found, reg') \<Rightarrow> if found then Inr reg' else Inl (Http 404))"

subsection \<open>What a history of subscriptions delivers\<close>

datatype webhook_op = Sub string string "string list" | Unsub string

fun webhook_step :: "webhook_registry \<Rightarrow> webhook_op \<Rightarrow> webhook_registry" where
  "webhook_step reg (Sub uuid url events) =
     (case subscribe_webhook uuid url events reg of Inl _ \<Rightarrow> reg | Inr (_, reg') \<Rightarrow> reg')"
| "webhook_step reg (Unsub i) = (case unsubscribe_webhook i reg of Inl _ \<Rightarrow> reg | Inr reg' \<Rightarrow> reg')"

definition webhook_run :: "webhook_op list \<Rightarrow> webhook_registry" where
  "webhook_run ops = foldl webhook_step [] ops"

text \<open>The specification: the subscriptions made and not withdrawn since, oldest first.\<close>

fun subscribed_since :: "webhook_op list \<Rightarrow> subscription list" where
  "subscribed_since [] = []"
| "subscribed_since (Sub uuid url events # ops) =
     (if set events \<subseteq> set webhook_events \<and> Unsub uuid \<notin> set ops
      then [\<lparr>wb_webhook_id = uuid, wb_url = url, wb_events = events\<rparr>] else []) @ subscribed_since ops"
| "subscribed_since (Unsub i # ops) = subscribed_since ops"

fun op_id :: "webhook_op \<Rightarrow> string option" where
  "op_id (Sub uuid url events) = Some uuid"
| "op_id (Unsub i) = None"

definition fresh_ids :: "webhook_op list \<Rightarrow> bool" where
  "fresh_ids ops \<longleftrightarrow> distinct (List.map_filter op_id ops)"

lemma subscribed_since_snoc:
  "subscribed_since (ops @ [Sub uuid url events]) = subscribed_since ops @ subscribed_since [Sub uuid url events]"
  "subscribed_since (ops @ [Unsub i]) = filter (\<lambda>s. wb_webhook_id s \<noteq> i) (subscribed_since ops)"
  by (induction ops rule: subscribed_since.induct) auto

lemma subscribed_ids: "wb_webhook_id ` set (subscribed_since ops) \<subseteq> set (List.map_filter op_id ops)"
  by (induction ops rule: subscribed_since.induct) (auto simp: map_filter_simps)

lemma map_filter_snoc: "List.map_filter f (xs @ [x]) = List.map_filter f xs @ (case f x of None \<Rightarrow> [] | Some y \<Rightarrow> [y])"
  by (simp add: map_filter_def split: option.split)

lemma webhook_run_subs:
  "fresh_ids ops \<Longrightarrow> webhook_run ops = map (\<lambda>s. (wb_webhook_id s, s)) (subscribed_since ops)"
proof (induction ops rule: rev_induct)
  case Nil
  show ?case by (simp add: webhook_run_def)
next
  case (snoc op ops)
  have fresh: "fresh_ids ops" using snoc.prems by (simp add: fresh_ids_def map_filter_snoc)
  have run: "webhook_run (ops @ [op]) = webhook_step (webhook_run ops) op" by (simp add: webhook_run_def)
  show ?case
  proof (cases op)
    case (Sub uuid url events)
    then have "uuid \<notin> set (List.map_filter op_id ops)" using snoc.prems by (simp add: fresh_ids_def map_filter_snoc)
    then have "uuid \<notin> wb_webhook_id ` set (subscribed_since ops)" using subscribed_ids by blast
    then show ?thesis using snoc.IH [OF fresh] run [unfolded Sub]
      by (auto simp: Sub subscribed_since_snoc subscribe_webhook_def validate_events_def ensure_def subscribe_def Let_def
          dset_append_new image_image Diff_eq_empty_iff)
  next
    case (Unsub i)
    have "dpop i (map (\<lambda>s. (wb_webhook_id s, s)) xs) = map (\<lambda>s. (wb_webhook_id s, s)) (filter (\<lambda>s. wb_webhook_id s \<noteq> i) xs)"
      for xs by (induction xs) (auto simp: AList.delete_eq)
    moreover have "dget (map (\<lambda>s. (wb_webhook_id s, s)) xs) i = None \<Longrightarrow> filter (\<lambda>s. wb_webhook_id s \<noteq> i) xs = xs"
      for xs by (induction xs) (auto split: if_splits)
    from this [of "subscribed_since ops"] have "dget (map (\<lambda>s. (wb_webhook_id s, s)) (subscribed_since ops)) i = None
      \<longrightarrow> filter (\<lambda>s. wb_webhook_id s \<noteq> i) (subscribed_since ops) = subscribed_since ops" by blast
    ultimately show ?thesis using snoc.IH [OF fresh]
      by (auto simp: run [unfolded Unsub] Unsub subscribed_since_snoc unsubscribe_webhook_def unsubscribe_def)
  qed
qed

text \<open>C32. Webhook delivery is exact: whatever subscriptions were made, refused and withdrawn before, a
  round is posted once to each subscription that was accepted and not withdrawn and whose event
  types are empty or meet those of the round, in the order in which they subscribed, and to no
  other; the list of webhooks shows the same subscriptions.\<close>

theorem webhook_delivery_exact:
  assumes "fresh_ids ops"
  shows "dispatch event (webhook_run ops) =
      map (\<lambda>s. (wb_url s, webhook_body event s))
        (filter (\<lambda>s. wb_events s = [] \<or> ''transaction'' \<in> set (wb_events s)
            \<or> (has_fault event \<and> ''fault'' \<in> set (wb_events s))) (subscribed_since ops))
    \<and> list_subscriptions (webhook_run ops) = subscribed_since ops
    \<and> distinct (map wb_webhook_id (subscribed_since ops))"
proof -
  have "wants event = (\<lambda>s. wb_events s = [] \<or> ''transaction'' \<in> set (wb_events s)
      \<or> (has_fault event \<and> ''fault'' \<in> set (wb_events s)))"
    by (auto simp: wants_def triggered_def fun_eq_iff)
  moreover have "distinct (map wb_webhook_id (subscribed_since ops))"
    using assms
  proof (induction ops rule: subscribed_since.induct)
    case (2 uuid url events ops)
    then show ?case using subscribed_ids [of ops] by (auto simp: fresh_ids_def map_filter_simps)
  qed (simp_all add: fresh_ids_def map_filter_simps)
  ultimately show ?thesis
    using webhook_run_subs [OF assms] by (simp add: dispatch_def list_subscriptions_def comp_def)
qed

theorem webhook_delivery_exact_witness:
  "map fst (dispatch \<lparr>ae_round_id = 1, ae_timestamp = [], ae_transaction = JNull, ae_votes = [], ae_agreed_hash = None,
       ae_consensus_reached = True, ae_honest_nodes = [], ae_faulty_nodes = [], ae_invalid_sig_nodes = [],
       ae_vote_counts = []\<rparr>
     (webhook_run [Sub ''1'' ''http://a'' [], Sub ''2'' ''http://b'' [''fault''], Sub ''3'' ''http://c'' [''bogus''],
        Sub ''4'' ''http://d'' [''transaction''], Unsub ''1'']))
   = [''http://d'']"
  (is "map fst (dispatch ?e (webhook_run ?ops)) = _")
proof -
  have "fresh_ids ?ops" by (simp add: fresh_ids_def map_filter_simps)
  from webhook_delivery_exact [OF this, of ?e] show ?thesis
    by (simp add: webhook_events_def has_fault_def)
qed

end
