(* ===== verification/Billing.thy ===== *)
theory Billing
  imports Persistence PyFloat "HOL-Library.Product_Lexorder"
begin

section \<open>Billing\<close>

text \<open>
  \<open>ecn/billing.py\<close>: the pricing tiers, the amount billed for a round, the in-memory counters
  and ledger, the SLA statistics and the tracker over either the in-memory or the durable
  backends, which are given as records of operations. The environment variables, the date and
  the clock are arguments. A price is the decimal its literal denotes: the product with a node
  count has at most three decimals, so rounding the float product to six returns it. The verdict
  of the SLA compares two doubles, the quotient and the threshold, each the nearest to an exact
  value; it is the comparison of these values at any count below a million million. The rates
  shown are rounded to four decimals.

  The in-memory counters and ledger are interpretations of the same contracts as the SQLite
  stores. The locale \<open>billing_backends\<close> joins the contracts the tracker needs, and shows that
  its books agree with the rounds recorded, whichever backends it has.
\<close>

subsection \<open>Tiers and prices\<close>

record tier_config =
  tc_sla_threshold :: rat
  tc_quorum_threshold :: rat
  tc_price_per_rmae :: rat

definition pricing_tiers :: "tier_config dict" where
  "pricing_tiers =
     [(''basic'', \<lparr>tc_sla_threshold = 95 / 100, tc_quorum_threshold = 51 / 100, tc_price_per_rmae = 1 / 1000\<rparr>),
      (''standard'', \<lparr>tc_sla_threshold = 99 / 100, tc_quorum_threshold = 67 / 100, tc_price_per_rmae = 5 / 1000\<rparr>),
      (''critical'', \<lparr>tc_sla_threshold = 9999 / 10000, tc_quorum_threshold = 80 / 100, tc_price_per_rmae = 20 / 1000\<rparr>)]"

definition default_tier :: string where
  "default_tier = ''standard''"

definition get_pricing_tier :: "string option \<Rightarrow> string" where
  "get_pricing_tier ecn_pricing_tier =
     (let tier = strip (lower (case ecn_pricing_tier of None \<Rightarrow> default_tier | Some t \<Rightarrow> t))
      in if tier \<notin> fst ` set pricing_tiers then default_tier else tier)"

text \<open>\<open>KeyError\<close> is \<open>None\<close>; an empty name is falsy and means the active tier.\<close>

definition get_tier_config :: "string option \<Rightarrow> string option \<Rightarrow> tier_config option" where
  "get_tier_config env tier =
     dget pricing_tiers (case tier of None \<Rightarrow> get_pricing_tier env
       | Some t \<Rightarrow> if t = [] then get_pricing_tier env else t)"

definition compute_billed_amount :: "string option \<Rightarrow> int \<Rightarrow> string option \<Rightarrow> rat option" where
  "compute_billed_amount env node_count tier =
     map_option (\<lambda>config. of_int node_count * tc_price_per_rmae config) (get_tier_config env tier)"

lemma active_tier: "get_pricing_tier env \<in> {''basic'', ''standard'', ''critical''}"
  by (auto simp: get_pricing_tier_def Let_def pricing_tiers_def default_tier_def)

lemma active_config: "\<exists>c. get_tier_config env None = Some c"
  using active_tier [of env] by (auto simp: get_tier_config_def pricing_tiers_def)

subsection \<open>Periods\<close>

text \<open>A date as \<open>strftime\<close> prints it: year, and month and day with two digits.\<close>

record date =
  d_year :: nat
  d_month :: nat
  d_day :: nat

definition two_digits :: "nat \<Rightarrow> string" where
  "two_digits n = (if n < 10 then ''0'' @ str_nat n else str_nat n)"

definition current_period :: "string option \<Rightarrow> date \<Rightarrow> string" where
  "current_period ecn_billing_period now =
     (let granularity = lower (case ecn_billing_period of None \<Rightarrow> ''monthly'' | Some g \<Rightarrow> g);
          month = str_nat (d_year now) @ ''-'' @ two_digits (d_month now)
      in if granularity = ''daily'' then month @ ''-'' @ two_digits (d_day now)
         else if granularity = ''yearly'' \<or> granularity = ''annual'' then str_nat (d_year now)
         else month)"

subsection \<open>In-memory backends\<close>

definition mem_increment :: "string \<Rightarrow> string \<Rightarrow> usage_table \<Rightarrow> usage_table" where
  "mem_increment tenant_id period counts =
     dset (tenant_id, period) (dget_or counts (tenant_id, period) 0 + 1) counts"

definition mem_get_count :: "string \<Rightarrow> string \<Rightarrow> usage_table \<Rightarrow> int" where
  "mem_get_count tenant_id period counts = dget_or counts (tenant_id, period) 0"

definition mem_get_all_periods :: "string \<Rightarrow> usage_table \<Rightarrow> (string \<times> int) list" where
  "mem_get_all_periods tenant_id counts =
     map (\<lambda>((tid, period), n). (period, n)) (filter (\<lambda>((tid, period), n). tid = tenant_id) (sorted_items counts))"

record mem_ledger =
  ml_entries :: "ledger_entry list"
  ml_seq :: nat

definition mem_append_entry ::
  "string \<Rightarrow> string \<Rightarrow> string \<Rightarrow> int \<Rightarrow> rat \<Rightarrow> bool \<Rightarrow> int \<Rightarrow> mem_ledger \<Rightarrow> mem_ledger" where
  "mem_append_entry tx_id tenant_id period node_round_count billed_amount consensus_reached now l =
     (let seq = ml_seq l + 1 in
      \<lparr>ml_entries = ml_entries l @
         [\<lparr>le_ledger_id = seq, le_tx_id = tx_id, le_tenant_id = tenant_id, le_period = period,
           le_node_round_count = node_round_count, le_billed_amount = billed_amount,
           le_consensus_reached = consensus_reached, le_recorded_at = now\<rparr>],
       ml_seq = seq\<rparr>)"

definition mem_load_entries :: "string \<Rightarrow> mem_ledger \<Rightarrow> ledger_entry list" where
  "mem_load_entries tenant_id l = filter (\<lambda>e. le_tenant_id e = tenant_id) (ml_entries l)"

definition mem_ledger_empty :: mem_ledger where
  "mem_ledger_empty = \<lparr>ml_entries = [], ml_seq = 0\<rparr>"

definition mem_counts :: "usage_table counter_ops" where
  "mem_counts = \<lparr>co_increment = mem_increment, co_get_count = mem_get_count,
     co_get_all_periods = mem_get_all_periods\<rparr>"

definition mem_ledgers :: "mem_ledger ledger_ops" where
  "mem_ledgers = \<lparr>lo_append_entry = mem_append_entry, lo_load_entries = mem_load_entries\<rparr>"

interpretation mem_counts: counter_store mem_counts "[]"
  by standard (auto simp: mem_counts_def mem_get_count_def mem_increment_def dget_or_def)

interpretation mem_ledgers: ledger_store mem_ledgers mem_ledger_empty "\<lambda>_. True"
  by standard (auto simp: mem_ledgers_def mem_load_entries_def mem_append_entry_def mem_ledger_empty_def Let_def)

text \<open>The SLA statistics, always in memory.\<close>

record sla_tracker =
  sla_total :: "int dict"
  sla_faults :: "int dict"

definition sla_record :: "string \<Rightarrow> bool \<Rightarrow> sla_tracker \<Rightarrow> sla_tracker" where
  "sla_record tenant_id consensus_reached s =
     (let s' = s\<lparr>sla_total := dset tenant_id (dget_or (sla_total s) tenant_id 0 + 1) (sla_total s)\<rparr> in
      if \<not> consensus_reached
      then s'\<lparr>sla_faults := dset tenant_id (dget_or (sla_faults s') tenant_id 0 + 1) (sla_faults s')\<rparr>
      else s')"

definition sla_get_stats :: "string \<Rightarrow> sla_tracker \<Rightarrow> int \<times> int" where
  "sla_get_stats tenant_id s = (dget_or (sla_total s) tenant_id 0, dget_or (sla_faults s) tenant_id 0)"

subsection \<open>The tracker\<close>

record ('s, 'l) tracker =
  bt_store :: "'s option"
  bt_ledger :: "'l option"
  bt_mem :: usage_table
  bt_mem_ledger :: mem_ledger
  bt_sla :: sla_tracker

definition tracker_init :: "'s option \<Rightarrow> 'l option \<Rightarrow> ('s, 'l) tracker" where
  "tracker_init store ledger =
     \<lparr>bt_store = store, bt_ledger = ledger, bt_mem = [], bt_mem_ledger = mem_ledger_empty,
      bt_sla = \<lparr>sla_total = [], sla_faults = []\<rparr>\<rparr>"

text \<open>What the environment provides to a call: the two variables, the date and the clock.\<close>

record billing_env =
  be_tier :: "string option"
  be_period :: "string option"
  be_date :: date
  be_now :: int

definition billed :: "billing_env \<Rightarrow> int \<Rightarrow> rat" where
  "billed env node_count =
     (case compute_billed_amount (be_tier env) node_count None of None \<Rightarrow> 0 | Some a \<Rightarrow> a)"

definition record_round ::
  "'s counter_ops \<Rightarrow> 'l ledger_ops \<Rightarrow> billing_env \<Rightarrow> string \<Rightarrow> string \<Rightarrow> int \<Rightarrow> bool
     \<Rightarrow> ('s, 'l) tracker \<Rightarrow> rat \<times> ('s, 'l) tracker" where
  "record_round S L env tenant_id tx_id node_count consensus_reached tr =
     (let period = current_period (be_period env) (be_date env);
          billed_amount = billed env node_count;
          node_round_count = node_count;
          tr = (case bt_store tr of
                  Some s \<Rightarrow> tr\<lparr>bt_store := Some (co_increment S tenant_id period s)\<rparr>
                | None \<Rightarrow> tr\<lparr>bt_mem := mem_increment tenant_id period (bt_mem tr)\<rparr>);
          tr = (case bt_ledger tr of
                  Some l \<Rightarrow> tr\<lparr>bt_ledger := Some (lo_append_entry L tx_id tenant_id period node_round_count
                              billed_amount consensus_reached (be_now env) l)\<rparr>
                | None \<Rightarrow> tr\<lparr>bt_mem_ledger := mem_append_entry tx_id tenant_id period node_round_count
                              billed_amount consensus_reached (be_now env) (bt_mem_ledger tr)\<rparr>);
          tr = tr\<lparr>bt_sla := sla_record tenant_id consensus_reached (bt_sla tr)\<rparr>
      in (billed_amount, tr))"

record usage =
  u_tenant_id :: string
  u_current_period :: string
  u_round_count :: int
  u_all_periods :: "(string \<times> int) list"

definition get_usage :: "'s counter_ops \<Rightarrow> billing_env \<Rightarrow> string \<Rightarrow> ('s, 'l) tracker \<Rightarrow> usage" where
  "get_usage S env tenant_id tr =
     (let period = current_period (be_period env) (be_date env);
          (n, history) = (case bt_store tr of
             Some s \<Rightarrow> (co_get_count S tenant_id period s, co_get_all_periods S tenant_id s)
           | None \<Rightarrow> (mem_get_count tenant_id period (bt_mem tr), mem_get_all_periods tenant_id (bt_mem tr)))
      in \<lparr>u_tenant_id = tenant_id, u_current_period = period, u_round_count = n, u_all_periods = history\<rparr>)"

definition get_billing_ledger :: "'l ledger_ops \<Rightarrow> string \<Rightarrow> ('s, 'l) tracker \<Rightarrow> ledger_entry list" where
  "get_billing_ledger L tenant_id tr =
     (case bt_ledger tr of
        Some l \<Rightarrow> lo_load_entries L tenant_id l
      | None \<Rightarrow> mem_load_entries tenant_id (bt_mem_ledger tr))"

record sla =
  s_tenant_id :: string
  s_tier :: string
  s_sla_threshold :: rat
  s_quorum_threshold :: rat
  s_price_per_rmae :: rat
  s_total_rounds :: int
  s_fault_rounds :: int
  s_fault_rate :: rat
  s_consensus_rate :: rat
  s_sla_met :: bool
  s_credits_earned :: rat

definition get_sla :: "billing_env \<Rightarrow> string \<Rightarrow> ('s, 'l) tracker \<Rightarrow> sla option" where
  "get_sla env tenant_id tr =
     (let tier = get_pricing_tier (be_tier env) in
      map_option (\<lambda>config.
        let (total, fault_rounds) = sla_get_stats tenant_id (bt_sla tr);
            consensus_rate = (if 0 < total then of_int (total - fault_rounds) / of_int total else 1);
            shown_consensus_rate = (if 0 < total then round4 (double_quotient (total - fault_rounds) total) else 1);
            shown_fault_rate = (if 0 < total then round4 (double_quotient fault_rounds total) else 0)
        in \<lparr>s_tenant_id = tenant_id, s_tier = tier, s_sla_threshold = tc_sla_threshold config,
            s_quorum_threshold = tc_quorum_threshold config, s_price_per_rmae = tc_price_per_rmae config,
            s_total_rounds = total, s_fault_rounds = fault_rounds, s_fault_rate = shown_fault_rate,
            s_consensus_rate = shown_consensus_rate, s_sla_met = (tc_sla_threshold config \<le> consensus_rate),
            s_credits_earned = 0\<rparr>)
        (get_tier_config (be_tier env) (Some tier)))"

subsection \<open>The books\<close>

type_synonym billing_round = "billing_env \<times> string \<times> string \<times> int \<times> bool"

definition rd_tenant :: "billing_round \<Rightarrow> string" where
  "rd_tenant rd = fst (snd rd)"

definition rd_period :: "billing_round \<Rightarrow> string" where
  "rd_period rd = current_period (be_period (fst rd)) (be_date (fst rd))"

definition rd_reached :: "billing_round \<Rightarrow> bool" where
  "rd_reached rd = snd (snd (snd (snd rd)))"

text \<open>What a ledger entry is to say of its round, and what it says.\<close>

definition rd_entry :: "billing_round \<Rightarrow> string \<times> string \<times> int \<times> rat \<times> bool \<times> int" where
  "rd_entry rd = (case rd of (env, tid, tx_id, n, reached) \<Rightarrow>
     (tx_id, rd_period rd, n, billed env n, reached, be_now env))"

definition le_entry :: "ledger_entry \<Rightarrow> string \<times> string \<times> int \<times> rat \<times> bool \<times> int" where
  "le_entry e = (le_tx_id e, le_period e, le_node_round_count e, le_billed_amount e,
     le_consensus_reached e, le_recorded_at e)"

definition record_rounds ::
  "'s counter_ops \<Rightarrow> 'l ledger_ops \<Rightarrow> billing_round list \<Rightarrow> ('s, 'l) tracker \<Rightarrow> ('s, 'l) tracker" where
  "record_rounds S L rds tr =
     foldl (\<lambda>tr (env, tid, tx_id, n, reached). snd (record_round S L env tid tx_id n reached tr)) tr rds"

definition tracker_count :: "'s counter_ops \<Rightarrow> string \<Rightarrow> string \<Rightarrow> ('s, 'l) tracker \<Rightarrow> int" where
  "tracker_count S t p tr = (case bt_store tr of Some s \<Rightarrow> co_get_count S t p s | None \<Rightarrow> mem_get_count t p (bt_mem tr))"

lemma tracker_count_usage:
  "u_round_count (get_usage S env t tr) = tracker_count S t (current_period (be_period env) (be_date env)) tr"
  by (simp add: get_usage_def tracker_count_def Let_def split: option.split)

locale billing_backends =
  c: counter_store S s0 + l: ledger_store L l0 ok
  for S :: "'s counter_ops" and s0 :: 's and L :: "'l ledger_ops" and l0 :: 'l and ok :: "'l \<Rightarrow> bool"
begin

lemma count_round:
  "tracker_count S t p (snd (record_round S L env tid tx_id n reached tr)) = tracker_count S t p tr
     + (if t = tid \<and> p = rd_period (env, tid, tx_id, n, reached) then 1 else 0)"
  using mem_counts.get_increment [of t p tid "rd_period (env, tid, tx_id, n, reached)" "bt_mem tr"]
  by (auto simp: tracker_count_def record_round_def Let_def c.get_increment mem_counts_def rd_period_def
      split: option.splits)

lemma ledger_round:
  assumes "pred_option ok (bt_ledger tr)"
  shows "map le_entry (get_billing_ledger L t (snd (record_round S L env tid tx_id n reached tr)))
      = map le_entry (get_billing_ledger L t tr)
        @ (if t = tid then [rd_entry (env, tid, tx_id, n, reached)] else [])"
    and "pred_option ok (bt_ledger (snd (record_round S L env tid tx_id n reached tr)))"
proof -
  let ?tr = "snd (record_round S L env tid tx_id n reached tr)"
  let ?p = "rd_period (env, tid, tx_id, n, reached)"
  have led: "bt_ledger ?tr = map_option (lo_append_entry L tx_id tid ?p n (billed env n) reached (be_now env)) (bt_ledger tr)"
    and mem: "bt_ledger tr = None \<Longrightarrow> bt_mem_ledger ?tr =
      mem_append_entry tx_id tid ?p n (billed env n) reached (be_now env) (bt_mem_ledger tr)"
    by (auto simp: record_round_def Let_def rd_period_def split: option.splits)
  show "pred_option ok (bt_ledger ?tr)" using assms led l.inv_append by (cases "bt_ledger tr") auto
  show "map le_entry (get_billing_ledger L t ?tr) = map le_entry (get_billing_ledger L t tr)
        @ (if t = tid then [rd_entry (env, tid, tx_id, n, reached)] else [])"
  proof (cases "bt_ledger tr")
    case None
    then show ?thesis
      by (simp add: get_billing_ledger_def led mem mem_load_entries_def mem_append_entry_def Let_def
          le_entry_def rd_entry_def)
  next
    case (Some x)
    then have "ok x" using assms by simp
    then obtain i where "lo_load_entries L t (lo_append_entry L tx_id tid ?p n (billed env n) reached (be_now env) x)
      = lo_load_entries L t x @ (if t = tid then
          [\<lparr>le_ledger_id = i, le_tx_id = tx_id, le_tenant_id = tid, le_period = ?p, le_node_round_count = n,
            le_billed_amount = billed env n, le_consensus_reached = reached, le_recorded_at = be_now env\<rparr>] else [])"
      using l.entries_append by blast
    then show ?thesis by (simp add: get_billing_ledger_def led Some le_entry_def rd_entry_def)
  qed
qed

lemma sla_round:
  "sla_get_stats t (bt_sla (snd (record_round S L env tid tx_id n reached tr))) =
     (fst (sla_get_stats t (bt_sla tr)) + (if t = tid then 1 else 0),
      snd (sla_get_stats t (bt_sla tr)) + (if t = tid \<and> \<not> reached then 1 else 0))"
  by (auto simp: sla_get_stats_def record_round_def Let_def sla_record_def split: option.splits)

definition books :: "billing_round list \<Rightarrow> ('s, 'l) tracker \<Rightarrow> bool" where
  "books rds tr \<longleftrightarrow> pred_option ok (bt_ledger tr) \<and>
     (\<forall>t. map le_entry (get_billing_ledger L t tr) = map rd_entry (filter (\<lambda>rd. rd_tenant rd = t) rds)
        \<and> (\<forall>p. tracker_count S t p tr = int (length (filter (\<lambda>rd. rd_tenant rd = t \<and> rd_period rd = p) rds)))
        \<and> sla_get_stats t (bt_sla tr) = (int (length (filter (\<lambda>rd. rd_tenant rd = t) rds)),
             int (length (filter (\<lambda>rd. rd_tenant rd = t \<and> \<not> rd_reached rd) rds))))"

lemma books_open: "store \<in> {None, Some s0} \<Longrightarrow> ledger \<in> {None, Some l0} \<Longrightarrow> books [] (tracker_init store ledger)"
  by (auto simp: books_def tracker_init_def get_billing_ledger_def tracker_count_def sla_get_stats_def
      mem_load_entries_def mem_ledger_empty_def mem_get_count_def dget_or_def c.get_empty l.entries_empty l.inv_empty)

lemma books_step:
  assumes "books rds tr"
  shows "books (rds @ [(env, tid, tx_id, n, reached)]) (snd (record_round S L env tid tx_id n reached tr))"
  using assms ledger_round [of tr]
  unfolding books_def
  by (auto simp: count_round sla_round rd_tenant_def rd_reached_def)

lemma books_balance:
  "store \<in> {None, Some s0} \<Longrightarrow> ledger \<in> {None, Some l0} \<Longrightarrow>
    books rds (record_rounds S L rds (tracker_init store ledger))"
proof (induction rds rule: rev_induct)
  case Nil
  then show ?case by (simp add: record_rounds_def books_open)
next
  case (snoc rd rds)
  then show ?case by (cases rd) (simp add: record_rounds_def books_step)
qed

end

interpretation sqlite_books: billing_backends sqlite_billing "billing_init_db None" sqlite_ledger "ledger_init_db None" ledger_table_inv
  by unfold_locales

interpretation mem_books: billing_backends mem_counts "[]" mem_ledgers mem_ledger_empty "\<lambda>_. True"
  by unfold_locales

text \<open>C25. The books agree: after any rounds of any tenants, whether the tracker keeps its counters and
  its ledger in memory or in SQLite, the ledger of a tenant has one entry for each of its rounds,
  in order, with the nodes, the amount and the verdict of the round; its usage counter of the
  current period counts exactly its rounds of that period; and the SLA statistics count its
  rounds and those without consensus.\<close>

theorem billing_books_agree:
  "let tr = record_rounds sqlite_billing sqlite_ledger rds
          (tracker_init (if durable_store then Some (billing_init_db None) else None)
             (if durable_ledger then Some (ledger_init_db None) else None));
       own = filter (\<lambda>rd. rd_tenant rd = tid) rds
   in map le_entry (get_billing_ledger sqlite_ledger tid tr) = map rd_entry own
     \<and> u_round_count (get_usage sqlite_billing env tid tr) =
         int (length (filter (\<lambda>rd. rd_period rd = current_period (be_period env) (be_date env)) own))
     \<and> sla_get_stats tid (bt_sla tr) =
         (int (length own), int (length (filter (\<lambda>rd. \<not> rd_reached rd) own)))"
proof -
  have "(if durable_store then Some (billing_init_db None) else None) \<in> {None, Some (billing_init_db None)}"
    and "(if durable_ledger then Some (ledger_init_db None) else None) \<in> {None, Some (ledger_init_db None)}" by simp_all
  from sqlite_books.books_balance [OF this, of rds] show ?thesis
    by (simp add: sqlite_books.books_def tracker_count_usage Let_def conj_commute)
qed

text \<open>The ledger only grows: recording a round appends at most one entry to what a tenant's ledger
  shows and changes no entry there was, and a durable ledger that is opened again shows the same
  entries.\<close>

lemma ledger_append_only:
  assumes "ledger_table_inv l"
  shows "(\<exists>new. load_entries t (append_entry x tid p n a r now l) = load_entries t l @ new
        \<and> length new = (if t = tid then 1 else 0))
    \<and> ledger_table_inv (append_entry x tid p n a r now l) \<and> ledger_init_db (Some l) = l"
  using sqlite_ledger.entries_append [OF assms, of t x tid p n a r now] ledger_inv_append [OF assms]
  by (auto simp: sqlite_ledger_def ledger_init_db_def)

lemma ledger_append_only_example:
  "\<exists>new. load_entries ''t'' (append_entry ''x'' ''t'' ''2026'' 5 (1 / 40) True 0 (ledger_init_db None))
      = load_entries ''t'' (ledger_init_db None) @ new \<and> length new = 1"
  using ledger_append_only [OF sqlite_ledger.inv_empty, of "''t''" "''x''" "''t''"] by simp

text \<open>The price is always defined: whatever \<open>ECN_PRICING_TIER\<close> holds, a round of \<open>n\<close> nodes is billed
  \<open>n\<close> times the price of a listed tier, the standard one when the name is unknown, and never
  fails; amounts add up over the nodes.\<close>

lemma billed_amount_total:
  "get_pricing_tier env \<in> {''basic'', ''standard'', ''critical''}
   \<and> (\<exists>price. price \<in> {1 / 1000, 5 / 1000, 20 / 1000}
        \<and> compute_billed_amount env n None = Some (of_int n * price)
        \<and> compute_billed_amount env (n + m) None = Some (of_int n * price + of_int m * price))"
proof -
  have "\<exists>c. get_tier_config env None = Some c \<and> tc_price_per_rmae c \<in> {1 / 1000, 5 / 1000, 20 / 1000}"
    using active_tier [of env] by (auto simp: get_tier_config_def pricing_tiers_def)
  then obtain c where "get_tier_config env None = Some c" "tc_price_per_rmae c \<in> {1 / 1000, 5 / 1000, 20 / 1000}"
    by blast
  then show ?thesis
    using active_tier [of env]
    by (intro conjI exI [of _ "tc_price_per_rmae c"]) (simp_all add: compute_billed_amount_def algebra_simps)
qed

text \<open>The SLA verdict: the report is always defined, the rates it shows are in range and within one
  in 19999 of the true ones, and the agreement is met exactly when the rounds without consensus are at
  most the share the tier allows of the tenant's rounds.\<close>

lemma sla_verdict:
  assumes "sla_get_stats tid (bt_sla tr) = (rounds, faults)" and "0 \<le> faults" and "faults \<le> rounds" and "0 < rounds"
  shows "\<exists>r config. get_sla env tid tr = Some r \<and> get_tier_config (be_tier env) None = Some config
    \<and> \<bar>s_fault_rate r - of_int faults / of_int rounds\<bar> \<le> 1 / 19999
    \<and> \<bar>s_consensus_rate r - of_int (rounds - faults) / of_int rounds\<bar> \<le> 1 / 19999
    \<and> 0 \<le> s_fault_rate r \<and> s_fault_rate r \<le> 1 \<and> 0 \<le> s_consensus_rate r \<and> s_consensus_rate r \<le> 1
    \<and> (s_sla_met r \<longleftrightarrow> of_int faults \<le> (1 - tc_sla_threshold config) * of_int rounds)"
proof -
  obtain config where c: "get_tier_config (be_tier env) None = Some config" using active_config by blast
  have "get_pricing_tier (be_tier env) \<noteq> []" using active_tier [of "be_tier env"] by auto
  then have c': "get_tier_config (be_tier env) (Some (get_pricing_tier (be_tier env))) = Some config"
    using c by (simp add: get_tier_config_def)
  have t: "(0::rat) < of_int rounds" using assms(4) by simp
  then have met: "tc_sla_threshold config \<le> of_int (rounds - faults) / of_int rounds
      \<longleftrightarrow> of_int faults \<le> (1 - tc_sla_threshold config) * of_int rounds"
    by (auto simp: field_simps)
  show ?thesis
    using assms c c' met rounded_rate [OF assms(2,3)] rounded_rate [of "rounds - faults" rounds]
    by (auto simp: get_sla_def Let_def)
qed

lemma sla_verdict_example:
  "\<exists>r. get_sla \<lparr>be_tier = None, be_period = None, be_date = \<lparr>d_year = 2026, d_month = 4, d_day = 1\<rparr>, be_now = 0\<rparr> ''t''
      ((tracker_init None None :: (usage_table, ledger_table) tracker)
         \<lparr>bt_sla := \<lparr>sla_total = [(''t'', 100)], sla_faults = [(''t'', 2)]\<rparr>\<rparr>) = Some r
     \<and> \<not> s_sla_met r"
proof -
  let ?tr = "(tracker_init None None :: (usage_table, ledger_table) tracker)
         \<lparr>bt_sla := \<lparr>sla_total = [(''t'', 100)], sla_faults = [(''t'', 2)]\<rparr>\<rparr>"
  have "sla_get_stats ''t'' (bt_sla ?tr) = (100, 2)" by (simp add: sla_get_stats_def dget_or_def)
  from sla_verdict [OF this _ _ _, of "\<lparr>be_tier = None, be_period = None, be_date = \<lparr>d_year = 2026, d_month = 4, d_day = 1\<rparr>, be_now = 0\<rparr>"]
  show ?thesis
    by (auto simp: get_tier_config_def get_pricing_tier_def default_tier_def pricing_tiers_def strip_def lower_def
        lower_char_def py_space_def Let_def)
qed

subsection \<open>Usage history\<close>

text \<open>The history is the same list from memory and from SQLite, for the same counters.\<close>

lemma history_backends_agree:
  assumes "wf_dict counts"
  shows "mem_get_all_periods t counts = billing_get_all_periods t counts"
proof -
  let ?mine = "\<lambda>((tid, period), n). tid = t" and ?row = "\<lambda>((tid, period), n). (period, n)"
  let ?f = "\<lambda>r :: (string \<times> string) \<times> int. (snd (fst r), snd r)"
  have row: "?row = ?f" by (auto simp: fun_eq_iff)
  have mine: "?mine = (\<lambda>r :: (string \<times> string) \<times> int. fst (fst r) = t)" by (auto simp: fun_eq_iff)
  let ?mem = "map ?f (filter (\<lambda>r. fst (fst r) = t) (sorted_items counts))"
  let ?sql = "map ?f (filter (\<lambda>r. fst (fst r) = t) counts)"
  have mset: "mset ?mem = mset ?sql" by (simp only: mset_map mset_filter mset_sorted_items)
  have "distinct (map fst (filter (\<lambda>r. fst (fst r) = t) counts))" using assms by (rule distinct_map_filter)
  then have "distinct (map (snd \<circ> fst) (filter (\<lambda>r. fst (fst r) = t) counts))"
    by (auto simp: distinct_map inj_on_def)
  then have wf: "wf_dict ?sql" by (simp add: comp_def)
  have "sorted (map fst (sorted_items counts))" by (simp add: sorted_items_def)
  then have "sorted (map fst (filter (\<lambda>r. fst (fst r) = t) (sorted_items counts)))" by (rule sorted_filter)
  then have "sorted (map fst ?mem)"
    by (simp add: sorted_map comp_def) (rule sorted_wrt_mono_rel [rotated], assumption, auto simp: less_eq_prod_def)
  then have "sorted_items ?mem = ?mem" by (simp add: sorted_items_def sort_key_id_if_sorted)
  moreover have "sorted_items ?mem = sorted_items ?sql"
    by (rule sorted_items_perm [OF mset [symmetric] wf, symmetric])
  ultimately show ?thesis
    by (simp add: mem_get_all_periods_def billing_get_all_periods_def row mine sorted_items_def)
qed

lemma mem_increment_sqlite: "mem_increment t p c = billing_increment t p c"
  by (auto simp: mem_increment_def billing_increment_def dget_or_def dset_append_new
      simp flip: dget_None_iff split: option.split)

lemma mem_get_count_sqlite: "mem_get_count t p c = billing_get_count t p c"
  by (simp add: mem_get_count_def billing_get_count_def dget_or_def)

lemma wf_increments: "wf_dict c \<Longrightarrow> wf_dict (foldl (\<lambda>c (t, p). mem_increment t p c) c ops)"
  by (induction ops arbitrary: c) (auto simp: mem_increment_def)

text \<open>Counting in memory and counting in SQLite are the same: after any sequence of increments
  both report the same count for every tenant and period and the same history, in period order.\<close>

lemma usage_backends_agree:
  "let mem = foldl (\<lambda>c (t, p). mem_increment t p c) [] ops;
       sql = foldl (\<lambda>c (t, p). billing_increment t p c) (billing_init_db None) ops
   in mem_get_count t p mem = billing_get_count t p sql
      \<and> mem_get_all_periods t mem = billing_get_all_periods t sql"
  using history_backends_agree [OF wf_increments [of "[]" ops]]
  by (simp add: mem_increment_sqlite mem_get_count_sqlite billing_init_db_def)

subsection \<open>Stripe events\<close>

text \<open>
  The handler keeps no state: it reads the tenant from the event and answers. A message is
  given by its case and the value it names; \<open>NotADict\<close> is the \<open>AttributeError\<close> of \<open>.get\<close> on
  a value that is no object.
\<close>

datatype stripe_message =
    Payment_recorded json
  | Payment_failed json
  | Subscription_cancelled json
  | No_action string

datatype stripe_error = NotADict

definition json_get :: "string \<Rightarrow> json \<Rightarrow> json \<Rightarrow> stripe_error + json" where
  "json_get k dflt j = (case j of JObj kvs \<Rightarrow> Inr (case dget kvs k of None \<Rightarrow> dflt | Some v \<Rightarrow> v) | _ \<Rightarrow> Inl NotADict)"

definition extract_tenant_from_stripe :: "json dict \<Rightarrow> stripe_error + json" where
  "extract_tenant_from_stripe data =
     bindE (json_get ''object'' (JObj []) (JObj data)) (\<lambda>obj.
     bindE (json_get ''metadata'' (JObj []) obj) (\<lambda>metadata.
       json_get ''ecn_tenant_id'' (JStr ''unknown'') metadata))"

definition handle_stripe_event ::
  "string \<Rightarrow> string \<Rightarrow> json dict \<Rightarrow> stripe_error + (string \<times> string \<times> stripe_message)" where
  "handle_stripe_event event_id event_type data =
     bindE (if event_type = ''invoice.payment_succeeded'' then
              bindE (extract_tenant_from_stripe data) (\<lambda>t. Inr (Payment_recorded t))
            else if event_type = ''invoice.payment_failed'' then
              bindE (extract_tenant_from_stripe data) (\<lambda>t. Inr (Payment_failed t))
            else if event_type = ''customer.subscription.deleted'' then
              bindE (extract_tenant_from_stripe data) (\<lambda>t. Inr (Subscription_cancelled t))
            else Inr (No_action event_type))
       (\<lambda>message. Inr (event_id, event_type, message))"

end
