(* ===== verification/Tenant.thy ===== *)
theory Tenant
  imports P2PNetwork Webhooks Billing
begin

section \<open>Tenants\<close>

text \<open>
  \<open>ecn/tenant.py\<close>: the registry of tenants, each with its own network, audit log and webhooks,
  and the routes under \<open>/tenants\<close>. The audit log of a tenant is the object its network records
  into, so it is read from the network. Arguments are what the environment gives: the id
  \<open>uuid4\<close> returned, the keys \<open>generate_keypair\<close> returned for the servers, the value of
  \<open>ECN_QUORUM_THRESHOLD\<close>, and for a broadcast the clock and what the wires deliver
  (\<open>exchange\<close>). Starting a server is taken to succeed; ports and log lines are left out.

  A request is one step. The theory shows that what one tenant does is invisible to the others
  (\<open>tenant_view\<close>, step by step), and what a new tenant is.
\<close>

record exchange =
  x_now :: string
  x_clock :: "string \<Rightarrow> int \<times> int"
  x_delivery :: "string \<Rightarrow> delivery"

record ('sk, 'pk, 's) tenant =
  t_tenant_id :: string
  t_name :: string
  t_network :: "('sk, 'pk, 's) p2p"
  t_webhook_registry :: webhook_registry

type_synonym ('sk, 'pk, 's) tenant_registry = "('sk, 'pk, 's) tenant dict"

definition default_tenant_nodes :: "string list" where
  "default_tenant_nodes = [''Validator-1'', ''Validator-2'', ''Validator-3'']"

definition default_tenant_products :: "string list" where
  "default_tenant_products = [''ITEM-001'', ''ITEM-002'']"

definition list_or :: "'a list option \<Rightarrow> 'a list \<Rightarrow> 'a list" where
  "list_or xs ys = (case xs of None \<Rightarrow> ys | Some zs \<Rightarrow> if zs = [] then ys else zs)"

definition t_audit_log :: "('sk, 'pk, 's) tenant \<Rightarrow> 's audit_log" where
  "t_audit_log t = (case p_audit_log (t_network t) of
     Some al \<Rightarrow> al | None \<Rightarrow> \<lparr>al_store = None, al_tenant_id = [], al_events = []\<rparr>)"

definition t_node_count :: "('sk, 'pk, 's) tenant \<Rightarrow> nat" where
  "t_node_count t = length (p_servers (t_network t))"

datatype tenant_error = TenantExists string

definition create_tenant ::
  "('sk, 'pk) crypto \<Rightarrow> rat \<Rightarrow> string \<Rightarrow> 'sk list \<Rightarrow> string \<Rightarrow> string list option \<Rightarrow> string list option
     \<Rightarrow> string option \<Rightarrow> ('sk, 'pk, 's) tenant_registry
     \<Rightarrow> tenant_error + ('sk, 'pk, 's) tenant \<times> ('sk, 'pk, 's) tenant_registry" where
  "create_tenant C env_threshold uuid private_keys name node_configs product_ids tenant_id reg =
     (let tid = (case tenant_id of None \<Rightarrow> take 8 uuid | Some i \<Rightarrow> if i = [] then take 8 uuid else i) in
      if dget reg tid \<noteq> None then Inl (TenantExists tid)
      else
        let configs = list_or node_configs default_tenant_nodes;
            products = list_or product_ids default_tenant_products;
            tenant_node_configs = map (\<lambda>c. (tid @ ''-'' @ c, None)) configs;
            audit = \<lparr>al_store = None, al_tenant_id = [], al_events = []\<rparr>;
            network = p2p_create C tenant_node_configs private_keys (make_initial_state products) (Some audit)
              env_threshold None None None;
            tenant = \<lparr>t_tenant_id = tid, t_name = name, t_network = network, t_webhook_registry = []\<rparr>
        in Inr (tenant, dset tid tenant reg))"

definition delete_tenant :: "string \<Rightarrow> ('sk, 'pk, 's) tenant_registry \<Rightarrow> bool \<times> ('sk, 'pk, 's) tenant_registry" where
  "delete_tenant tenant_id reg =
     (case dget reg tenant_id of None \<Rightarrow> (False, reg) | Some _ \<Rightarrow> (True, dpop tenant_id reg))"

definition list_tenants :: "('sk, 'pk, 's) tenant_registry \<Rightarrow> (string \<times> string \<times> nat) list" where
  "list_tenants reg = map (\<lambda>t. (t_tenant_id t, t_name t, t_node_count t)) (dvalues reg)"

definition shutdown_all :: "('sk, 'pk, 's) tenant_registry \<Rightarrow> ('sk, 'pk, 's) tenant_registry" where
  "shutdown_all reg = []"

subsection \<open>Routes\<close>

definition get_tenant :: "string \<Rightarrow> ('sk, 'pk, 's) tenant_registry \<Rightarrow> http_error + ('sk, 'pk, 's) tenant" where
  "get_tenant tenant_id reg = (case dget reg tenant_id of None \<Rightarrow> Inl (Http 404) | Some t \<Rightarrow> Inr t)"

text \<open>\<open>POST /tenants\<close>; the number of nodes is clamped to one to ten.\<close>

definition clamp_nodes :: "int \<Rightarrow> nat" where
  "clamp_nodes n = nat (max 1 (min n 10))"

definition node_name :: "nat \<Rightarrow> string" where
  "node_name i = ''Node-'' @ str_nat (i + 1)"

definition create_tenant_route ::
  "('sk, 'pk) crypto \<Rightarrow> rat \<Rightarrow> string \<Rightarrow> 'sk list \<Rightarrow> string \<Rightarrow> int \<Rightarrow> string list
     \<Rightarrow> ('sk, 'pk, 's) tenant_registry
     \<Rightarrow> http_error + (string \<times> string \<times> nat) \<times> ('sk, 'pk, 's) tenant_registry" where
  "create_tenant_route C env_threshold uuid private_keys name body_node_count body_products reg =
     (let node_configs = map node_name [0..<clamp_nodes body_node_count];
          products = list_or (Some body_products) default_tenant_products
      in case create_tenant C env_threshold uuid private_keys name (Some node_configs) (Some products) None reg of
           Inl _ \<Rightarrow> Inl (Http 500)
         | Inr (t, reg') \<Rightarrow> Inr ((t_tenant_id t, t_name t, t_node_count t), reg'))"

definition delete_tenant_route ::
  "string \<Rightarrow> ('sk, 'pk, 's) tenant_registry \<Rightarrow> http_error + ('sk, 'pk, 's) tenant_registry" where
  "delete_tenant_route tenant_id reg =
     (case delete_tenant tenant_id reg of (found, reg') \<Rightarrow> if found then Inr reg' else Inl (Http 404))"

text \<open>The body of a tenant's transaction: the supply-chain fields only.\<close>

record tenant_tx_request =
  tq_type :: string
  tq_product_id :: "string option"
  tq_destination :: "string option"
  tq_shipper :: "string option"
  tq_receiver :: "string option"
  tq_at_customs :: "bool option"
  tq_check_name :: "string option"
  tq_inspector :: "string option"
  tq_reason :: "string option"
  tq_released_by :: "string option"

definition tenant_ecn_tx :: "tenant_tx_request \<Rightarrow> tx" where
  "tenant_ecn_tx b =
     \<lparr>tx_type = Some (tq_type b), tx_product_id = tq_product_id b, tx_destination = tq_destination b,
      tx_shipper = tq_shipper b, tx_receiver = tq_receiver b, tx_at_customs = tq_at_customs b,
      tx_check_name = tq_check_name b, tx_inspector = tq_inspector b, tx_reason = tq_reason b,
      tx_released_by = tq_released_by b, tx_from = None, tx_to = None, tx_amount = None\<rparr>"

text \<open>What the routes share: the registry of tenants and the billing tracker, if there is one.\<close>

record ('sk, 'pk, 's, 'c, 'l) tenants =
  ten_registry :: "('sk, 'pk, 's) tenant_registry"
  ten_tracker :: "('c, 'l) tracker option"

text \<open>
  \<open>POST /tenants/{id}/transactions\<close>: with the status or the event, and the state it leaves. The
  dispatch to the webhooks is started after it with that event.
\<close>

definition tenant_submit ::
  "('sk, 'pk) crypto \<Rightarrow> sha256 \<Rightarrow> 's audit_ops \<Rightarrow> 'c counter_ops \<Rightarrow> 'l ledger_ops \<Rightarrow> exchange \<Rightarrow> billing_env
     \<Rightarrow> string \<Rightarrow> string \<Rightarrow> tenant_tx_request \<Rightarrow> ('sk, 'pk, 's, 'c, 'l) tenants
     \<Rightarrow> (http_error + audit_event) \<times> ('sk, 'pk, 's, 'c, 'l) tenants" where
  "tenant_submit C H S B L ex env uuid tenant_id body st =
     (case get_tenant tenant_id (ten_registry st) of
        Inl e \<Rightarrow> (Inl e, st)
      | Inr tenant \<Rightarrow>
          let tx = tenant_ecn_tx body;
              (outcome, network) = p2p_broadcast C H ecn_handlers S (x_now ex) (x_clock ex) (x_delivery ex) tx
                (t_network tenant);
              tenant = tenant\<lparr>t_network := network\<rparr>;
              st = st\<lparr>ten_registry := dset tenant_id tenant (ten_registry st)\<rparr>
          in case outcome of
               Inl _ \<Rightarrow> (Inl (Http 422), st)
             | Inr (results, cr) \<Rightarrow>
                 if results = [] then (Inl (Http 422), st)
                 else case get_event (int (length (al_events (t_audit_log tenant)))) (t_audit_log tenant) of
                   None \<Rightarrow> (Inl (Http 500), st)
                 | Some event \<Rightarrow>
                     (Inr event, st\<lparr>ten_tracker := map_option
                        (\<lambda>tr. snd (record_round B L env tenant_id uuid (int (t_node_count tenant))
                           (cr_consensus_reached cr) tr)) (ten_tracker st)\<rparr>))"

text \<open>What the routes show of a server; its port is left out.\<close>

record node_info =
  ni_node_id :: string
  ni_public_key_hex :: string
  ni_malicious :: bool

definition node_infos :: "('sk, 'pk) crypto \<Rightarrow> ('sk, 'pk, 's) p2p \<Rightarrow> node_info list" where
  "node_infos C net = map (\<lambda>s. \<lparr>ni_node_id = sv_node_id s,
     ni_public_key_hex = public_key_to_hex C (c_public_key C (sv_private_key s)),
     ni_malicious = n_malicious (sv_node s)\<rparr>) (p_servers net)"

record tenant_network_info =
  ti_tenant_id :: string
  ti_node_count :: nat
  ti_nodes :: "node_info list"
  ti_total_rounds :: nat
  ti_fault_rounds :: nat
  ti_fault_rate :: rat

definition tenant_network_state ::
  "('sk, 'pk) crypto \<Rightarrow> string \<Rightarrow> ('sk, 'pk, 's) tenant_registry \<Rightarrow> http_error + tenant_network_info" where
  "tenant_network_state C tenant_id reg =
     bindE (get_tenant tenant_id reg) (\<lambda>t.
       let summary = audit_summary_of (t_audit_log t) in
       Inr \<lparr>ti_tenant_id = tenant_id, ti_node_count = t_node_count t,
            ti_nodes = node_infos C (t_network t),
            ti_total_rounds = as_total_rounds summary, ti_fault_rounds = as_fault_rounds summary,
            ti_fault_rate = as_fault_rate summary\<rparr>)"

text \<open>A query outside \<open>ge\<close> and \<open>le\<close> is refused with 422 before the handler runs.\<close>

definition tenant_audit_events ::
  "string \<Rightarrow> int \<Rightarrow> int \<Rightarrow> ('sk, 'pk, 's) tenant_registry \<Rightarrow> http_error + nat \<times> int \<times> audit_event list" where
  "tenant_audit_events tenant_id offset limit reg =
     bindE (ensure (Http 422) (0 \<le> offset \<and> 1 \<le> limit \<and> limit \<le> 500)) (\<lambda>_.
     bindE (get_tenant tenant_id reg) (\<lambda>t.
       Inr (length (al_events (t_audit_log t)), offset, get_events (Some limit) offset (t_audit_log t))))"

definition tenant_audit_summary :: "string \<Rightarrow> ('sk, 'pk, 's) tenant_registry \<Rightarrow> http_error + audit_summary" where
  "tenant_audit_summary tenant_id reg = bindE (get_tenant tenant_id reg) (\<lambda>t. Inr (audit_summary_of (t_audit_log t)))"

definition tenant_subscribe_webhook ::
  "string \<Rightarrow> string \<Rightarrow> string \<Rightarrow> string list \<Rightarrow> ('sk, 'pk, 's) tenant_registry
     \<Rightarrow> http_error + subscription \<times> ('sk, 'pk, 's) tenant_registry" where
  "tenant_subscribe_webhook uuid tenant_id url events reg =
     bindE (get_tenant tenant_id reg) (\<lambda>t.
     bindE (subscribe_webhook uuid url events (t_webhook_registry t)) (\<lambda>(sub, hooks).
       Inr (sub, dset tenant_id (t\<lparr>t_webhook_registry := hooks\<rparr>) reg)))"

definition tenant_list_webhooks ::
  "string \<Rightarrow> ('sk, 'pk, 's) tenant_registry \<Rightarrow> http_error + (string \<times> string \<times> string list) list" where
  "tenant_list_webhooks tenant_id reg =
     bindE (get_tenant tenant_id reg) (\<lambda>t. Inr (list_webhooks (t_webhook_registry t)))"

definition tenant_unsubscribe_webhook ::
  "string \<Rightarrow> string \<Rightarrow> ('sk, 'pk, 's) tenant_registry \<Rightarrow> http_error + ('sk, 'pk, 's) tenant_registry" where
  "tenant_unsubscribe_webhook tenant_id webhook_id reg =
     bindE (get_tenant tenant_id reg) (\<lambda>t.
     bindE (unsubscribe_webhook webhook_id (t_webhook_registry t)) (\<lambda>hooks.
       Inr (dset tenant_id (t\<lparr>t_webhook_registry := hooks\<rparr>) reg)))"

subsection \<open>What a tenant has\<close>

definition tenant_inv :: "('sk, 'pk) crypto \<Rightarrow> ('sk, 'pk, 's) tenant \<Rightarrow> bool" where
  "tenant_inv C t \<longleftrightarrow> p2p_inv C (t_network t)
     \<and> (\<exists>al. p_audit_log (t_network t) = Some al \<and> numbered (al_events al)
          \<and> length (al_events al) = length (p_history (t_network t)))"

definition tenants_inv :: "('sk, 'pk) crypto \<Rightarrow> ('sk, 'pk, 's) tenant_registry \<Rightarrow> bool" where
  "tenants_inv C reg \<longleftrightarrow> (\<forall>i t. dget reg i = Some t \<longrightarrow> t_tenant_id t = i \<and> tenant_inv C t)"

lemma tenants_invD: "tenants_inv C reg \<Longrightarrow> dget reg i = Some t \<Longrightarrow> t_tenant_id t = i \<and> tenant_inv C t"
  by (simp add: tenants_inv_def)

lemma tenants_inv_set:
  "tenants_inv C reg \<Longrightarrow> t_tenant_id t = i \<Longrightarrow> tenant_inv C t \<Longrightarrow> tenants_inv C (dset i t reg)"
  by (auto simp: tenants_inv_def)

lemma tenants_inv_pop: "tenants_inv C reg \<Longrightarrow> tenants_inv C (dpop i reg)"
  by (auto simp: tenants_inv_def delete_conv' split: if_splits)

lemma str_nat_inject [simp]: "str_nat i = str_nat j \<longleftrightarrow> i = j"
  by (metis nat_value_str_nat)

lemma create_tenant_Inr:
  assumes "create_tenant C q uuid sks nm cfgs prods i reg = Inr (t, reg')"
  shows "reg' = dset (t_tenant_id t) t reg" and "dget reg (t_tenant_id t) = None"
    and "t_network t = p2p_create C (map (\<lambda>c. (t_tenant_id t @ ''-'' @ c, None)) (list_or cfgs default_tenant_nodes)) sks
      (make_initial_state (list_or prods default_tenant_products))
      (Some \<lparr>al_store = None, al_tenant_id = [], al_events = []\<rparr>) q None None None"
    and "t_webhook_registry t = []" and "t_name t = nm"
  using assms by (auto simp: create_tenant_def Let_def split: if_splits)

lemma tenant_inv_created:
  assumes "create_tenant C q uuid sks nm cfgs prods i reg = Inr (t, reg')"
    and "distinct (list_or cfgs default_tenant_nodes)" and "length sks = length (list_or cfgs default_tenant_nodes)"
  shows "tenant_inv C t"
proof -
  note c = create_tenant_Inr [OF assms(1)]
  have "distinct (map fst (map (\<lambda>c. (t_tenant_id t @ ''-'' @ c, None :: bool option)) (list_or cfgs default_tenant_nodes)))"
    using assms(2) by (simp add: distinct_map comp_def inj_on_def)
  then have "p2p_inv C (t_network t)" using assms(3) by (simp add: c(3) p2p_inv_create)
  then show ?thesis by (simp add: tenant_inv_def c(3)) (simp add: p2p_create_def p2p_init_def numbered_def)
qed

lemma distinct_node_names: "distinct (map node_name [0..<n])"
  by (simp add: distinct_map node_name_def inj_on_def)

lemma clamp_bounds: "1 \<le> clamp_nodes n \<and> clamp_nodes n \<le> 10"
  by (auto simp: clamp_nodes_def)

text \<open>A broadcast keeps it, and adds at most one round to the trail.\<close>

lemma tenant_inv_broadcast:
  assumes "tenant_inv C t"
    and "p2p_broadcast C H R S now clock d tx (t_network t) = (out, net)"
  shows "tenant_inv C (t\<lparr>t_network := net\<rparr>)"
proof -
  obtain al where al: "p_audit_log (t_network t) = Some al" "numbered (al_events al)"
    "length (al_events al) = length (p_history (t_network t))" and inv: "p2p_inv C (t_network t)"
    using assms(1) by (auto simp: tenant_inv_def)
  have "p2p_inv C net" using p2p_inv_broadcast [OF inv, of H R S now clock d tx] assms(2) by simp
  moreover have "\<exists>al. p_audit_log net = Some al \<and> numbered (al_events al) \<and> length (al_events al) = length (p_history net)"
  proof (cases out)
    case (Inl e)
    with assms(2) have "p2p_broadcast C H R S now clock d tx (t_network t) = (Inl e, net)" by simp
    from p2p_broadcast_no_trail [OF this] al show ?thesis by simp
  next
    case (Inr rcr)
    then obtain rs cr where "p2p_broadcast C H R S now clock d tx (t_network t) = (Inr (rs, cr), net)"
      using assms(2) by (cases rcr) auto
    from p2p_broadcast_trail [OF this] al show ?thesis
      by (simp add: audit_record_events numbered_snoc make_event_def)
  qed
  ultimately show ?thesis by (simp add: tenant_inv_def)
qed

text \<open>The event of the round just recorded is found under the number of rounds.\<close>

lemma last_event:
  assumes "tenant_inv C t"
    and "p2p_broadcast C H R S now clock d tx (t_network t) = (Inr (rs, cr), net)"
  defines "t' \<equiv> t\<lparr>t_network := net\<rparr>"
    and "event \<equiv> make_event (int (length (al_events (t_audit_log t))) + 1) now (tx_json tx) rs cr"
  shows "al_events (t_audit_log t') = al_events (t_audit_log t) @ [event]"
    and "get_event (int (length (al_events (t_audit_log t')))) (t_audit_log t') = Some event"
proof -
  obtain al where al: "p_audit_log (t_network t) = Some al" using assms(1) by (auto simp: tenant_inv_def)
  show ev: "al_events (t_audit_log t') = al_events (t_audit_log t) @ [event]"
    using p2p_broadcast_trail(2) [OF assms(2)] al
    by (simp add: t'_def event_def t_audit_log_def audit_record_events)
  then show "get_event (int (length (al_events (t_audit_log t')))) (t_audit_log t') = Some event"
    by (simp add: get_event_def nth_append)
qed

lemma created_tenant:
  assumes "create_tenant_route C q uuid sks nm n prods reg = Inr ((tid, nm', k), reg')"
    and "length sks = clamp_nodes n"
  shows "tid = take 8 uuid \<and> nm' = nm \<and> k = clamp_nodes n \<and> 1 \<le> k \<and> k \<le> 10 \<and> dget reg tid = None
    \<and> (\<forall>u. u \<noteq> tid \<longrightarrow> dget reg' u = dget reg u)
    \<and> (\<exists>t. dget reg' tid = Some t \<and> tenant_inv C t \<and> al_events (t_audit_log t) = [] \<and> t_webhook_registry t = []
        \<and> map sv_node_id (p_servers (t_network t)) = map (\<lambda>i. tid @ ''-Node-'' @ str_nat (i + 1)) [0..<k]
        \<and> (\<forall>s\<in>set (p_servers (t_network t)). \<not> n_malicious (sv_node s) \<and> participates (p_health (t_network t)) s)
        \<and> p2p_cohort False (make_initial_state (list_or (Some prods) default_tenant_products)) (t_network t))"
proof -
  let ?cfgs = "map node_name [0..<clamp_nodes n]"
  let ?prods = "list_or (Some prods) default_tenant_products"
  have ne: "?cfgs \<noteq> []" "?prods \<noteq> []"
    using clamp_bounds [of n] by (auto simp: list_or_def default_tenant_products_def)
  then have lo: "list_or (Some ?cfgs) default_tenant_nodes = ?cfgs" "list_or (Some ?prods) default_tenant_products = ?prods"
    by (auto simp: list_or_def)
  obtain t where t: "create_tenant C q uuid sks nm (Some ?cfgs) (Some ?prods) None reg = Inr (t, reg')"
    and r: "tid = t_tenant_id t" "nm' = t_name t" "k = t_node_count t"
    using assms(1) by (auto simp: create_tenant_route_def Let_def split: sum.splits)
  note c = create_tenant_Inr [OF t, unfolded lo]
  have tid: "t_tenant_id t = take 8 uuid" using t by (auto simp: create_tenant_def Let_def split: if_splits)
  have inv: "tenant_inv C t" using tenant_inv_created [OF t] assms(2) distinct_node_names by (simp add: lo)
  have servers: "p_servers (t_network t) =
      map (\<lambda>((i, m), sk). server_init i (make_initial_state ?prods) (m = Some True) sk)
        (zip (map (\<lambda>c. (tid @ ''-'' @ c, None)) ?cfgs) sks)"
    by (simp add: c(3) p2p_create_def p2p_init_def r(1))
  have k: "k = clamp_nodes n" using assms(2) by (simp add: r(3) t_node_count_def servers)
  have ids: "map sv_node_id (p_servers (t_network t)) = map (\<lambda>i. tid @ ''-Node-'' @ str_nat (i + 1)) [0..<k]"
    using assms(2) by (intro nth_equalityI)
      (simp_all add: servers k server_init_def node_init_def node_name_def)
  have "\<not> n_malicious (sv_node s) \<and> participates (p_health (t_network t)) s
      \<and> in_cohort False (make_initial_state ?prods) (sv_node s)" if "s \<in> set (p_servers (t_network t))" for s
  proof -
    have "\<exists>i m sk. ((i, m), sk) \<in> set (zip (map (\<lambda>c. (tid @ ''-'' @ c, None :: bool option)) ?cfgs) sks)
      \<and> s = server_init i (make_initial_state ?prods) (m = Some True) sk"
      using that unfolding servers by (fastforce simp only: set_map)
    then obtain i m sk where z: "((i, m), sk) \<in> set (zip (map (\<lambda>c. (tid @ ''-'' @ c, None :: bool option)) ?cfgs) sks)"
      and s: "s = server_init i (make_initial_state ?prods) (m = Some True) sk" by (elim exE conjE) (rule that)
    have "m = None" using set_zip_leftD [OF z] by auto
    with s have "s = server_init i (make_initial_state ?prods) False sk" by simp
    then show ?thesis
      using in_cohort_init [OF wf_world_initial [of ?prods]]
      by (simp add: server_init_def participates_def c(3) p2p_create_def p2p_init_def health_of_gets new_health_def)
        (simp add: node_init_def)
  qed
  then show ?thesis
    using c inv ids k clamp_bounds [of n] tid r
    by (auto simp: p2p_cohort_def t_audit_log_def p2p_create_def p2p_init_def)
qed

text \<open>A new tenant: a creation that succeeds never replaces a tenant, registers one under the first
  eight characters of the fresh id and leaves the others as they were; the new one has between
  one and ten honest nodes, named after it, that hold the initial state of its products and whose
  keys the network knows, and no rounds, webhooks or failures.\<close>

lemma new_tenant:
  assumes "create_tenant_route C q uuid sks nm n prods reg = Inr ((tid, nm', k), reg')"
    and "length sks = clamp_nodes n"
  shows "tid = take 8 uuid \<and> nm' = nm \<and> k = clamp_nodes n \<and> 1 \<le> k \<and> k \<le> 10 \<and> dget reg tid = None
    \<and> (\<forall>u. u \<noteq> tid \<longrightarrow> dget reg' u = dget reg u)
    \<and> (\<exists>t. dget reg' tid = Some t \<and> tenant_inv C t \<and> al_events (t_audit_log t) = [] \<and> t_webhook_registry t = []
        \<and> map sv_node_id (p_servers (t_network t)) = map (\<lambda>i. tid @ ''-Node-'' @ str_nat (i + 1)) [0..<k]
        \<and> (\<forall>s\<in>set (p_servers (t_network t)). \<not> n_malicious (sv_node s) \<and> participates (p_health (t_network t)) s)
        \<and> p2p_cohort False (make_initial_state (list_or (Some prods) default_tenant_products)) (t_network t))"
  using assms by (rule created_tenant)

subsection \<open>What a submission leaves\<close>

lemma tenant_submit_cases:
  assumes "dget (ten_registry st) tid = Some t" and "tenant_inv C t"
  obtains
    (refused) net st' where "tenant_submit C H S B L ex env uuid tid body st = (Inl (Http 422), st')"
      "st' = st\<lparr>ten_registry := dset tid (t\<lparr>t_network := net\<rparr>) (ten_registry st)\<rparr>"
      "al_events (t_audit_log (t\<lparr>t_network := net\<rparr>)) = al_events (t_audit_log t)
         \<or> (\<exists>cr. al_events (t_audit_log (t\<lparr>t_network := net\<rparr>)) = al_events (t_audit_log t)
              @ [make_event (int (length (al_events (t_audit_log t))) + 1) (x_now ex) (tx_json (tenant_ecn_tx body)) [] cr])"
      "tenant_inv C (t\<lparr>t_network := net\<rparr>)"
  | (answered) net rs cr event st' where "tenant_submit C H S B L ex env uuid tid body st = (Inr event, st')"
      "p2p_broadcast C H ecn_handlers S (x_now ex) (x_clock ex) (x_delivery ex) (tenant_ecn_tx body) (t_network t)
         = (Inr (rs, cr), net)"
      "event = make_event (int (length (al_events (t_audit_log t))) + 1) (x_now ex) (tx_json (tenant_ecn_tx body)) rs cr"
      "al_events (t_audit_log (t\<lparr>t_network := net\<rparr>)) = al_events (t_audit_log t) @ [event]"
      "st' = st\<lparr>ten_registry := dset tid (t\<lparr>t_network := net\<rparr>) (ten_registry st),
         ten_tracker := map_option (\<lambda>tr. snd (record_round B L env tid uuid
           (int (t_node_count t)) (cr_consensus_reached cr) tr)) (ten_tracker st)\<rparr>"
      "tenant_inv C (t\<lparr>t_network := net\<rparr>)"
proof -
  obtain out net where b: "p2p_broadcast C H ecn_handlers S (x_now ex) (x_clock ex) (x_delivery ex)
      (tenant_ecn_tx body) (t_network t) = (out, net)" by fastforce
  note inv = tenant_inv_broadcast [OF assms(2) b]
  have same: "t_node_count (t\<lparr>t_network := net\<rparr>) = t_node_count t"
    using p2p_broadcast_servers [of C H ecn_handlers S "x_now ex" "x_clock ex" "x_delivery ex" "tenant_ecn_tx body" "t_network t"] b
    by (simp add: t_node_count_def)
  show thesis
  proof (cases out)
    case (Inl e)
    with b have "al_events (t_audit_log (t\<lparr>t_network := net\<rparr>)) = al_events (t_audit_log t)"
      using p2p_broadcast_no_trail(2) [of C H ecn_handlers S "x_now ex" "x_clock ex" "x_delivery ex" "tenant_ecn_tx body" "t_network t" e net]
      by (simp add: t_audit_log_def)
    then show thesis using Inl b assms(1) inv
      by (intro refused) (auto simp: tenant_submit_def get_tenant_def Let_def)
  next
    case (Inr r)
    then obtain rs cr where r: "out = Inr (rs, cr)" by (cases r) auto
    note le = last_event [OF assms(2) b [unfolded r]]
    show thesis
    proof (cases "rs = []")
      case True
      then show thesis using r b assms(1) inv le(1)
        by (intro refused) (auto simp: tenant_submit_def get_tenant_def Let_def)
    next
      case False
      then show thesis using r b assms(1) inv le same
        by (intro answered) (auto simp: tenant_submit_def get_tenant_def Let_def)
    qed
  qed
qed

text \<open>
  What the code shows a tenant: its registry entry, the ledger entries, the usage counts and the
  SLA statistics the tracker keeps for it.
\<close>

definition tenant_books ::
  "'c counter_ops \<Rightarrow> 'l ledger_ops \<Rightarrow> string \<Rightarrow> ('c, 'l) tracker
     \<Rightarrow> (string \<times> string \<times> int \<times> rat \<times> bool \<times> int) list \<times> (string \<Rightarrow> int) \<times> int \<times> int" where
  "tenant_books B L u tr = (map le_entry (get_billing_ledger L u tr), \<lambda>p. tracker_count B u p tr, sla_get_stats u (bt_sla tr))"

definition tenant_view ::
  "'c counter_ops \<Rightarrow> 'l ledger_ops \<Rightarrow> string \<Rightarrow> ('sk, 'pk, 's, 'c, 'l) tenants
     \<Rightarrow> ('sk, 'pk, 's) tenant option
       \<times> ((string \<times> string \<times> int \<times> rat \<times> bool \<times> int) list \<times> (string \<Rightarrow> int) \<times> int \<times> int) option" where
  "tenant_view B L u st = (dget (ten_registry st) u, map_option (tenant_books B L u) (ten_tracker st))"

definition ledger_open :: "('l \<Rightarrow> bool) \<Rightarrow> ('sk, 'pk, 's, 'c, 'l) tenants \<Rightarrow> bool" where
  "ledger_open ok st \<longleftrightarrow> pred_option (\<lambda>tr. pred_option ok (bt_ledger tr)) (ten_tracker st)"

text \<open>
  What happens in the name of \<open>v\<close>: its creation and deletion, its submissions and webhooks, and
  a round billed to \<open>v\<close> from elsewhere (the global route bills the tenant with the empty name).
\<close>

inductive tenant_step ::
  "('sk, 'pk) crypto \<Rightarrow> sha256 \<Rightarrow> 's audit_ops \<Rightarrow> 'c counter_ops \<Rightarrow> 'l ledger_ops \<Rightarrow> string
     \<Rightarrow> ('sk, 'pk, 's, 'c, 'l) tenants \<Rightarrow> ('sk, 'pk, 's, 'c, 'l) tenants \<Rightarrow> bool"
  for C H S B L v where
  created: "create_tenant_route C q uuid sks nm n prods (ten_registry st) = Inr ((v, nm', k), reg) \<Longrightarrow>
    tenant_step C H S B L v st (st\<lparr>ten_registry := reg\<rparr>)"
| deleted: "delete_tenant_route v (ten_registry st) = Inr reg \<Longrightarrow>
    tenant_step C H S B L v st (st\<lparr>ten_registry := reg\<rparr>)"
| submitted: "tenant_submit C H S B L ex env uuid v body st = (out, st') \<Longrightarrow> tenant_step C H S B L v st st'"
| hooked: "tenant_subscribe_webhook uuid v url evs (ten_registry st) = Inr (sub, reg) \<Longrightarrow>
    tenant_step C H S B L v st (st\<lparr>ten_registry := reg\<rparr>)"
| unhooked: "tenant_unsubscribe_webhook v wid (ten_registry st) = Inr reg \<Longrightarrow>
    tenant_step C H S B L v st (st\<lparr>ten_registry := reg\<rparr>)"
| billed_elsewhere: "tenant_step C H S B L v st (st\<lparr>ten_tracker :=
    map_option (\<lambda>tr. snd (record_round B L env v uuid n reached tr)) (ten_tracker st)\<rparr>)"

text \<open>What one submission does to the registry and the tracker, whatever its outcome.\<close>

lemma tenant_submit_frame:
  assumes "tenant_submit C H S B L ex env uuid v body st = (out, st')"
  shows "(\<forall>u. u \<noteq> v \<longrightarrow> dget (ten_registry st') u = dget (ten_registry st) u)
    \<and> (ten_tracker st' = ten_tracker st \<or> (\<exists>n reached. ten_tracker st' =
         map_option (\<lambda>tr. snd (record_round B L env v uuid n reached tr)) (ten_tracker st)))"
  using assms by (auto simp: tenant_submit_def get_tenant_def Let_def split: option.splits sum.splits prod.splits if_splits) blast+

context billing_backends
begin

lemma books_other:
  assumes "u \<noteq> v" and "pred_option ok (bt_ledger tr)"
  shows "tenant_books S L u (snd (record_round S L env v uuid n reached tr)) = tenant_books S L u tr
    \<and> pred_option ok (bt_ledger (snd (record_round S L env v uuid n reached tr)))"
  using assms ledger_round [OF assms(2)] by (simp add: tenant_books_def count_round sla_round)

lemma books_own:
  assumes "tenant_books S L u tr = tenant_books S L u tr'"
    and "pred_option ok (bt_ledger tr)" and "pred_option ok (bt_ledger tr')"
  shows "tenant_books S L u (snd (record_round S L env u uuid n reached tr))
    = tenant_books S L u (snd (record_round S L env u uuid n reached tr'))"
  using assms(1) ledger_round(1) [OF assms(2)] ledger_round(1) [OF assms(3)]
  by (simp add: tenant_books_def count_round sla_round fun_eq_iff)

lemma tracker_other:
  assumes "u \<noteq> v" and "pred_option (\<lambda>tr. pred_option ok (bt_ledger tr)) tro"
  shows "map_option (tenant_books S L u) (map_option (\<lambda>tr. snd (record_round S L env v uuid n reached tr)) tro)
      = map_option (tenant_books S L u) tro
    \<and> pred_option (\<lambda>tr. pred_option ok (bt_ledger tr)) (map_option (\<lambda>tr. snd (record_round S L env v uuid n reached tr)) tro)"
  using assms books_other by (cases tro) auto

text \<open>A step in the name of \<open>v\<close> leaves the view of every other tenant as it was.\<close>

lemma step_respects:
  assumes "tenant_step C H A S L v st st'" and "u \<noteq> v" and "ledger_open ok st"
  shows "tenant_view S L u st' = tenant_view S L u st \<and> ledger_open ok st'"
  using assms(1)
proof cases
  case (created q uuid sks nm n prods nm' k reg)
  then obtain t where "create_tenant C q uuid sks nm (Some (map node_name [0..<clamp_nodes n]))
      (Some (list_or (Some prods) default_tenant_products)) None (ten_registry st) = Inr (t, reg)" "v = t_tenant_id t"
    by (auto simp: create_tenant_route_def Let_def split: sum.splits)
  with created assms(2,3) show ?thesis
    using create_tenant_Inr(1) by (fastforce simp: tenant_view_def ledger_open_def)
next
  case (submitted ex env uuid body out)
  note f = tenant_submit_frame [OF submitted]
  then show ?thesis
    using assms(2,3) tracker_other [OF assms(2), of "ten_tracker st" env uuid]
    by (auto simp: tenant_view_def ledger_open_def)
qed (use assms(2,3) tracker_other [OF assms(2), of "ten_tracker st"] in
  \<open>auto simp: tenant_view_def ledger_open_def delete_tenant_route_def delete_tenant_def delete_conv'
    tenant_subscribe_webhook_def tenant_unsubscribe_webhook_def bindE_Inr_iff split: option.splits\<close>)

end

text \<open>Any number of steps in the names of tenants other than \<open>u\<close>.\<close>

definition others ::
  "('sk, 'pk) crypto \<Rightarrow> sha256 \<Rightarrow> 's audit_ops \<Rightarrow> 'c counter_ops \<Rightarrow> 'l ledger_ops \<Rightarrow> string
     \<Rightarrow> ('sk, 'pk, 's, 'c, 'l) tenants \<Rightarrow> ('sk, 'pk, 's, 'c, 'l) tenants \<Rightarrow> bool" where
  "others C H S B L u = (\<lambda>st st'. \<exists>v. v \<noteq> u \<and> tenant_step C H S B L v st st')\<^sup>*\<^sup>*"

text \<open>The outcome of a submission depends on the tenant's own entry only.\<close>

lemma tenant_submit_own:
  assumes "dget (ten_registry st') u = dget (ten_registry st) u"
  shows "fst (tenant_submit C H S B L ex env uuid u body st') = fst (tenant_submit C H S B L ex env uuid u body st)
    \<and> dget (ten_registry (snd (tenant_submit C H S B L ex env uuid u body st'))) u
      = dget (ten_registry (snd (tenant_submit C H S B L ex env uuid u body st))) u
    \<and> (ten_tracker (snd (tenant_submit C H S B L ex env uuid u body st')) = ten_tracker st'
          \<and> ten_tracker (snd (tenant_submit C H S B L ex env uuid u body st)) = ten_tracker st
        \<or> (\<exists>n reached. ten_tracker (snd (tenant_submit C H S B L ex env uuid u body st')) =
              map_option (\<lambda>tr. snd (record_round B L env u uuid n reached tr)) (ten_tracker st')
          \<and> ten_tracker (snd (tenant_submit C H S B L ex env uuid u body st)) =
              map_option (\<lambda>tr. snd (record_round B L env u uuid n reached tr)) (ten_tracker st)))"
proof (cases "dget (ten_registry st) u")
  case None
  then show ?thesis using assms by (auto simp: tenant_submit_def get_tenant_def)
next
  case (Some t)
  obtain out net where b: "p2p_broadcast C H ecn_handlers S (x_now ex) (x_clock ex) (x_delivery ex)
      (tenant_ecn_tx body) (t_network t) = (out, net)" by fastforce
  show ?thesis
  proof (cases "\<exists>rs cr event. out = Inr (rs, cr) \<and> rs \<noteq> [] \<and>
      get_event (int (length (al_events (t_audit_log (t\<lparr>t_network := net\<rparr>))))) (t_audit_log (t\<lparr>t_network := net\<rparr>)) = Some event")
    case True
    then show ?thesis using assms Some b
      by (auto simp: tenant_submit_def get_tenant_def Let_def) blast+
  next
    case False
    then show ?thesis using assms Some b
      by (auto simp: tenant_submit_def get_tenant_def Let_def split: sum.splits prod.splits option.splits if_splits)
  qed
qed

context billing_backends
begin

lemma others_respect:
  "others C H A S L u st st' \<Longrightarrow> ledger_open ok st \<Longrightarrow> tenant_view S L u st' = tenant_view S L u st \<and> ledger_open ok st'"
  unfolding others_def
proof (induction rule: rtranclp_induct)
  case (step y z)
  then obtain v where "v \<noteq> u" "tenant_step C H A S L v y z" by blast
  with step.IH [OF step.prems] show ?case
    using step_respects [of C H A v y z u] by simp
qed simp

lemma submit_consistent:
  assumes "tenant_view S L u st' = tenant_view S L u st" and "ledger_open ok st" and "ledger_open ok st'"
  shows "fst (tenant_submit C H A S L ex env uuid u body st') = fst (tenant_submit C H A S L ex env uuid u body st)
    \<and> tenant_view S L u (snd (tenant_submit C H A S L ex env uuid u body st'))
      = tenant_view S L u (snd (tenant_submit C H A S L ex env uuid u body st))"
proof -
  have own: "dget (ten_registry st') u = dget (ten_registry st) u"
    and b: "map_option (tenant_books S L u) (ten_tracker st') = map_option (tenant_books S L u) (ten_tracker st)"
    using assms(1) by (simp_all add: tenant_view_def)
  have "map_option (tenant_books S L u) (map_option (\<lambda>tr. snd (record_round S L env u uuid n reached tr)) (ten_tracker st'))
      = map_option (tenant_books S L u) (map_option (\<lambda>tr. snd (record_round S L env u uuid n reached tr)) (ten_tracker st))"
    for n reached
  proof (cases "ten_tracker st"; cases "ten_tracker st'")
    fix tr tr' assume tr: "ten_tracker st = Some tr" "ten_tracker st' = Some tr'"
    then have "tenant_books S L u tr' = tenant_books S L u tr" using b by simp
    with tr show ?thesis using assms(2,3) books_own [of u tr' tr env uuid n reached] by (simp add: ledger_open_def)
  qed (use b in simp_all)
  moreover note tenant_submit_own [OF own, of C H A S L ex env uuid body]
  ultimately show ?thesis
    unfolding tenant_view_def using b by (elim conjE disjE exE) simp_all
qed

end

text \<open>C1. Tenants are isolated: whatever happens in the name of others, creations, deletions,
  submissions that are decided, refused or crash their nodes' states, webhooks and billing, a
  tenant's nodes, keys, node health, audit trail, webhooks, ledger entries, usage and SLA
  statistics stay as they were; and its next submission has the same outcome and leaves it the
  same view as if the others had done nothing.\<close>

theorem tenant_isolation:
  assumes "others C H A sqlite_billing sqlite_ledger u st st'" and "ledger_open ledger_table_inv st"
  shows "tenant_view sqlite_billing sqlite_ledger u st' = tenant_view sqlite_billing sqlite_ledger u st
    \<and> fst (tenant_submit C H A sqlite_billing sqlite_ledger ex env uuid u body st')
      = fst (tenant_submit C H A sqlite_billing sqlite_ledger ex env uuid u body st)
    \<and> tenant_view sqlite_billing sqlite_ledger u (snd (tenant_submit C H A sqlite_billing sqlite_ledger ex env uuid u body st'))
      = tenant_view sqlite_billing sqlite_ledger u (snd (tenant_submit C H A sqlite_billing sqlite_ledger ex env uuid u body st))"
  using sqlite_books.others_respect [OF assms] sqlite_books.submit_consistent [OF _ assms(2)] by blast

text \<open>C33. A submission is accounted for exactly once: for a tenant there is, it either is refused with
  422, with the tracker untouched, or it answers with the event it has just appended to the
  tenant's trail, numbered one above the rounds before, and adds to the tenant's ledger the one
  entry that bills the round, with its verdict, for all nodes of the tenant. The server never
  runs into its missing-event error.\<close>

theorem tenant_submit_accounts:
  assumes "tenants_inv C (ten_registry st)" and "dget (ten_registry st) tid = Some t"
    and "ten_tracker st = Some tr" and "pred_option ledger_table_inv (bt_ledger tr)"
    and "tenant_submit C H A sqlite_billing sqlite_ledger ex env uuid tid body st = (out, st')"
  shows "tenants_inv C (ten_registry st') \<and> (\<exists>t' tr'. dget (ten_registry st') tid = Some t' \<and> ten_tracker st' = Some tr'
    \<and> (case out of
         Inl e \<Rightarrow> e = Http 422 \<and> tr' = tr
       | Inr event \<Rightarrow> al_events (t_audit_log t') = al_events (t_audit_log t) @ [event]
           \<and> ae_round_id event = int (length (al_events (t_audit_log t))) + 1
           \<and> ae_transaction event = tx_json (tenant_ecn_tx body)
           \<and> map le_entry (get_billing_ledger sqlite_ledger tid tr') = map le_entry (get_billing_ledger sqlite_ledger tid tr)
               @ [rd_entry (env, tid, uuid, int (t_node_count t), ae_consensus_reached event)]))"
proof -
  note inv = tenants_invD [OF assms(1,2)]
  show ?thesis
    using assms(2) conjunct2 [OF inv]
  proof (cases rule: tenant_submit_cases [where C = C and H = H and S = A and B = sqlite_billing
        and L = sqlite_ledger and ex = ex and env = env and uuid = uuid and body = body])
    case (refused net st'')
    then show ?thesis using assms(1,3,5) inv by (auto intro!: tenants_inv_set)
  next
    case (answered net rs cr event st'')
    then show ?thesis
      using assms(1,3,5) inv sqlite_books.ledger_round(1) [OF assms(4), of tid env tid uuid "int (t_node_count t)" "cr_consensus_reached cr"]
      by (auto simp: make_event_def intro!: tenants_inv_set)
  qed
qed

subsection \<open>Witnesses\<close>

definition example_exchange :: "delivery \<Rightarrow> exchange" where
  "example_exchange d = \<lparr>x_now = ''now'', x_clock = (\<lambda>_. (0, 0)), x_delivery = (\<lambda>_. d)\<rparr>"

definition example_billing_env :: billing_env where
  "example_billing_env = \<lparr>be_tier = None, be_period = None, be_date = \<lparr>d_year = 2026, d_month = 4, d_day = 1\<rparr>, be_now = 0\<rparr>"

definition example_body :: tenant_tx_request where
  "example_body = \<lparr>tq_type = ''receive'', tq_product_id = Some ''ITEM-001'', tq_destination = None, tq_shipper = None,
     tq_receiver = Some ''Retailer'', tq_at_customs = None, tq_check_name = None, tq_inspector = None,
     tq_reason = None, tq_released_by = None\<rparr>"

definition example_tracker :: "(usage_table, ledger_table) tracker" where
  "example_tracker = tracker_init (Some (billing_init_db None)) (Some (ledger_init_db None))"

lemma example_tracker_ok: "pred_option ledger_table_inv (bt_ledger example_tracker)"
  by (simp add: example_tracker_def tracker_init_def sqlite_ledger.inv_empty)

definition example_tenants :: "string \<Rightarrow> (string \<times> string \<times> nat) \<times> (string, string, audit_table) tenant_registry" where
  "example_tenants u = projr (create_tenant_route example_crypto default_quorum_threshold u [''k1'', ''k2''] ''Acme'' 2 [] [])"

lemma create_route_fresh:
  assumes "dget reg (take 8 u) = None"
  shows "\<exists>t. create_tenant_route C q u sks nm n prods reg = Inr ((take 8 u, nm, t_node_count t), dset (take 8 u) t reg)"
  using assms by (auto simp: create_tenant_route_def create_tenant_def Let_def)

lemma example_tenants:
  "create_tenant_route example_crypto default_quorum_threshold u [''k1'', ''k2''] ''Acme'' 2 [] [] = Inr (example_tenants u)"
proof -
  obtain r where "create_tenant_route example_crypto default_quorum_threshold u [''k1'', ''k2''] ''Acme'' 2 []
      ([] :: (string, string, audit_table) tenant_registry) = Inr r"
    using create_route_fresh [of "[]" u example_crypto default_quorum_threshold "[''k1'', ''k2'']" "''Acme''" 2 "[]"] by auto
  then show ?thesis by (simp only: example_tenants_def sum.sel)
qed

lemma clamp_2: "clamp_nodes 2 = 2"
  by (simp add: clamp_nodes_def)

lemma new_tenant_example:
  "\<exists>k reg t. example_tenants ''acmeacme-1'' = ((''acmeacme'', ''Acme'', k), reg) \<and> k = 2
     \<and> dget reg ''acmeacme'' = Some t
     \<and> map sv_node_id (p_servers (t_network t)) = [''acmeacme-Node-'' @ str_nat 1, ''acmeacme-Node-'' @ str_nat 2]"
proof -
  obtain tid nm k reg where e: "example_tenants ''acmeacme-1'' = ((tid, nm, k), reg)"
    by (cases "example_tenants ''acmeacme-1''") auto
  show ?thesis
    using new_tenant [OF example_tenants [of "''acmeacme-1''", unfolded e]] e
    by (auto simp: clamp_2 upt_rec numeral_2_eq_2)
qed

theorem tenant_submit_accounts_witness:
  "\<exists>reg st' out tr'. snd (example_tenants ''acmeacme-1'') = reg
     \<and> tenant_submit example_crypto example_sha256 sqlite_audit sqlite_billing sqlite_ledger
         (example_exchange (Delivered 3)) example_billing_env ''x'' ''acmeacme'' example_body
         \<lparr>ten_registry = reg, ten_tracker = Some example_tracker\<rparr> = (out, st')
     \<and> tenants_inv example_crypto (ten_registry st') \<and> ten_tracker st' = Some tr'
     \<and> (case out of Inl e \<Rightarrow> tr' = example_tracker
          | Inr event \<Rightarrow> length (get_billing_ledger sqlite_ledger ''acmeacme'' tr') = 1)"
proof -
  obtain tid nm k reg where e: "example_tenants ''acmeacme-1'' = ((tid, nm, k), reg)"
    by (cases "example_tenants ''acmeacme-1''") auto
  note new = created_tenant [OF example_tenants [of "''acmeacme-1''", unfolded e]]
  then obtain t where t: "dget reg ''acmeacme'' = Some t" "tenant_inv example_crypto t"
    by (auto simp: clamp_2)
  obtain t0 where reg: "reg = [(''acmeacme'', t0)]" "t_tenant_id t0 = ''acmeacme''"
    using e by (auto simp: example_tenants_def create_tenant_route_def create_tenant_def Let_def)
  let ?st = "\<lparr>ten_registry = reg, ten_tracker = Some example_tracker\<rparr>"
  have inv: "tenants_inv example_crypto (ten_registry ?st)" using reg t by (auto simp: tenants_inv_def)
  obtain out st' where s: "tenant_submit example_crypto example_sha256 sqlite_audit sqlite_billing sqlite_ledger
      (example_exchange (Delivered 3)) example_billing_env ''x'' ''acmeacme'' example_body ?st = (out, st')" by fastforce
  have l: "get_billing_ledger sqlite_ledger ''acmeacme'' example_tracker = []"
    by (simp add: example_tracker_def get_billing_ledger_def tracker_init_def sqlite_ledger.entries_empty)
  have "map le_entry xs = [y] \<Longrightarrow> length xs = 1" for xs y by (cases xs) auto
  with tenant_submit_accounts [OF inv _ _ example_tracker_ok s, of t] t(1) l s e show ?thesis
    by (cases out) (auto 0 3)
qed

theorem tenant_isolation_witness:
  "\<exists>st st' v. v \<noteq> ''acmeacme'' \<and> dget (ten_registry st) v = None \<and> dget (ten_registry st') v \<noteq> None
     \<and> tenant_view sqlite_billing sqlite_ledger ''acmeacme'' st' = tenant_view sqlite_billing sqlite_ledger ''acmeacme'' st
     \<and> fst (tenant_submit example_crypto example_sha256 sqlite_audit sqlite_billing sqlite_ledger
         (example_exchange (Delivered 3)) example_billing_env ''x'' ''acmeacme'' example_body st')
       = fst (tenant_submit example_crypto example_sha256 sqlite_audit sqlite_billing sqlite_ledger
         (example_exchange (Delivered 3)) example_billing_env ''x'' ''acmeacme'' example_body st)"
proof -
  let ?st = "\<lparr>ten_registry = snd (example_tenants ''acmeacme-1''), ten_tracker = Some example_tracker\<rparr>"
  have none: "dget (ten_registry ?st) ''othercom'' = None"
    by (simp add: example_tenants_def create_tenant_route_def create_tenant_def Let_def)
  have t8: "take 8 ''othercom-2'' = ''othercom''" by simp
  obtain t where c: "create_tenant_route example_crypto default_quorum_threshold ''othercom-2'' [''k3''] ''Other'' 1 [] (ten_registry ?st)
      = Inr ((''othercom'', ''Other'', t_node_count t), dset ''othercom'' t (ten_registry ?st))"
    using create_route_fresh [of "ten_registry ?st" "''othercom-2''" example_crypto default_quorum_threshold "[''k3'']" "''Other''" 1 "[]",
      unfolded t8, OF none]
    by blast
  let ?st' = "?st\<lparr>ten_registry := dset ''othercom'' t (ten_registry ?st)\<rparr>"
  have "tenant_step example_crypto example_sha256 sqlite_audit sqlite_billing sqlite_ledger ''othercom'' ?st ?st'"
    by (rule tenant_step.created [OF c])
  then have "others example_crypto example_sha256 sqlite_audit sqlite_billing sqlite_ledger ''acmeacme'' ?st ?st'"
    unfolding others_def by (intro r_into_rtranclp exI [of _ "''othercom''"] conjI) simp_all
  moreover have "ledger_open ledger_table_inv ?st" by (simp add: ledger_open_def example_tracker_ok)
  ultimately show ?thesis
    using tenant_isolation [of example_crypto example_sha256 sqlite_audit "''acmeacme''" ?st ?st'
        "example_exchange (Delivered 3)" example_billing_env "''x''" example_body] none
    by (intro exI [of _ ?st] exI [of _ ?st'] exI [of _ "''othercom''"]) simp
qed

end
