(* ===== verification/Transaction.thy ===== *)
theory Transaction
  imports Persistence
begin

section \<open>The transaction lifecycle\<close>

text \<open>
  \<open>ecn/transaction.py\<close>: the lifecycle states, the table of valid transitions, the record and
  the two functions that make and advance it. Times are integers in microseconds;
  \<open>int(td.total_seconds() * 1000)\<close> of a difference is computed in floats and is the
  parameter \<open>millis\<close> of \<open>transition\<close>.

  The states are ordered by \<open>linorder\<close> as the lifecycle passes through them; the relation
  \<open>life\<close> says what a caller can make of a record with \<open>transition\<close> and \<open>dataclasses.replace\<close>,
  and the lemmas are what holds of every record so reached.
\<close>

datatype tx_state = INITIATED | EXECUTING | PROPOSED | CONSENSUS_PENDING | FINALIZED | BILLED | REPLICATED

fun state_value :: "tx_state \<Rightarrow> string" where
  "state_value INITIATED = ''INITIATED''"
| "state_value EXECUTING = ''EXECUTING''"
| "state_value PROPOSED = ''PROPOSED''"
| "state_value CONSENSUS_PENDING = ''CONSENSUS_PENDING''"
| "state_value FINALIZED = ''FINALIZED''"
| "state_value BILLED = ''BILLED''"
| "state_value REPLICATED = ''REPLICATED''"

fun valid_transitions :: "tx_state \<Rightarrow> tx_state list" where
  "valid_transitions INITIATED = [EXECUTING]"
| "valid_transitions EXECUTING = [PROPOSED]"
| "valid_transitions PROPOSED = [CONSENSUS_PENDING]"
| "valid_transitions CONSENSUS_PENDING = [FINALIZED]"
| "valid_transitions FINALIZED = [BILLED]"
| "valid_transitions BILLED = [REPLICATED]"
| "valid_transitions REPLICATED = []"

record tx_record =
  x_tx_id :: string
  x_tenant_id :: string
  x_state :: tx_state
  x_node_count :: int
  x_consensus_reached :: bool
  x_fault_count :: int
  x_duration_ms :: int
  x_billed_amount :: rat
  x_created_at :: int
  x_finalized_at :: "int option"

definition tx_to_dict :: "tx_record \<Rightarrow> tx_row" where
  "tx_to_dict r =
     \<lparr>tr_tx_id = x_tx_id r, tr_tenant_id = x_tenant_id r, tr_state = state_value (x_state r),
      tr_consensus_reached = x_consensus_reached r, tr_node_count = x_node_count r,
      tr_fault_count = x_fault_count r, tr_duration_ms = x_duration_ms r,
      tr_billed_amount = x_billed_amount r, tr_created_at = x_created_at r,
      tr_finalized_at = x_finalized_at r\<rparr>"

text \<open>\<open>uuid\<close> is the fresh id \<open>uuid4\<close> returned, used when no id, or an empty one, is given.\<close>

definition new_record :: "string \<Rightarrow> string \<Rightarrow> string option \<Rightarrow> int \<Rightarrow> int \<Rightarrow> tx_record" where
  "new_record uuid tenant_id tx_id node_count now =
     \<lparr>x_tx_id = (case tx_id of None \<Rightarrow> uuid | Some i \<Rightarrow> if i = [] then uuid else i),
      x_tenant_id = tenant_id, x_state = INITIATED, x_node_count = node_count,
      x_consensus_reached = False, x_fault_count = 0, x_duration_ms = 0, x_billed_amount = 0,
      x_created_at = now, x_finalized_at = None\<rparr>"

datatype transition_error = InvalidTransition tx_state tx_state

text \<open>The clock is read twice on \<open>FINALIZED\<close>: for the time stamp and for the duration.\<close>

definition transition ::
  "(int \<Rightarrow> int) \<Rightarrow> int \<Rightarrow> int \<Rightarrow> tx_record \<Rightarrow> tx_state \<Rightarrow> transition_error + tx_record" where
  "transition millis now later r new_state =
     (if new_state \<notin> set (valid_transitions (x_state r)) then Inl (InvalidTransition (x_state r) new_state)
      else if new_state = FINALIZED then
        Inr (r\<lparr>x_state := new_state, x_finalized_at := Some now,
               x_duration_ms := max 0 (millis (later - x_created_at r))\<rparr>)
      else Inr (r\<lparr>x_state := new_state\<rparr>))"

subsection \<open>The order of the states\<close>

instantiation tx_state :: linorder
begin

fun rank_tx_state :: "tx_state \<Rightarrow> nat" where
  "rank_tx_state INITIATED = 0"
| "rank_tx_state EXECUTING = 1"
| "rank_tx_state PROPOSED = 2"
| "rank_tx_state CONSENSUS_PENDING = 3"
| "rank_tx_state FINALIZED = 4"
| "rank_tx_state BILLED = 5"
| "rank_tx_state REPLICATED = 6"

definition less_eq_tx_state :: "tx_state \<Rightarrow> tx_state \<Rightarrow> bool" where
  "s \<le> t \<longleftrightarrow> rank_tx_state s \<le> rank_tx_state t"

definition less_tx_state :: "tx_state \<Rightarrow> tx_state \<Rightarrow> bool" where
  "s < t \<longleftrightarrow> rank_tx_state s < rank_tx_state t"

instance
proof
  fix s t u :: tx_state
  have inj: "rank_tx_state s = rank_tx_state t \<Longrightarrow> s = t" by (cases s; cases t) simp_all
  show "s < t \<longleftrightarrow> s \<le> t \<and> \<not> t \<le> s" by (simp only: less_eq_tx_state_def less_tx_state_def) linarith
  show "s \<le> s" by (simp add: less_eq_tx_state_def)
  show "s \<le> t \<Longrightarrow> t \<le> u \<Longrightarrow> s \<le> u" by (simp add: less_eq_tx_state_def)
  show "s \<le> t \<Longrightarrow> t \<le> s \<Longrightarrow> s = t" by (rule inj) (simp add: less_eq_tx_state_def)
  show "s \<le> t \<or> t \<le> s" by (simp only: less_eq_tx_state_def) linarith
qed

end

lemmas tx_order = less_eq_tx_state_def less_tx_state_def

lemma valid_transitions_rank: "t \<in> set (valid_transitions s) \<longleftrightarrow> rank_tx_state t = Suc (rank_tx_state s)"
  by (cases s; cases t) simp_all

lemma state_value_inject [simp]: "state_value s = state_value t \<longleftrightarrow> s = t"
  by (cases s; cases t) simp_all

lemma transition_Inr_iff:
  "transition millis now later r s = Inr r' \<longleftrightarrow>
     rank_tx_state s = Suc (rank_tx_state (x_state r)) \<and>
     r' = (if s = FINALIZED
           then r\<lparr>x_state := s, x_finalized_at := Some now, x_duration_ms := max 0 (millis (later - x_created_at r))\<rparr>
           else r\<lparr>x_state := s\<rparr>)"
  by (auto simp: transition_def valid_transitions_rank)

subsection \<open>Lives of a record\<close>

text \<open>
  What callers do: advance the record, or replace the fields that consensus and billing fill in.
\<close>

inductive life :: "(int \<Rightarrow> int) \<Rightarrow> tx_record \<Rightarrow> tx_record \<Rightarrow> bool" for millis where
  born: "life millis r r"
| advance: "life millis r0 r \<Longrightarrow> transition millis now later r s = Inr r' \<Longrightarrow> life millis r0 r'"
| counted: "life millis r0 r \<Longrightarrow>
    life millis r0 (r\<lparr>x_consensus_reached := c, x_fault_count := f, x_node_count := n\<rparr>)"
| billed: "life millis r0 r \<Longrightarrow> life millis r0 (r\<lparr>x_billed_amount := a\<rparr>)"

definition record_inv :: "tx_record \<Rightarrow> bool" where
  "record_inv r \<longleftrightarrow> (x_finalized_at r \<noteq> None) = (FINALIZED \<le> x_state r)
     \<and> 0 \<le> x_duration_ms r \<and> (x_state r < FINALIZED \<longrightarrow> x_duration_ms r = 0)"

lemma record_inv_new: "record_inv (new_record u tid i n now)"
  by (simp add: record_inv_def new_record_def tx_order)

lemma record_inv_transition: "record_inv r \<Longrightarrow> transition millis now later r s = Inr r' \<Longrightarrow> record_inv r'"
  by (cases s; cases "x_state r") (auto simp: record_inv_def transition_Inr_iff tx_order)

lemma record_inv_life: "life millis r0 r \<Longrightarrow> record_inv r0 \<Longrightarrow> record_inv r"
proof (induction rule: life.induct)
  case (advance r0 r now later s r')
  then show ?case using record_inv_transition by blast
qed (simp_all add: record_inv_def)

lemma life_fixed:
  "life millis r0 r \<Longrightarrow> x_tx_id r = x_tx_id r0 \<and> x_tenant_id r = x_tenant_id r0 \<and> x_created_at r = x_created_at r0"
  by (induction rule: life.induct) (auto simp: transition_Inr_iff split: if_splits)

lemma life_forward: "life millis r0 r \<Longrightarrow> x_state r0 \<le> x_state r"
  by (induction rule: life.induct) (auto simp: transition_Inr_iff tx_order split: if_splits)

text \<open>Once the record is finalized, its finalization does not change any more.\<close>

lemma life_final:
  "life millis r0 r \<Longrightarrow> FINALIZED \<le> x_state r0 \<Longrightarrow>
    x_finalized_at r = x_finalized_at r0 \<and> x_duration_ms r = x_duration_ms r0"
proof (induction rule: life.induct)
  case (advance r0 r now later s r')
  then have "FINALIZED \<le> x_state r" using life_forward order_trans by blast
  with advance show ?case by (auto simp: transition_Inr_iff tx_order split: if_splits)
qed simp_all

text \<open>A transition succeeds exactly for the next state of the lifecycle and changes nothing but the
  state, except that finalization stamps the time and a duration that is not negative; any
  other move, backwards, skipping, repeating or from the last state, is refused with the states
  in the error.\<close>

lemma transition_correct:
  "(case transition millis now later r s of
      Inr r' \<Rightarrow> rank_tx_state s = Suc (rank_tx_state (x_state r)) \<and> x_state r' = s
        \<and> x_finalized_at r' = (if s = FINALIZED then Some now else x_finalized_at r)
        \<and> (if s = FINALIZED then 0 \<le> x_duration_ms r' else x_duration_ms r' = x_duration_ms r)
        \<and> (x_tx_id r', x_tenant_id r', x_node_count r', x_consensus_reached r', x_fault_count r',
            x_billed_amount r', x_created_at r')
          = (x_tx_id r, x_tenant_id r, x_node_count r, x_consensus_reached r, x_fault_count r,
            x_billed_amount r, x_created_at r)
    | Inl e \<Rightarrow> rank_tx_state s \<noteq> Suc (rank_tx_state (x_state r)) \<and> e = InvalidTransition (x_state r) s)"
  by (auto simp: transition_def valid_transitions_rank)

text \<open>The life of a record: whatever its holder does with it, a record never moves back in the
  lifecycle, keeps its id, tenant and creation time, has a finalization time exactly from
  \<open>FINALIZED\<close> on and a duration of zero before; and nothing changes either of them afterwards.\<close>

lemma record_life:
  assumes "life millis (new_record u tid i n now) r" and "life millis r r'"
  shows "x_state r \<le> x_state r' \<and> x_tx_id r' = x_tx_id r \<and> x_tenant_id r' = tid \<and> x_created_at r' = now
    \<and> (x_finalized_at r \<noteq> None) = (FINALIZED \<le> x_state r)
    \<and> (x_state r < FINALIZED \<longrightarrow> x_duration_ms r = 0)
    \<and> (FINALIZED \<le> x_state r \<longrightarrow> x_finalized_at r' = x_finalized_at r \<and> x_duration_ms r' = x_duration_ms r)"
  using record_inv_life [OF assms(1) record_inv_new] life_fixed [OF assms(1)] life_fixed [OF assms(2)]
    life_forward [OF assms(2)] life_final [OF assms(2)]
  by (simp add: record_inv_def new_record_def)

lemma record_life_example:
  "let r0 = new_record ''u'' ''acme'' None 5 0; r = r0\<lparr>x_state := EXECUTING\<rparr> in
     x_state r0 \<le> x_state r \<and> (x_finalized_at r0 \<noteq> None) = (FINALIZED \<le> x_state r0)"
proof -
  have "life (\<lambda>x. x) (new_record ''u'' ''acme'' None 5 0) ((new_record ''u'' ''acme'' None 5 0)\<lparr>x_state := EXECUTING\<rparr>)"
    by (rule life.advance [OF life.born, where s = EXECUTING and now = 0 and later = 0])
      (simp add: transition_def new_record_def)
  from record_life [OF life.born this] show ?thesis by (simp add: Let_def)
qed

end
