(* ===== verification/Stream.thy ===== *)
theory Stream
  imports Prelude
begin

section \<open>The event stream\<close>

text \<open>
  \<open>ecn/stream.py\<close>: the bus with a ring buffer, a sequence counter and a list of live
  subscribers for each topic, offset-based polling, and the phases of the SSE generator.
  The asyncio queues are objects the subscribers share with the bus: they live in a store of
  the bus, by number. \<open>put_nowait\<close> of a full queue drops the event; it raises nothing else.
  The payload is a type parameter.

  A topic refines the list of all payloads published to it (\<open>topic_refines\<close>): the lemmas show
  what polling returns in terms of that list, what a live queue receives, and that what is
  published between the two phases of the SSE generator reaches its client in neither.
\<close>

definition all_topics :: "string list" where
  "all_topics = [''transactions'', ''faults'']"

record 'p topic_state =
  ts_buffer :: "(int \<times> 'p) list"
  ts_seq :: int
  ts_subscribers :: "nat list"

record 'p live_queue =
  q_maxsize :: int
  q_items :: "(int \<times> 'p) list"

record 'p event_bus =
  eb_maxlen :: nat
  eb_topics :: "'p topic_state dict"
  eb_queues :: "(nat \<times> 'p live_queue) list"
  eb_next_queue :: nat

definition bus_init :: "nat \<Rightarrow> 'p event_bus" where
  "bus_init maxlen =
     \<lparr>eb_maxlen = maxlen,
      eb_topics = map (\<lambda>t. (t, \<lparr>ts_buffer = [], ts_seq = 0, ts_subscribers = []\<rparr>)) all_topics,
      eb_queues = [], eb_next_queue = 0\<rparr>"

datatype stream_error = UnknownTopic string

text \<open>\<open>Queue.put_nowait\<close>; a \<open>maxsize\<close> that is not positive means no bound.\<close>

definition put_nowait :: "int \<times> 'p \<Rightarrow> 'p live_queue \<Rightarrow> 'p live_queue" where
  "put_nowait ev q =
     (if 0 < q_maxsize q \<and> q_maxsize q \<le> int (length (q_items q)) then q
      else q\<lparr>q_items := q_items q @ [ev]\<rparr>)"

definition put_queue :: "int \<times> 'p \<Rightarrow> nat \<Rightarrow> (nat \<times> 'p live_queue) list \<Rightarrow> (nat \<times> 'p live_queue) list" where
  "put_queue ev i qs = (case dget qs i of None \<Rightarrow> qs | Some q \<Rightarrow> dset i (put_nowait ev q) qs)"

definition publish :: "string \<Rightarrow> 'p \<Rightarrow> 'p event_bus \<Rightarrow> stream_error + int \<times> 'p event_bus" where
  "publish topic payload bus =
     (case dget (eb_topics bus) topic of
        None \<Rightarrow> Inl (UnknownTopic topic)
      | Some ts \<Rightarrow>
          let seq = ts_seq ts;
              ts' = ts\<lparr>ts_buffer := push_bounded (eb_maxlen bus) (ts_buffer ts) (seq, payload), ts_seq := seq + 1\<rparr>;
              queues = foldl (\<lambda>qs i. put_queue (seq, payload) i qs) (eb_queues bus) (ts_subscribers ts)
          in Inr (seq, bus\<lparr>eb_topics := dset topic ts' (eb_topics bus), eb_queues := queues\<rparr>))"

record 'p stream_event =
  e_seq :: int
  e_topic :: string
  e_payload :: 'p

text \<open>The loop of \<open>consume\<close>; \<open>results\<close> is what it has so far.\<close>

fun consume_loop :: "string \<Rightarrow> int \<Rightarrow> int \<Rightarrow> (int \<times> 'p) list \<Rightarrow> 'p stream_event list \<Rightarrow> 'p stream_event list" where
  "consume_loop topic offset limit [] results = results"
| "consume_loop topic offset limit ((seq, payload) # buf) results =
     (if seq < offset then consume_loop topic offset limit buf results
      else
        let results = results @ [\<lparr>e_seq = seq, e_topic = topic, e_payload = payload\<rparr>]
        in if limit \<le> int (length results) then results
           else consume_loop topic offset limit buf results)"

definition consume :: "string \<Rightarrow> int \<Rightarrow> int \<Rightarrow> 'p event_bus \<Rightarrow> stream_error + 'p stream_event list" where
  "consume topic offset limit bus =
     (case dget (eb_topics bus) topic of
        None \<Rightarrow> Inl (UnknownTopic topic)
      | Some ts \<Rightarrow> if ts_buffer ts = [] then Inr [] else Inr (consume_loop topic offset limit (ts_buffer ts) []))"

definition next_offset :: "string \<Rightarrow> 'p event_bus \<Rightarrow> int" where
  "next_offset topic bus = (case dget (eb_topics bus) topic of None \<Rightarrow> 0 | Some ts \<Rightarrow> ts_seq ts)"

definition subscribe_live :: "string list \<Rightarrow> int \<Rightarrow> 'p event_bus \<Rightarrow> nat \<times> 'p event_bus" where
  "subscribe_live topics maxsize bus =
     (let q = eb_next_queue bus;
          subscribed = foldl (\<lambda>d topic. case dget d topic of
              None \<Rightarrow> d
            | Some ts \<Rightarrow> dset topic (ts\<lparr>ts_subscribers := ts_subscribers ts @ [q]\<rparr>) d) (eb_topics bus) topics
      in (q, bus\<lparr>eb_topics := subscribed,
            eb_queues := eb_queues bus @ [(q, \<lparr>q_maxsize = maxsize, q_items = []\<rparr>)],
            eb_next_queue := q + 1\<rparr>))"

text \<open>\<open>list.remove\<close>: the first occurrence, and nothing when there is none.\<close>

definition try_remove_subscriber :: "nat \<Rightarrow> string \<Rightarrow> 'p topic_state dict \<Rightarrow> 'p topic_state dict" where
  "try_remove_subscriber q topic d =
     (case dget d topic of
        None \<Rightarrow> d
      | Some ts \<Rightarrow> dset topic (ts\<lparr>ts_subscribers := remove1 q (ts_subscribers ts)\<rparr>) d)"

definition unsubscribe_live :: "nat \<Rightarrow> 'p event_bus \<Rightarrow> 'p event_bus" where
  "unsubscribe_live q bus =
     bus\<lparr>eb_topics := foldl (\<lambda>d topic. try_remove_subscriber q topic d) (eb_topics bus) all_topics\<rparr>"

definition topic_info :: "'p event_bus \<Rightarrow> (string \<times> nat \<times> int) list" where
  "topic_info bus = map (\<lambda>t. case dget (eb_topics bus) t of
      None \<Rightarrow> (t, 0, 0) | Some ts \<Rightarrow> (t, length (ts_buffer ts), ts_seq ts)) all_topics"

subsection \<open>A topic refines the list of what was published to it\<close>

definition numbered_log :: "'p list \<Rightarrow> (int \<times> 'p) list" where
  "numbered_log xs = map (\<lambda>(i, p). (int i, p)) (enumerate 0 xs)"

lemma numbered_log_snoc: "numbered_log (xs @ [x]) = numbered_log xs @ [(int (length xs), x)]"
  by (simp add: numbered_log_def enumerate_append_eq)

lemma length_numbered_log [simp]: "length (numbered_log xs) = length xs"
  by (simp add: numbered_log_def)

lemma nth_numbered_log: "i < length xs \<Longrightarrow> numbered_log xs ! i = (int i, xs ! i)"
  by (simp add: numbered_log_def nth_enumerate_eq)

definition topic_refines :: "nat \<Rightarrow> 'p list \<Rightarrow> 'p topic_state \<Rightarrow> bool" where
  "topic_refines maxlen xs ts \<longleftrightarrow> ts_seq ts = int (length xs)
     \<and> ts_buffer ts = drop (length xs - maxlen) (numbered_log xs)"

lemma push_refines:
  "drop (length xs + 1 - m) (numbered_log (xs @ [x])) =
     push_bounded m (drop (length xs - m) (numbered_log xs)) (int (length xs), x)"
proof (cases "length xs < m")
  case True
  then show ?thesis by (simp add: push_bounded_def Let_def numbered_log_snoc)
next
  case False
  then show ?thesis
    by (cases m) (auto simp: push_bounded_def Let_def numbered_log_snoc drop_drop Suc_diff_Suc not_less Suc_le_lessD)
qed

fun topic_ok :: "nat \<Rightarrow> bool \<Rightarrow> 'p list \<Rightarrow> 'p topic_state option \<Rightarrow> bool" where
  "topic_ok maxlen known xs None \<longleftrightarrow> \<not> known"
| "topic_ok maxlen known xs (Some ts) \<longleftrightarrow> known \<and> topic_refines maxlen xs ts"

definition bus_refines :: "(string \<Rightarrow> 'p list) \<Rightarrow> 'p event_bus \<Rightarrow> bool" where
  "bus_refines logs bus \<longleftrightarrow>
     (\<forall>t. topic_ok (eb_maxlen bus) (t \<in> set all_topics) (logs t) (dget (eb_topics bus) t))"

lemma bus_refinesD: "bus_refines logs bus \<Longrightarrow> topic_ok (eb_maxlen bus) (t \<in> set all_topics) (logs t) (dget (eb_topics bus) t)"
  by (simp add: bus_refines_def)

lemma bus_refines_topic:
  "bus_refines logs bus \<Longrightarrow> t \<in> set all_topics \<Longrightarrow>
    \<exists>ts. dget (eb_topics bus) t = Some ts \<and> topic_refines (eb_maxlen bus) (logs t) ts"
  using bus_refinesD [of logs bus t] by (cases "dget (eb_topics bus) t") auto

lemma bus_refines_init: "bus_refines (\<lambda>_. []) (bus_init m)"
  by (simp add: bus_refines_def bus_init_def all_topics_def topic_refines_def numbered_log_def)

lemma publish_refines:
  assumes "bus_refines logs bus" and "publish t x bus = Inr (seq, bus')"
  shows "bus_refines (logs(t := logs t @ [x])) bus' \<and> seq = int (length (logs t)) \<and> eb_maxlen bus' = eb_maxlen bus"
proof -
  obtain ts where ts: "dget (eb_topics bus) t = Some ts"
    using assms(2) by (auto simp: publish_def split: option.splits)
  then have r: "t \<in> set all_topics" "topic_refines (eb_maxlen bus) (logs t) ts"
    using bus_refinesD [OF assms(1), of t] by simp_all
  let ?ts = "ts\<lparr>ts_buffer := push_bounded (eb_maxlen bus) (ts_buffer ts) (ts_seq ts, x), ts_seq := ts_seq ts + 1\<rparr>"
  have b: "eb_topics bus' = dset t ?ts (eb_topics bus)" "eb_maxlen bus' = eb_maxlen bus" "seq = ts_seq ts"
    using assms(2) ts by (auto simp: publish_def Let_def)
  have "topic_refines (eb_maxlen bus) (logs t @ [x]) ?ts"
    using r(2) push_refines [of "logs t" "eb_maxlen bus" x] by (simp add: topic_refines_def)
  then have "bus_refines (logs(t := logs t @ [x])) bus'"
    using bus_refinesD [OF assms(1)] r(1) by (simp add: bus_refines_def b)
  with r b show ?thesis by (simp add: topic_refines_def)
qed

lemma publish_total: "bus_refines logs bus \<Longrightarrow> t \<in> set all_topics \<Longrightarrow> publish t x bus \<noteq> Inl e"
  using bus_refines_topic [of logs bus t] by (auto simp: publish_def Let_def)

subsection \<open>Runs of the bus\<close>

text \<open>What producers, live subscribers and their tasks do to the bus, in any order.\<close>

datatype 'p bus_op =
    Publish string 'p
  | Subscribe "string list" int
  | Unsubscribe nat

fun bus_step :: "'p event_bus \<Rightarrow> 'p bus_op \<Rightarrow> 'p event_bus" where
  "bus_step bus (Publish t x) = (case publish t x bus of Inl _ \<Rightarrow> bus | Inr (_, bus') \<Rightarrow> bus')"
| "bus_step bus (Subscribe ts n) = snd (subscribe_live ts n bus)"
| "bus_step bus (Unsubscribe q) = unsubscribe_live q bus"

definition bus_run :: "'p event_bus \<Rightarrow> 'p bus_op list \<Rightarrow> 'p event_bus" where
  "bus_run bus ops = foldl bus_step bus ops"

text \<open>The payloads published to a topic in a run.\<close>

definition published :: "string \<Rightarrow> 'p bus_op list \<Rightarrow> 'p list" where
  "published t ops = List.map_filter (\<lambda>op. case op of Publish t' x \<Rightarrow> if t' = t then Some x else None | _ \<Rightarrow> None) ops"

lemma published_snoc:
  "published t (ops @ [op]) = published t ops @
     (case op of Publish t' x \<Rightarrow> if t' = t then [x] else [] | _ \<Rightarrow> [])"
  by (auto simp: published_def map_filter_def split: bus_op.split)

lemma refines_subscribers:
  "topic_refines m xs (ts\<lparr>ts_subscribers := qs\<rparr>) = topic_refines m xs ts"
  by (simp add: topic_refines_def)

text \<open>Changing the subscribers of some topics.\<close>

definition same_logs :: "'p topic_state dict \<Rightarrow> 'p topic_state dict \<Rightarrow> bool" where
  "same_logs d d' \<longleftrightarrow> (\<forall>t. map_option (\<lambda>ts. (ts_seq ts, ts_buffer ts)) (dget d t)
     = map_option (\<lambda>ts. (ts_seq ts, ts_buffer ts)) (dget d' t))"

lemma same_logs_trans: "same_logs a b \<Longrightarrow> same_logs b c \<Longrightarrow> same_logs a c"
  by (simp add: same_logs_def)

lemma same_logs_fold:
  assumes "\<And>d t. same_logs d (f d t)"
  shows "same_logs d (foldl f d ts)"
proof (induction ts arbitrary: d)
  case (Cons t ts)
  show ?case using same_logs_trans [OF assms Cons.IH] by simp
qed (simp add: same_logs_def)

lemma topic_ok_cong:
  "map_option (\<lambda>ts. (ts_seq ts, ts_buffer ts)) a = map_option (\<lambda>ts. (ts_seq ts, ts_buffer ts)) b \<Longrightarrow>
    topic_ok m k xs a = topic_ok m k xs b"
  by (cases a; cases b) (simp_all add: topic_refines_def)

lemma bus_refines_same_logs:
  assumes "same_logs (eb_topics bus) (eb_topics bus')" and "eb_maxlen bus' = eb_maxlen bus"
  shows "bus_refines logs bus' = bus_refines logs bus"
proof -
  have "topic_ok m k xs (dget (eb_topics bus) t) = topic_ok m k xs (dget (eb_topics bus') t)" for m k xs t
    by (rule topic_ok_cong) (rule assms(1) [unfolded same_logs_def, rule_format])
  then show ?thesis by (simp add: bus_refines_def assms(2))
qed

lemma subscribe_same_logs: "same_logs (eb_topics bus) (eb_topics (snd (subscribe_live ts n bus)))"
  unfolding subscribe_live_def Let_def
  by (simp, rule same_logs_fold) (auto simp: same_logs_def split: option.split)

lemma unsubscribe_same_logs: "same_logs (eb_topics bus) (eb_topics (unsubscribe_live q bus))"
  unfolding unsubscribe_live_def
  by (simp, rule same_logs_fold) (auto simp: same_logs_def try_remove_subscriber_def split: option.split)

lemma bus_step_refines:
  assumes "bus_refines logs bus"
  shows "bus_refines (\<lambda>t. logs t @ published t [op]) (bus_step bus op) \<and> eb_maxlen (bus_step bus op) = eb_maxlen bus"
proof (cases op)
  case (Publish t x)
  have logs: "(\<lambda>t'. logs t' @ published t' [op]) = logs(t := logs t @ [x])"
    by (auto simp: published_def map_filter_simps Publish fun_eq_iff)
  show ?thesis
  proof (cases "publish t x bus")
    case (Inl e)
    then have t: "t \<notin> set all_topics" using publish_total [OF assms] by blast
    have "topic_ok (eb_maxlen bus) (t' \<in> set all_topics) ((logs(t := logs t @ [x])) t') (dget (eb_topics bus) t')" for t'
      using bus_refinesD [OF assms, of t'] t by (cases "dget (eb_topics bus) t'") auto
    then show ?thesis unfolding logs by (simp add: bus_refines_def Publish Inl del: fun_upd_apply)
  next
    case (Inr r)
    then obtain seq b' where "publish t x bus = Inr (seq, b')" by (cases r) auto
    then show ?thesis using publish_refines [OF assms] unfolding logs by (auto simp: Publish)
  qed
next
  case (Subscribe ts n)
  have "eb_maxlen (snd (subscribe_live ts n bus)) = eb_maxlen bus" by (simp add: subscribe_live_def Let_def)
  then show ?thesis using assms bus_refines_same_logs [OF subscribe_same_logs, of ts n bus]
    by (simp add: published_def map_filter_simps Subscribe)
next
  case (Unsubscribe q)
  have "eb_maxlen (unsubscribe_live q bus) = eb_maxlen bus" by (simp add: unsubscribe_live_def)
  then show ?thesis using assms bus_refines_same_logs [OF unsubscribe_same_logs, of q bus]
    by (simp add: published_def map_filter_simps Unsubscribe)
qed

lemma published_append: "published t (xs @ ys) = published t xs @ published t ys"
  by (simp add: published_def map_filter_def)

lemma bus_run_snoc: "bus_run bus (ops @ [op]) = bus_step (bus_run bus ops) op"
  by (simp add: bus_run_def)

lemma bus_run_refines:
  "bus_refines (\<lambda>t. published t ops) (bus_run (bus_init m) ops) \<and> eb_maxlen (bus_run (bus_init m) ops) = m"
proof (induction ops rule: rev_induct)
  case Nil
  show ?case using bus_refines_init [of m] by (simp add: bus_run_def published_def map_filter_simps bus_init_def)
next
  case (snoc op ops)
  then show ?case using bus_step_refines [OF conjunct1 [OF snoc.IH], of op] by (simp add: bus_run_snoc published_append)
qed

subsection \<open>Polling\<close>

definition to_event :: "string \<Rightarrow> int \<times> 'p \<Rightarrow> 'p stream_event" where
  "to_event t sp = \<lparr>e_seq = fst sp, e_topic = t, e_payload = snd sp\<rparr>"

lemma consume_loop_filter:
  "int (length rs) < l \<Longrightarrow>
    consume_loop t off l buf rs = rs @ map (to_event t) (take (nat l - length rs) (filter (\<lambda>sp. off \<le> fst sp) buf))"
proof (induction t off l buf rs rule: consume_loop.induct)
  case (2 t off l seq payload buf rs)
  show ?case
  proof (cases "seq < off")
    case False
    have k: "nat l - length rs = Suc (nat l - Suc (length rs))" using 2(3) by simp
    show ?thesis
    proof (cases "l \<le> int (Suc (length rs))")
      case True
      then show ?thesis using False k by (simp add: to_event_def Let_def)
    next
      case c: False
      then have "int (length (rs @ [\<lparr>e_seq = seq, e_topic = t, e_payload = payload\<rparr>])) < l" by simp
      from 2(2) [OF False refl _ this] c False k show ?thesis by (simp add: to_event_def Let_def)
    qed
  qed (use 2 in simp)
qed simp

lemma filter_numbered_log:
  "filter (\<lambda>sp. int k \<le> fst sp) (drop d (numbered_log xs)) = drop (max k d) (numbered_log xs)"
proof (induction xs rule: rev_induct)
  case Nil
  show ?case by (simp add: numbered_log_def)
next
  case (snoc x xs)
  then show ?case by (cases "d \<le> length xs") (auto simp: numbered_log_snoc max_def not_le)
qed

lemma drop_numbered_log:
  "map (to_event t) (take l (drop s (numbered_log xs))) =
     map (\<lambda>i. \<lparr>e_seq = int i, e_topic = t, e_payload = xs ! i\<rparr>) [s..<min (length xs) (s + l)]"
proof (rule nth_equalityI)
  show "length (map (to_event t) (take l (drop s (numbered_log xs)))) =
      length (map (\<lambda>i. \<lparr>e_seq = int i, e_topic = t, e_payload = xs ! i\<rparr>) [s..<min (length xs) (s + l)])"
    by simp
next
  fix i assume "i < length (map (to_event t) (take l (drop s (numbered_log xs))))"
  then have i: "s + i < length xs" "i < l" "i < min (length xs) (s + l) - s" "s \<le> length xs" by auto
  then show "map (to_event t) (take l (drop s (numbered_log xs))) ! i =
      map (\<lambda>i. \<lparr>e_seq = int i, e_topic = t, e_payload = xs ! i\<rparr>) [s..<min (length xs) (s + l)] ! i"
    by (simp add: nth_numbered_log to_event_def del: min_less_iff_conj)
qed

lemma consume_refines:
  assumes "bus_refines logs bus" and "t \<in> set all_topics" and "0 < l"
  shows "consume t (int off) (int l) bus = Inr (map (\<lambda>i. \<lparr>e_seq = int i, e_topic = t, e_payload = logs t ! i\<rparr>)
      [max off (length (logs t) - eb_maxlen bus)..<
        min (length (logs t)) (max off (length (logs t) - eb_maxlen bus) + l)])"
proof -
  obtain ts where ts: "dget (eb_topics bus) t = Some ts" "topic_refines (eb_maxlen bus) (logs t) ts"
    using bus_refines_topic [OF assms(1,2)] by blast
  then have b: "ts_buffer ts = drop (length (logs t) - eb_maxlen bus) (numbered_log (logs t))"
    by (simp add: topic_refines_def)
  have "consume t (int off) (int l) bus = Inr (map (to_event t) (take l (filter (\<lambda>sp. int off \<le> fst sp) (ts_buffer ts))))"
    using assms(3) by (simp add: consume_def ts consume_loop_filter)
  then show ?thesis unfolding b filter_numbered_log drop_numbered_log .
qed

text \<open>C21. Polling is exact: after any run of publishes, subscriptions and unsubscriptions, a poll from
  \<open>offset\<close> returns the published events of the topic, each under its position in the order of
  publication, from the offset or the oldest one retained, at most \<open>limit\<close> of them; so a
  consumer that goes on from where it ended misses nothing and sees nothing twice, as long as
  the ring buffer has not overrun its position.\<close>

theorem consume_exact:
  assumes "t \<in> set all_topics" and "0 < limit"
  shows "let xs = published t ops; bus = bus_run (bus_init maxlen) ops; start = max offset (length xs - maxlen)
    in consume t (int offset) (int limit) bus =
        Inr (map (\<lambda>i. \<lparr>e_seq = int i, e_topic = t, e_payload = xs ! i\<rparr>) [start..<min (length xs) (start + limit)])
      \<and> next_offset t bus = int (length xs)
      \<and> (length xs - maxlen \<le> offset \<and> 0 < again \<longrightarrow>
          bindE (consume t (int offset) (int limit) bus) (\<lambda>a.
          bindE (consume t (int (offset + limit)) (int again) bus) (\<lambda>b. Inr (a @ b)))
          = consume t (int offset) (int (limit + again)) bus)"
proof -
  let ?bus = "bus_run (bus_init maxlen) ops"
  note r = conjunct1 [OF bus_run_refines [of ops maxlen]] and m = conjunct2 [OF bus_run_refines [of ops maxlen]]
  note c = consume_refines [OF r assms(1), unfolded m]
  obtain ts where ts: "dget (eb_topics ?bus) t = Some ts" "topic_refines maxlen (published t ops) ts"
    using bus_refines_topic [OF r assms(1)] m by auto
  then have n: "next_offset t ?bus = int (length (published t ops))"
    by (simp add: next_offset_def topic_refines_def)
  have "[s..<min k (s + a)] @ [s + a..<min k (s + a + b)] = [s..<min k (s + (a + b))]" for s k a b :: nat
  proof (cases "s + a \<le> k")
    case True
    then obtain d where d: "min k (s + a + b) = s + a + d" by (metis le_add1 le_Suc_ex min.boundedI)
    then show ?thesis using True upt_add_eq_append [of s "s + a" d] by (simp add: min_absorb2 add.assoc)
  qed simp
  then show ?thesis
    using c [OF assms(2), of offset] c [of again "offset + limit"] c [of "limit + again" offset] n
    by (simp add: Let_def max_absorb1 flip: map_append)
qed

theorem consume_exact_witness:
  "consume ''faults'' (int 1) (int 5) (bus_run (bus_init 2) [Publish ''faults'' ''a'', Publish ''faults'' ''b'', Publish ''faults'' ''c''])
     = Inr [\<lparr>e_seq = 1, e_topic = ''faults'', e_payload = ''b''\<rparr>, \<lparr>e_seq = 2, e_topic = ''faults'', e_payload = ''c''\<rparr>]"
  using consume_exact [of "''faults''" 5 "[Publish ''faults'' ''a'', Publish ''faults'' ''b'', Publish ''faults'' ''c'']" 2 1]
  by (simp add: all_topics_def published_def map_filter_simps Let_def upt_rec)

subsection \<open>Live subscriptions\<close>

text \<open>The events of a run that the topics of a subscription see, with their sequence numbers.\<close>

fun live_events :: "string list \<Rightarrow> 'p event_bus \<Rightarrow> 'p bus_op list \<Rightarrow> (int \<times> 'p) list" where
  "live_events topics bus [] = []"
| "live_events topics bus (op # ops) =
     (case op of
        Publish t x \<Rightarrow> if t \<in> set topics \<and> dget (eb_topics bus) t \<noteq> None then [(next_offset t bus, x)] else []
      | _ \<Rightarrow> []) @ live_events topics (bus_step bus op) ops"

text \<open>Queue \<open>q\<close> is subscribed once to each of the topics, and to no other.\<close>

definition subscribed :: "nat \<Rightarrow> string list \<Rightarrow> 'p event_bus \<Rightarrow> bool" where
  "subscribed q topics bus \<longleftrightarrow> q < eb_next_queue bus \<and>
     (\<forall>t ts. dget (eb_topics bus) t = Some ts \<longrightarrow> count_list (ts_subscribers ts) q = (if t \<in> set topics then 1 else 0))"

definition queue_of :: "nat \<Rightarrow> 'p event_bus \<Rightarrow> 'p live_queue option" where
  "queue_of q bus = dget (eb_queues bus) q"

lemma put_queue_get: "dget (put_queue ev i qs) q = (if i = q then map_option (put_nowait ev) (dget qs q) else dget qs q)"
  by (auto simp: put_queue_def split: option.split)

lemma put_queues_get:
  "dget (foldl (\<lambda>qs i. put_queue ev i qs) qs is) q =
     map_option ((put_nowait ev ^^ count_list is q)) (dget qs q)"
  by (induction "is" arbitrary: qs) (auto simp: put_queue_get option.map_comp comp_def funpow_swap1 option.map_ident option.map_id)

lemma publish_queue:
  assumes "subscribed q topics bus"
  shows "queue_of q (bus_step bus (Publish t x)) =
      map_option (\<lambda>lq. foldl (\<lambda>lq ev. put_nowait ev lq) lq (live_events topics bus [Publish t x])) (queue_of q bus)"
    and "subscribed q topics (bus_step bus (Publish t x))"
proof -
  show "subscribed q topics (bus_step bus (Publish t x))"
    using assms by (auto simp: subscribed_def publish_def Let_def split: option.splits)
  show "queue_of q (bus_step bus (Publish t x)) =
      map_option (\<lambda>lq. foldl (\<lambda>lq ev. put_nowait ev lq) lq (live_events topics bus [Publish t x])) (queue_of q bus)"
  proof (cases "dget (eb_topics bus) t")
    case None
    then show ?thesis by (simp add: publish_def queue_of_def option.map_ident option.map_id)
  next
    case (Some ts)
    then have "count_list (ts_subscribers ts) q = (if t \<in> set topics then 1 else 0)"
      using assms by (auto simp: subscribed_def)
    with Some show ?thesis
      by (simp add: publish_def Let_def queue_of_def put_queues_get next_offset_def option.map_ident option.map_id)
  qed
qed

lemma count_list_remove1: "x \<noteq> y \<Longrightarrow> count_list (remove1 y xs) x = count_list xs x"
  by (induction xs) auto

lemma subscribers_after_unsubscribe:
  assumes "dget (foldl (\<lambda>d topic. try_remove_subscriber q topic d) d tps) t = Some ts'" and "p \<noteq> q"
  shows "\<exists>ts. dget d t = Some ts \<and> count_list (ts_subscribers ts') p = count_list (ts_subscribers ts) p"
  using assms
proof (induction tps arbitrary: d)
  case (Cons tp tps)
  then show ?case
    by (fastforce simp: try_remove_subscriber_def count_list_remove1 split: option.splits if_splits)
qed simp

lemma subscribers_after_subscribe:
  assumes "dget (foldl (\<lambda>d topic. case dget d topic of None \<Rightarrow> d
      | Some ts \<Rightarrow> dset topic (ts\<lparr>ts_subscribers := ts_subscribers ts @ [q]\<rparr>) d) d tps) t = Some ts'"
  shows "\<exists>ts. dget d t = Some ts \<and> ts_subscribers ts' = ts_subscribers ts @ replicate (count_list tps t) q"
  using assms
proof (induction tps arbitrary: d)
  case (Cons tp tps)
  then show ?case
    by (fastforce simp: replicate_append_same split: option.splits if_splits)
qed simp

lemma other_ops_queue:
  assumes "subscribed q topics bus" and "op \<noteq> Unsubscribe q" and "\<forall>t x. op \<noteq> Publish t x"
    and "queue_of q bus \<noteq> None"
  shows "queue_of q (bus_step bus op) = queue_of q bus \<and> subscribed q topics (bus_step bus op)"
proof (cases op)
  case (Subscribe tps n)
  have "count_list (ts_subscribers ts') q = (if t \<in> set topics then 1 else 0)"
    if "dget (eb_topics (bus_step bus op)) t = Some ts'" for t ts'
  proof -
    have "\<exists>ts. dget (eb_topics bus) t = Some ts
        \<and> ts_subscribers ts' = ts_subscribers ts @ replicate (count_list tps t) (eb_next_queue bus)"
      using that subscribers_after_subscribe [where q = "eb_next_queue bus" and d = "eb_topics bus" and tps = tps and t = t and ts' = ts']
      by (simp add: Subscribe subscribe_live_def Let_def)
    then obtain ts where "dget (eb_topics bus) t = Some ts"
      "ts_subscribers ts' = ts_subscribers ts @ replicate (count_list tps t) (eb_next_queue bus)" by blast
    moreover have "count_list (replicate k i) q = 0" if "i \<noteq> q" for k i using that by (induction k) auto
    ultimately show ?thesis using assms(1) by (auto simp: subscribed_def)
  qed
  then show ?thesis
    using assms(1,4) by (auto simp: subscribed_def queue_of_def Subscribe subscribe_live_def Let_def map_add_def)
next
  case (Unsubscribe p)
  have "count_list (ts_subscribers ts') q = (if t \<in> set topics then 1 else 0)"
    if "dget (eb_topics (bus_step bus op)) t = Some ts'" for t ts'
    using that subscribers_after_unsubscribe [where q = p and d = "eb_topics bus" and tps = all_topics and t = t and ts' = ts' and p = q] assms(1,2)
    by (auto simp: Unsubscribe unsubscribe_live_def subscribed_def)
  then show ?thesis
    using assms(1) by (auto simp: subscribed_def queue_of_def Unsubscribe unsubscribe_live_def)
qed (use assms(3) in simp)

lemma live_queue:
  assumes "subscribed q topics bus" and "queue_of q bus = Some lq" and "Unsubscribe q \<notin> set ops"
  shows "queue_of q (bus_run bus ops) = Some (foldl (\<lambda>lq ev. put_nowait ev lq) lq (live_events topics bus ops))"
  using assms
proof (induction ops arbitrary: bus lq)
  case Nil
  then show ?case by (simp add: bus_run_def)
next
  case (Cons op ops)
  have run: "bus_run bus (op # ops) = bus_run (bus_step bus op) ops" by (simp add: bus_run_def)
  show ?case
  proof (cases "\<exists>t x. op = Publish t x")
    case True
    then obtain t x where op: "op = Publish t x" by blast
    have "queue_of q (bus_step bus op) = Some (foldl (\<lambda>lq ev. put_nowait ev lq) lq (live_events topics bus [op]))"
      and "subscribed q topics (bus_step bus op)"
      using publish_queue [OF Cons.prems(1), of t x] Cons.prems(2) by (simp_all add: op del: live_events.simps)
    from Cons.IH [OF this(2,1)] Cons.prems(3) show ?thesis by (simp add: run)
  next
    case False
    then have "queue_of q (bus_step bus op) = queue_of q bus" "subscribed q topics (bus_step bus op)"
      using other_ops_queue [OF Cons.prems(1), of op] Cons.prems(2,3) by auto
    then have "queue_of q (bus_run (bus_step bus op) ops) =
        Some (foldl (\<lambda>lq ev. put_nowait ev lq) lq (live_events topics (bus_step bus op) ops))"
      using Cons.IH [of "bus_step bus op" lq] Cons.prems(2,3) by simp
    moreover have "live_events topics bus (op # ops) = live_events topics (bus_step bus op) ops"
      using False by (cases op) simp_all
    ultimately show ?thesis by (simp add: run)
  qed
qed

lemma puts_bounded:
  "q_items (foldl (\<lambda>lq ev. put_nowait ev lq) lq evs) =
     (if q_maxsize lq \<le> 0 then q_items lq @ evs else q_items lq @ take (nat (q_maxsize lq) - length (q_items lq)) evs)
   \<and> q_maxsize (foldl (\<lambda>lq ev. put_nowait ev lq) lq evs) = q_maxsize lq"
proof (induction evs arbitrary: lq)
  case (Cons ev evs)
  have "nat n - k = Suc (nat n - Suc k)" if "int k < n" for n k using that by simp
  then show ?case using Cons by (auto simp: put_nowait_def not_le)
qed simp

lemma subscribe_subscribed:
  assumes "bus_refines logs bus" and "distinct topics"
    and "\<forall>t ts. dget (eb_topics bus) t = Some ts \<longrightarrow> (\<forall>i\<in>set (ts_subscribers ts). i < eb_next_queue bus)"
    and "\<forall>i\<in>fst ` set (eb_queues bus). i < eb_next_queue bus"
    and "subscribe_live topics n bus = (q, bus')"
  shows "subscribed q topics bus'" and "queue_of q bus' = Some \<lparr>q_maxsize = n, q_items = []\<rparr>"
proof -
  have q: "q = eb_next_queue bus" "bus' = snd (subscribe_live topics n bus)"
    using assms(5) by (auto simp: subscribe_live_def Let_def)
  have "count_list (ts_subscribers ts') q = (if t \<in> set topics then 1 else 0)"
    if "dget (eb_topics bus') t = Some ts'" for t ts'
  proof -
    have "\<exists>ts. dget (eb_topics bus) t = Some ts
        \<and> ts_subscribers ts' = ts_subscribers ts @ replicate (count_list topics t) q"
      using that subscribers_after_subscribe [where q = "eb_next_queue bus" and d = "eb_topics bus" and tps = topics and t = t and ts' = ts']
      by (simp add: q subscribe_live_def Let_def)
    then obtain ts where ts: "dget (eb_topics bus) t = Some ts"
      "ts_subscribers ts' = ts_subscribers ts @ replicate (count_list topics t) q" by blast
    then have "q \<notin> set (ts_subscribers ts)" using assms(3) q by blast
    moreover have "count_list (replicate k q) q = k" for k by (induction k) auto
    moreover have "count_list topics t = (if t \<in> set topics then 1 else 0)"
      using assms(2) by (induction topics) auto
    ultimately show ?thesis using ts by (simp add: count_notin)
  qed
  then show "subscribed q topics bus'" by (auto simp: subscribed_def q subscribe_live_def Let_def)
  have "dget (eb_queues bus) q = None" using assms(4) q by (auto simp: map_of_eq_None_iff)
  then show "queue_of q bus' = Some \<lparr>q_maxsize = n, q_items = []\<rparr>"
    by (simp add: queue_of_def q subscribe_live_def Let_def map_add_def)
qed

definition queue_ids_ok :: "'p event_bus \<Rightarrow> bool" where
  "queue_ids_ok bus \<longleftrightarrow> (\<forall>t ts. dget (eb_topics bus) t = Some ts \<longrightarrow> (\<forall>i\<in>set (ts_subscribers ts). i < eb_next_queue bus))
     \<and> (\<forall>i\<in>fst ` set (eb_queues bus). i < eb_next_queue bus)"

lemma put_queue_keys: "fst ` set (put_queue ev i qs) = fst ` set qs"
  by (auto simp: put_queue_def split: option.split dest: dget_Some_key)

lemma put_queues_keys: "fst ` set (foldl (\<lambda>qs i. put_queue ev i qs) qs is) = fst ` set qs"
  by (induction "is" arbitrary: qs) (simp_all add: put_queue_keys)

lemma put_queues_mem:
  "(a, b) \<in> set (foldl (\<lambda>qs i. put_queue ev i qs) qs is) \<Longrightarrow> \<exists>c. (a, c) \<in> set qs"
  using put_queues_keys [of ev qs "is"] by (force simp: set_eq_iff image_iff)

lemma set_subscribers_unsubscribe:
  assumes "dget (foldl (\<lambda>d topic. try_remove_subscriber q topic d) d tps) t = Some ts'"
  shows "\<exists>ts. dget d t = Some ts \<and> set (ts_subscribers ts') \<subseteq> set (ts_subscribers ts)"
  using assms
proof (induction tps arbitrary: d)
  case (Cons tp tps)
  then show ?case
    by (fastforce simp: try_remove_subscriber_def split: option.splits if_splits dest: notin_set_remove1 set_mp [OF set_remove1_subset])
qed simp

lemma queue_ids_step: "queue_ids_ok bus \<Longrightarrow> queue_ids_ok (bus_step bus op)"
proof (cases op)
  case (Publish t x)
  assume "queue_ids_ok bus"
  then show ?thesis
    by (auto simp: Publish queue_ids_ok_def publish_def Let_def split: option.splits dest!: put_queues_mem)
next
  case (Subscribe tps n)
  assume ok: "queue_ids_ok bus"
  have "i < eb_next_queue (bus_step bus op)"
    if "dget (eb_topics (bus_step bus op)) t = Some ts'" and i: "i \<in> set (ts_subscribers ts')" for t ts' i
  proof -
    have "\<exists>ts. dget (eb_topics bus) t = Some ts
        \<and> ts_subscribers ts' = ts_subscribers ts @ replicate (count_list tps t) (eb_next_queue bus)"
      using that(1) subscribers_after_subscribe [where q = "eb_next_queue bus" and d = "eb_topics bus" and tps = tps and t = t and ts' = ts']
      by (simp add: Subscribe subscribe_live_def Let_def)
    then show ?thesis
      using ok i by (fastforce simp: queue_ids_ok_def Subscribe subscribe_live_def Let_def split: if_splits)
  qed
  with ok show ?thesis by (auto simp: queue_ids_ok_def Subscribe subscribe_live_def Let_def less_SucI)
next
  case (Unsubscribe q)
  assume ok: "queue_ids_ok bus"
  have "i < eb_next_queue (bus_step bus op)"
    if "dget (eb_topics (bus_step bus op)) t = Some ts'" and "i \<in> set (ts_subscribers ts')" for t ts' i
    using that ok set_subscribers_unsubscribe [where q = q and d = "eb_topics bus" and tps = all_topics and t = t and ts' = ts']
    by (fastforce simp: queue_ids_ok_def Unsubscribe unsubscribe_live_def)
  with ok show ?thesis by (auto simp: queue_ids_ok_def Unsubscribe unsubscribe_live_def)
qed

lemma queue_ids_run: "queue_ids_ok (bus_run (bus_init m) ops)"
proof (induction ops rule: rev_induct)
  case Nil
  show ?case by (auto simp: bus_run_def queue_ids_ok_def bus_init_def all_topics_def split: if_splits)
next
  case (snoc op ops)
  then show ?case by (simp add: bus_run_def queue_ids_step)
qed

lemma live_queue_holds:
  assumes "distinct topics" and "subscribe_live topics capacity (bus_run (bus_init maxlen) before) = (q, bus)"
    and "Unsubscribe q \<notin> set ops"
  shows "map_option q_items (queue_of q (bus_run bus ops)) =
    Some (if capacity \<le> 0 then live_events topics bus ops else take (nat capacity) (live_events topics bus ops))"
proof -
  note ids = queue_ids_run [of maxlen before, unfolded queue_ids_ok_def]
  note s = subscribe_subscribed [OF conjunct1 [OF bus_run_refines] assms(1) conjunct1 [OF ids] conjunct2 [OF ids] assms(2)]
  show ?thesis using live_queue [OF s assms(3)] by (simp add: puts_bounded)
qed

text \<open>C22. Live delivery: a queue subscribed to distinct topics, at any moment of the bus and whatever
  others publish, subscribe and unsubscribe, holds until it is read exactly the events that its
  topics saw since, in order, cut off at its capacity: what is published to a full queue is
  dropped, and nothing else is.\<close>

theorem live_delivery:
  assumes "distinct topics" and "subscribe_live topics capacity (bus_run (bus_init maxlen) before) = (q, bus)"
    and "Unsubscribe q \<notin> set ops"
  shows "map_option q_items (queue_of q (bus_run bus ops)) =
    Some (if capacity \<le> 0 then live_events topics bus ops else take (nat capacity) (live_events topics bus ops))"
  using assms by (rule live_queue_holds)

theorem live_delivery_witness:
  "let (q, bus) = subscribe_live [''faults''] 1 (bus_run (bus_init 10) [Publish ''faults'' ''a'']) in
     map_option q_items (queue_of q (bus_run bus [Publish ''faults'' ''b'', Publish ''transactions'' ''c'', Publish ''faults'' ''d'']))
       = Some [(1, ''b'')]"
proof -
  obtain q bus where s: "subscribe_live [''faults''] 1 (bus_run (bus_init 10) [Publish ''faults'' ''a'']) = (q, bus)" by fastforce
  from live_delivery [OF _ s, of "[Publish ''faults'' ''b'', Publish ''transactions'' ''c'', Publish ''faults'' ''d'']"] s
  show ?thesis
    by (auto simp: Let_def subscribe_live_def bus_run_def bus_init_def all_topics_def publish_def next_offset_def)
qed

subsection \<open>The SSE generator\<close>

text \<open>Phase one for one topic: what the catch-up replays of it, with the bus as it is then.\<close>

definition sse_backfill :: "string \<Rightarrow> int \<Rightarrow> 'p event_bus \<Rightarrow> stream_error + (int \<times> 'p) list" where
  "sse_backfill topic backfill bus =
     (if 0 < backfill then
        bindE (consume topic (max 0 (next_offset topic bus - backfill)) backfill bus)
          (\<lambda>evs. Inr (map (\<lambda>e. (e_seq e, e_payload e)) evs))
      else Inr [])"

text \<open>Phase two: the live queue of default size, created when the generator gets there.\<close>

definition sse_subscribe :: "string list \<Rightarrow> 'p event_bus \<Rightarrow> nat \<times> 'p event_bus" where
  "sse_subscribe topics bus = subscribe_live topics 256 bus"

lemma live_events_later:
  "bus_refines logs bus \<Longrightarrow> t \<in> set all_topics \<Longrightarrow> (s, x) \<in> set (live_events [t] bus ops) \<Longrightarrow> int (length (logs t)) \<le> s"
proof (induction ops arbitrary: bus logs)
  case (Cons op ops)
  obtain ts where ts: "dget (eb_topics bus) t = Some ts" "ts_seq ts = int (length (logs t))"
    using bus_refines_topic [OF Cons.prems(1,2)] by (auto simp: topic_refines_def)
  have step: "\<exists>logs'. bus_refines logs' (bus_step bus op) \<and> length (logs t) \<le> length (logs' t)"
  proof (cases op)
    case (Publish t' y)
    show ?thesis
    proof (cases "publish t' y bus")
      case (Inr r)
      then obtain seq b' where "publish t' y bus = Inr (seq, b')" by (cases r) auto
      with publish_refines [OF Cons.prems(1) this] show ?thesis
        by (intro exI [of _ "logs(t' := logs t' @ [y])"]) (simp add: Publish)
    qed (use Publish Cons.prems(1) in auto)
  next
    case (Subscribe tps n)
    have "eb_maxlen (snd (subscribe_live tps n bus)) = eb_maxlen bus" by (simp add: subscribe_live_def Let_def)
    with Subscribe show ?thesis
      using bus_refines_same_logs [OF subscribe_same_logs, of tps n bus] Cons.prems(1) by auto
  next
    case (Unsubscribe q)
    have "eb_maxlen (unsubscribe_live q bus) = eb_maxlen bus" by (simp add: unsubscribe_live_def)
    with Unsubscribe show ?thesis
      using bus_refines_same_logs [OF unsubscribe_same_logs, of q bus] Cons.prems(1) by auto
  qed
  then obtain logs' where l: "bus_refines logs' (bus_step bus op)" "length (logs t) \<le> length (logs' t)" by blast
  from Cons.prems(3) have "(s, x) \<in> set (live_events [t] (bus_step bus op) ops) \<or> s = next_offset t bus"
    by (auto split: bus_op.splits if_splits)
  then show ?case
    using Cons.IH [OF l(1) Cons.prems(2)] l(2) ts by (auto simp: next_offset_def)
qed simp

text \<open>The catch-up leaves a gap: an event that is published to a topic after the generator replayed
  the topic's backlog and before it subscribes is in neither: the replay has only earlier
  sequence numbers, the live queue, however the bus goes on, only later ones. A reconnecting
  client can so miss an event.\<close>

lemma sse_gap:
  assumes "t \<in> set all_topics" and "publish t x (bus_run (bus_init maxlen) ops) = Inr (seq, bus)"
    and "sse_backfill t backfill (bus_run (bus_init maxlen) ops) = Inr replayed"
    and "sse_subscribe [t] bus = (q, bus')" and "Unsubscribe q \<notin> set later"
    and "queue_of q (bus_run bus' later) = Some lq"
  shows "seq \<notin> fst ` set replayed \<and> seq \<notin> fst ` set (q_items lq)"
proof -
  let ?bus = "bus_run (bus_init maxlen) ops"
  note r = conjunct1 [OF bus_run_refines [of ops maxlen]]
  note p = publish_refines [OF r assms(2)]
  have "bus = bus_run (bus_init maxlen) (ops @ [Publish t x])" using assms(2) by (simp add: bus_run_def)
  then have s: "subscribe_live [t] 256 (bus_run (bus_init maxlen) (ops @ [Publish t x])) = (q, bus')"
    using assms(4) by (simp add: sse_subscribe_def)
  note ids = queue_ids_run [of maxlen "ops @ [Publish t x]", unfolded queue_ids_ok_def]
  note sub = subscribe_subscribed [OF conjunct1 [OF bus_run_refines] _ conjunct1 [OF ids] conjunct2 [OF ids] s]
  have items: "q_items lq = take 256 (live_events [t] bus' later)"
    using live_queue [OF sub assms(5)] assms(6) by (auto simp: puts_bounded)
  have "eb_maxlen bus' = eb_maxlen bus" and "bus' = snd (subscribe_live [t] 256 bus)"
    using assms(4) by (auto simp: sse_subscribe_def subscribe_live_def Let_def)
  then have "bus_refines ((\<lambda>t. published t ops)(t := published t ops @ [x])) bus'"
    using bus_refines_same_logs [OF subscribe_same_logs, of "[t]" 256 bus] p by simp
  from live_events_later [OF this assms(1)] have "seq \<notin> fst ` set (q_items lq)"
    using p by (fastforce simp: items dest: in_set_takeD)
  moreover have "seq \<notin> fst ` set replayed"
  proof (cases "0 < backfill")
    case True
    have "consume t (int (nat (max 0 (next_offset t ?bus - backfill)))) (int (nat backfill)) ?bus =
        consume t (max 0 (next_offset t ?bus - backfill)) backfill ?bus" using True by simp
    then show ?thesis
      using assms(3) consume_refines [OF r assms(1), of "nat backfill" "nat (max 0 (next_offset t ?bus - backfill))"] True p
      by (auto simp: sse_backfill_def)
  qed (use assms(3) in \<open>simp add: sse_backfill_def\<close>)
  ultimately show ?thesis by blast
qed

lemma sse_gap_example:
  "\<exists>seq bus replayed q bus' lq. publish ''faults'' ''b'' (bus_run (bus_init 10) [Publish ''faults'' ''a'']) = Inr (seq, bus)
     \<and> sse_backfill ''faults'' 5 (bus_run (bus_init 10) [Publish ''faults'' ''a'']) = Inr replayed
     \<and> sse_subscribe [''faults''] bus = (q, bus') \<and> queue_of q (bus_run bus' []) = Some lq
     \<and> seq \<notin> fst ` set replayed \<and> seq \<notin> fst ` set (q_items lq)"
proof -
  let ?b = "bus_run (bus_init 10) [Publish ''faults'' ''a''] :: string event_bus"
  have t: "''faults'' \<in> set all_topics" by (simp add: all_topics_def)
  obtain seq bus where p: "publish ''faults'' ''b'' ?b = Inr (seq, bus)"
    by (auto simp: bus_run_def bus_init_def all_topics_def publish_def Let_def)
  obtain r where r: "sse_backfill ''faults'' 5 ?b = Inr r"
    by (auto simp: bus_run_def bus_init_def all_topics_def publish_def Let_def sse_backfill_def consume_def
        next_offset_def push_bounded_def)
  obtain q bus' where s: "sse_subscribe [''faults''] bus = (q, bus')" by fastforce
  have b: "bus = bus_run (bus_init 10) ([Publish ''faults'' ''a''] @ [Publish ''faults'' ''b''])"
    using p by (simp add: bus_run_def)
  have "\<exists>lq. queue_of q (bus_run bus' []) = Some lq"
    using live_queue_holds [OF _ s [unfolded sse_subscribe_def b], of "[]"] by (auto simp: map_option_eq_Some)
  then obtain lq where "queue_of q (bus_run bus' []) = Some lq" by blast
  with sse_gap [OF t p r s _ this] p r s show ?thesis by auto
qed

end
