(* ===== verification/Base64.thy ===== *)
theory Base64
  imports PyText
begin

section \<open>URL-safe base64\<close>

text \<open>
  \<open>base64.urlsafe_b64decode\<close> of the Python standard library as \<open>ecn/auth.py\<close> uses it. It
  is lenient: a character outside the alphabet is skipped, both \<open>-\<close> and \<open>+\<close> stand for 62 and
  both \<open>_\<close> and \<open>/\<close> for 63, padding that completes a group ends the input, padding elsewhere
  is skipped, and only a group left incomplete at the end, or a character that is not ASCII,
  is an error. The encoder is the one of RFC 4648, section 5, without padding, as JSON Web
  Tokens use it; it serves to state what a well-formed token is.
\<close>

definition b64_value :: "char \<Rightarrow> nat option" where
  "b64_value c =
     (if 65 \<le> code c \<and> code c \<le> 90 then Some (code c - 65)
      else if 97 \<le> code c \<and> code c \<le> 122 then Some (code c - 71)
      else if 48 \<le> code c \<and> code c \<le> 57 then Some (code c + 4)
      else if c = CHR ''-'' \<or> c = CHR ''+'' then Some 62
      else if c = CHR ''_'' \<or> c = CHR ''/'' then Some 63
      else None)"

text \<open>The loop of \<open>a2b_base64\<close>: position in the group of four, bits left over, padding seen.\<close>

fun b64_loop :: "nat \<Rightarrow> nat \<Rightarrow> nat \<Rightarrow> string \<Rightarrow> string option" where
  "b64_loop quad_pos leftchar pads [] = (if quad_pos = 0 then Some [] else None)"
| "b64_loop quad_pos leftchar pads (c # cs) =
     (if c = CHR ''='' then
        if 2 \<le> quad_pos then
          if 4 \<le> quad_pos + (pads + 1) then Some [] else b64_loop quad_pos leftchar (pads + 1) cs
        else b64_loop quad_pos leftchar pads cs
      else case b64_value c of
          None \<Rightarrow> b64_loop quad_pos leftchar pads cs
        | Some v \<Rightarrow>
            if quad_pos = 0 then b64_loop 1 v 0 cs
            else if quad_pos = 1 then
              map_option ((#) (char_of (leftchar * 4 + v div 16))) (b64_loop 2 (v mod 16) 0 cs)
            else if quad_pos = 2 then
              map_option ((#) (char_of (leftchar * 16 + v div 4))) (b64_loop 3 (v mod 4) 0 cs)
            else map_option ((#) (char_of (leftchar * 64 + v))) (b64_loop 0 0 0 cs))"

definition urlsafe_b64decode :: "string \<Rightarrow> string option" where
  "urlsafe_b64decode s = (if \<forall>c\<in>set s. code c < 128 then b64_loop 0 0 0 s else None)"

text \<open>\<open>s + "=" * (-len(s) % 4)\<close>.\<close>

definition pad4 :: "string \<Rightarrow> string" where
  "pad4 s = s @ replicate (nat ((- int (length s)) mod 4)) (CHR ''='')"

subsection \<open>The encoder, and reading it back\<close>

definition b64_char :: "nat \<Rightarrow> char" where
  "b64_char n =
     (if n < 26 then char_of (n + 65) else if n < 52 then char_of (n + 71)
      else if n < 62 then char_of (n - 4) else if n = 62 then CHR ''-'' else CHR ''_'')"

fun b64url :: "string \<Rightarrow> string" where
  "b64url [] = []"
| "b64url [a] = [b64_char (code a div 4), b64_char (code a mod 4 * 16)]"
| "b64url [a, b] =
     [b64_char (code a div 4), b64_char (code a mod 4 * 16 + code b div 16), b64_char (code b mod 16 * 4)]"
| "b64url (a # b # c # r) =
     b64_char (code a div 4) # b64_char (code a mod 4 * 16 + code b div 16)
       # b64_char (code b mod 16 * 4 + code c div 64) # b64_char (code c mod 64) # b64url r"

lemma b64_value_char [simp]: "n < 64 \<Longrightarrow> b64_value (b64_char n) = Some n"
  by (auto simp: b64_char_def b64_value_def)

lemma b64_char_plain [simp]:
  "n < 64 \<Longrightarrow> b64_char n \<noteq> CHR ''=''" "n < 64 \<Longrightarrow> b64_char n \<noteq> CHR ''.''" "n < 64 \<Longrightarrow> code (b64_char n) < 128"
  by (auto simp: b64_char_def dest: arg_cong [where f = "of_char :: char \<Rightarrow> nat"])

lemma b64_bounds [simp]:
  "code c div 4 < 64" "code c mod 4 * 16 < 64" "code a mod 4 * 16 + code c div 16 < 64"
  "code c mod 16 * 4 < 64" "code a mod 16 * 4 + code c div 64 < 64" "code c mod 64 < 64"
  using code_div_less [of c] by auto

lemma b64_join [simp]:
  "code b div 16 div 16 = 0" "code c div 64 div 4 = 0" "code b div 16 mod 16 = code b div 16"
  "code c div 64 mod 4 = code c div 64" "code b div 16 * 16 + code b mod 16 = code b"
  "code c div 64 * 64 + code c mod 64 = code c"
  using code_div_less [of b] code_div_less [of c] by simp_all

lemma b64url_plain: "c \<in> set (b64url s) \<Longrightarrow> c \<noteq> CHR ''.'' \<and> code c < 128"
  by (induction s rule: b64url.induct) auto

lemma pad4_cons4 [simp]: "pad4 (a # b # c # d # s) = a # b # c # d # pad4 s"
proof -
  have "(- int (length (a # b # c # d # s))) mod 4 = (- int (length s)) mod 4" by simp presburger
  then show ?thesis by (simp only: pad4_def append_Cons)
qed

lemma b64_roundtrip: "urlsafe_b64decode (pad4 (b64url s)) = Some s"
proof -
  have "b64_loop 0 0 p (pad4 (b64url s)) = Some s" for p
  proof (induction s arbitrary: p rule: b64url.induct)
    case (4 a b c r)
    then show ?case by simp
  next
    case (2 a)
    then show ?case by (simp add: pad4_def numeral_2_eq_2)
  next
    case (3 a b)
    then show ?case by (simp add: pad4_def)
  qed (simp add: pad4_def)
  then show ?thesis using b64url_plain by (auto simp: urlsafe_b64decode_def pad4_def split: if_splits)
qed

end
