(* ===== verification/BearerToken.thy ===== *)
theory BearerToken
  imports Base64 Persistence
begin

section \<open>Bearer tokens\<close>

text \<open>
  \<open>_verify_jwt_and_get_role\<close> of \<open>ecn/auth.py\<close>: the check of an HS256 JSON Web Token and of its
  claims. The SHA-256 digest and \<open>json.loads\<close> are the fields of a record, without assumptions;
  HMAC is defined from the digest as the \<open>hmac\<close> module does. The
  time is in microseconds, the times in a token are its seconds, as integers: JSON here has no
  fractional numbers, so a token with such a claim is not covered. A token's claims
  are checked in the code's order, and what the code does not catch, such as the comparison of
  a time with a string, is \<open>Crash\<close>.
\<close>

record jwt_lib =
  jl_sha256 :: "string \<Rightarrow> string"
  jl_loads :: "string \<Rightarrow> json option"

record auth_env =
  av_auth_enabled :: "string option"
  av_admin_key :: "string option"
  av_jwt_secret :: "string option"
  av_jwt_issuer :: "string option"
  av_jwt_audience :: "string option"

text \<open>\<open>hmac.new(key, text, sha256).digest()\<close>, with the block size of SHA-256.\<close>

definition xor_bytes :: "nat \<Rightarrow> string \<Rightarrow> string" where
  "xor_bytes n s = map (\<lambda>c. char_of (Bit_Operations.xor (code c) n)) s"

definition hmac_sha256 :: "(string \<Rightarrow> string) \<Rightarrow> string \<Rightarrow> string \<Rightarrow> string" where
  "hmac_sha256 H key txt =
     (let k = (if 64 < length key then H key else key);
          k0 = k @ replicate (64 - length k) (CHR 0x00)
      in H (xor_bytes 0x5C k0 @ H (xor_bytes 0x36 k0 @ txt)))"

definition all_roles :: "string list" where
  "all_roles = [''admin'', ''submitter'', ''auditor'', ''readonly'']"

text \<open>\<open>claims[k] < now\<close> and \<open>claims[k] > now\<close>: only numbers compare.\<close>

fun claim_time :: "json \<Rightarrow> http_error + int" where
  "claim_time (JInt i) = Inr i"
| "claim_time (JBool b) = Inr (if b then 1 else 0)"
| "claim_time _ = Inl Crash"

definition check_time :: "(int \<Rightarrow> bool) \<Rightarrow> json option \<Rightarrow> http_error + unit" where
  "check_time bad claim =
     (case claim of None \<Rightarrow> Inr () | Some v \<Rightarrow> bindE (claim_time v) (\<lambda>t. ensure (Http 401) (\<not> bad (t * 1000000))))"

fun truthy :: "json \<Rightarrow> bool" where
  "truthy JNull = False"
| "truthy (JBool b) = b"
| "truthy (JInt i) = (i \<noteq> 0)"
| "truthy (JStr s) = (s \<noteq> [])"
| "truthy (JList xs) = (xs \<noteq> [])"
| "truthy (JObj kvs) = (kvs \<noteq> [])"

text \<open>\<open>role not in ALL_ROLES\<close> raises for a list or a dict, which have no hash.\<close>

fun role_claim :: "json \<Rightarrow> http_error + string" where
  "role_claim (JStr r) = (if r \<in> set all_roles then Inr r else Inl (Http 403))"
| "role_claim (JList xs) = (if xs = [] then Inl (Http 403) else Inl Crash)"
| "role_claim (JObj kvs) = (if kvs = [] then Inl (Http 403) else Inl Crash)"
| "role_claim _ = Inl (Http 403)"

definition check_issuer :: "string \<Rightarrow> json dict \<Rightarrow> http_error + unit" where
  "check_issuer expected_iss claims =
     ensure (Http 401) (expected_iss = [] \<or> dget claims ''iss'' = Some (JStr expected_iss))"

definition check_audience :: "string \<Rightarrow> json dict \<Rightarrow> http_error + unit" where
  "check_audience expected_aud claims =
     (let aud = dget_or claims ''aud'' (JStr []);
          aud_list = (case aud of JList xs \<Rightarrow> xs | _ \<Rightarrow> [aud])
      in ensure (Http 401) (expected_aud = [] \<or> JStr expected_aud \<in> set aud_list))"

definition claimed_role :: "json dict \<Rightarrow> json" where
  "claimed_role claims =
     (let role = dget_or claims ''role'' JNull
      in if truthy role then role else dget_or claims ''ecn_role'' JNull)"

text \<open>Claims that are not an object run into an exception that is not caught.\<close>

definition check_claims :: "auth_env \<Rightarrow> int \<Rightarrow> json \<Rightarrow> http_error + string" where
  "check_claims env now j =
     (case j of
        JObj claims \<Rightarrow>
          bindE (check_time (\<lambda>t. t < now) (dget claims ''exp'')) (\<lambda>_.
          bindE (check_time (\<lambda>t. now < t) (dget claims ''nbf'')) (\<lambda>_.
          bindE (check_issuer (env_text (av_jwt_issuer env)) claims) (\<lambda>_.
          bindE (check_audience (env_text (av_jwt_audience env)) claims) (\<lambda>_.
            role_claim (claimed_role claims)))))
      | _ \<Rightarrow> Inl Crash)"

definition b64_or_401 :: "string \<Rightarrow> http_error + string" where
  "b64_or_401 s = (case urlsafe_b64decode (pad4 s) of None \<Rightarrow> Inl (Http 401) | Some b \<Rightarrow> Inr b)"

definition verify_jwt_and_get_role :: "jwt_lib \<Rightarrow> auth_env \<Rightarrow> int \<Rightarrow> string \<Rightarrow> http_error + string" where
  "verify_jwt_and_get_role L env now token =
     (let jwt_secret = env_text (av_jwt_secret env) in
      bindE (ensure (Http 401) (jwt_secret \<noteq> [])) (\<lambda>_.
      case split_on (CHR ''.'') token of
        [header_b64, payload_b64, sig_b64] \<Rightarrow>
          (let signing_input = utf8 (header_b64 @ ''.'' @ payload_b64);
               expected_sig = hmac_sha256 (jl_sha256 L) (utf8 jwt_secret) signing_input
           in bindE (b64_or_401 sig_b64) (\<lambda>actual_sig.
              bindE (ensure (Http 401) (expected_sig = actual_sig)) (\<lambda>_.
              bindE (b64_or_401 payload_b64) (\<lambda>payload_bytes.
                case jl_loads L payload_bytes of
                  None \<Rightarrow> Inl (Http 401)
                | Some claims \<Rightarrow> check_claims env now claims))))
      | _ \<Rightarrow> Inl (Http 401)))"

subsection \<open>Well-formed tokens\<close>

text \<open>The compact form of a token with the given signature.\<close>

definition jwt_signing_input :: "string \<Rightarrow> string \<Rightarrow> string" where
  "jwt_signing_input hdr payload = b64url hdr @ ''.'' @ b64url payload"

definition jwt_compact :: "string \<Rightarrow> string \<Rightarrow> string \<Rightarrow> string" where
  "jwt_compact hdr payload sig = jwt_signing_input hdr payload @ ''.'' @ b64url sig"

lemma b64url_no_dot [simp]: "CHR ''.'' \<notin> set (b64url s)"
  using b64url_plain by blast

lemma b64_or_401_b64url [simp]: "b64_or_401 (b64url s) = Inr s"
  by (simp add: b64_or_401_def b64_roundtrip)

lemma split_jwt [simp]: "split_on (CHR ''.'') (jwt_compact h p s) = [b64url h, b64url p, b64url s]"
  by (simp add: jwt_compact_def jwt_signing_input_def split_on_cons split_on_none)

lemma utf8_signing_input [simp]: "utf8 (jwt_signing_input h p) = jwt_signing_input h p"
  using b64url_plain by (intro utf8_ascii) (auto simp: jwt_signing_input_def)

lemma verify_compact:
  "verify_jwt_and_get_role L env now (jwt_compact h p s) =
     (if env_text (av_jwt_secret env) \<noteq> []
         \<and> s = hmac_sha256 (jl_sha256 L) (utf8 (env_text (av_jwt_secret env))) (jwt_signing_input h p)
      then case jl_loads L p of None \<Rightarrow> Inl (Http 401) | Some claims \<Rightarrow> check_claims env now claims
      else Inl (Http 401))"
  using utf8_signing_input [of h p]
  by (auto simp: verify_jwt_and_get_role_def ensure_def Let_def jwt_signing_input_def
      simp del: utf8_signing_input)

lemma role_claim_iff: "role_claim j = Inr r \<longleftrightarrow> r \<in> set all_roles \<and> j = JStr r"
  by (cases j) auto

text \<open>Whether a time in the claims is missing or acceptable.\<close>

fun exp_ok :: "int \<Rightarrow> json option \<Rightarrow> bool" where
  "exp_ok now None = True"
| "exp_ok now (Some (JInt t)) = (now \<le> t * 1000000)"
| "exp_ok now (Some (JBool b)) = (now \<le> (if b then 1000000 else 0))"
| "exp_ok now _ = False"

fun nbf_ok :: "int \<Rightarrow> json option \<Rightarrow> bool" where
  "nbf_ok now None = True"
| "nbf_ok now (Some (JInt t)) = (t * 1000000 \<le> now)"
| "nbf_ok now (Some (JBool b)) = ((if b then 1000000 else 0) \<le> now)"
| "nbf_ok now _ = False"

lemma check_time_exp: "check_time (\<lambda>t. t < now) v = Inr u \<longleftrightarrow> exp_ok now v"
  by (cases "(now, v)" rule: exp_ok.cases) (auto simp: check_time_def result_iffs)

lemma check_time_nbf: "check_time (\<lambda>t. now < t) v = Inr u \<longleftrightarrow> nbf_ok now v"
  by (cases "(now, v)" rule: nbf_ok.cases) (auto simp: check_time_def result_iffs)

lemma check_claims_iff:
  "check_claims env now j = Inr r \<longleftrightarrow> r \<in> set all_roles \<and> (\<exists>claims. j = JObj claims
     \<and> exp_ok now (dget claims ''exp'') \<and> nbf_ok now (dget claims ''nbf'')
     \<and> check_issuer (env_text (av_jwt_issuer env)) claims = Inr ()
     \<and> check_audience (env_text (av_jwt_audience env)) claims = Inr ()
     \<and> claimed_role claims = JStr r)"
  by (cases j) (auto simp: check_claims_def bindE_Inr_iff check_time_exp check_time_nbf role_claim_iff)

lemma verify_iff:
  "verify_jwt_and_get_role L env now token = Inr r \<longleftrightarrow>
     env_text (av_jwt_secret env) \<noteq> [] \<and> (\<exists>h p s payload claims.
       split_on (CHR ''.'') token = [h, p, s]
       \<and> urlsafe_b64decode (pad4 s) =
           Some (hmac_sha256 (jl_sha256 L) (utf8 (env_text (av_jwt_secret env))) (utf8 (h @ ''.'' @ p)))
       \<and> urlsafe_b64decode (pad4 p) = Some payload \<and> jl_loads L payload = Some claims
       \<and> check_claims env now claims = Inr r)"
  by (auto simp: verify_jwt_and_get_role_def Let_def bindE_Inr_iff ensure_Inr_iff b64_or_401_def
      split: list.splits option.splits)

text \<open>Whose claims they are, as the standard states it: an audience is a string or a list of them.\<close>

lemma check_issuer_iff: "check_issuer i claims = Inr u \<longleftrightarrow> i = [] \<or> dget claims ''iss'' = Some (JStr i)"
  by (simp add: check_issuer_def ensure_Inr_iff)

lemma check_audience_iff:
  "check_audience a claims = Inr u \<longleftrightarrow> a = [] \<or> dget claims ''aud'' = Some (JStr a)
     \<or> (\<exists>xs. dget claims ''aud'' = Some (JList xs) \<and> JStr a \<in> set xs)"
  by (auto simp: check_audience_def ensure_Inr_iff dget_or_def Let_def split: option.splits json.splits)

lemma claimed_role_iff:
  assumes "r \<in> set all_roles"
  shows "claimed_role claims = JStr r \<longleftrightarrow> dget claims ''role'' = Some (JStr r)
    \<or> (dget claims ''role'' \<in> {None, Some JNull, Some (JBool False), Some (JInt 0), Some (JStr []), Some (JList []), Some (JObj [])}
        \<and> dget claims ''ecn_role'' = Some (JStr r))"
proof -
  have "r \<noteq> []" using assms by (auto simp: all_roles_def)
  moreover have "\<not> truthy j \<longleftrightarrow> j \<in> {JNull, JBool False, JInt 0, JStr [], JList [], JObj []}" for j
    by (cases j) auto
  ultimately show ?thesis
    by (cases "dget claims ''role''"; cases "dget claims ''ecn_role''") (auto simp: claimed_role_def dget_or_def Let_def)
qed

text \<open>What the claims of an acceptable token say, for role \<open>r\<close>.\<close>

definition claims_grant :: "auth_env \<Rightarrow> int \<Rightarrow> json dict \<Rightarrow> string \<Rightarrow> bool" where
  "claims_grant env now claims r \<longleftrightarrow>
     exp_ok now (dget claims ''exp'') \<and> nbf_ok now (dget claims ''nbf'')
     \<and> (let iss = env_text (av_jwt_issuer env) in iss = [] \<or> dget claims ''iss'' = Some (JStr iss))
     \<and> (let aud = env_text (av_jwt_audience env) in aud = [] \<or> dget claims ''aud'' = Some (JStr aud)
          \<or> (\<exists>auds. dget claims ''aud'' = Some (JList auds) \<and> JStr aud \<in> set auds))
     \<and> (dget claims ''role'' = Some (JStr r)
         \<or> (dget claims ''role'' \<in> {None, Some JNull, Some (JBool False), Some (JInt 0), Some (JStr []), Some (JList []), Some (JObj [])}
             \<and> dget claims ''ecn_role'' = Some (JStr r)))"

lemma check_claims_grant:
  "check_claims env now j = Inr r \<longleftrightarrow> r \<in> set all_roles \<and> (\<exists>claims. j = JObj claims \<and> claims_grant env now claims r)"
  unfolding check_claims_iff claims_grant_def check_issuer_iff check_audience_iff Let_def
  using claimed_role_iff [of r] by auto

text \<open>C20. A bearer token is accepted, with role r, exactly when a secret is configured and the token is
  three parts, the last of which decodes to the MAC of the first two under that secret and the
  second to an object of claims that are in date, whose issuer is the configured one and whose audience
  is or contains the configured one, if they are configured, and that name the known role r, as
  \<open>role\<close> or, where that is missing, null, false, zero or empty, as \<open>ecn_role\<close>. And a token in compact form passes the
  signature check exactly when it carries that MAC; then its claims decide, and otherwise it is refused
  with 401.\<close>

theorem bearer_token_decision:
  "(verify_jwt_and_get_role L env now token = Inr r \<longleftrightarrow>
      r \<in> set all_roles \<and> env_text (av_jwt_secret env) \<noteq> [] \<and> (\<exists>h p s payload claims.
        token = h @ ''.'' @ p @ ''.'' @ s \<and> CHR ''.'' \<notin> set (h @ p @ s)
        \<and> urlsafe_b64decode (pad4 s) =
            Some (hmac_sha256 (jl_sha256 L) (utf8 (env_text (av_jwt_secret env))) (utf8 (h @ ''.'' @ p)))
        \<and> urlsafe_b64decode (pad4 p) = Some payload \<and> jl_loads L payload = Some (JObj claims)
        \<and> claims_grant env now claims r))
   \<and> verify_jwt_and_get_role L env now (jwt_compact hdr body sig) =
     (if env_text (av_jwt_secret env) \<noteq> []
         \<and> sig = hmac_sha256 (jl_sha256 L) (utf8 (env_text (av_jwt_secret env))) (jwt_signing_input hdr body)
      then case jl_loads L body of None \<Rightarrow> Inl (Http 401) | Some claims \<Rightarrow> check_claims env now claims
      else Inl (Http 401))"
  using verify_compact verify_iff [of L env now token r]
  by (simp add: check_claims_grant split_on_three) blast

end
