(* ===== verification/Auth.thy ===== *)
theory Auth
  imports BearerToken
begin

section \<open>API keys and roles\<close>

text \<open>
  \<open>ecn/auth.py\<close>: the registry of API keys over an optional store, the bootstrap of the admin
  key, and the check every guarded route depends on. What \<open>uuid4\<close> and \<open>token_urlsafe\<close> return is
  an argument of the operation that calls them; the environment is a record. The two dicts of
  the registry, by key id and by secret, hold the same keys as long as ids and secrets are
  fresh (\<open>key_life\<close>); the registry then decides exactly by the keys issued and not revoked, and
  so does one loaded from its store, which is proved in the locale \<open>registry_store\<close>.
\<close>

record api_key =
  k_key_id :: string
  k_key :: string
  k_role :: string
  k_description :: string
  k_tenant_id :: "string option"

record 's key_registry =
  kr_store :: "'s option"
  kr_keys :: "api_key dict"
  kr_lookup :: "api_key dict"

datatype issue_error = UnknownRole string

definition key_to_dict :: "api_key \<Rightarrow> json" where
  "key_to_dict k = JObj [(''key_id'', JStr (k_key_id k)), (''key'', JStr (k_key k)), (''role'', JStr (k_role k)),
     (''description'', JStr (k_description k)), (''tenant_id'', json_opt_str (k_tenant_id k))]"

definition key_from_dict :: "json \<Rightarrow> load_error + api_key" where
  "key_from_dict d =
     bindE (bindE (field ''key_id'' d) (as_str ''key_id'')) (\<lambda>key_id.
     bindE (bindE (field ''key'' d) (as_str ''key'')) (\<lambda>key.
     bindE (bindE (field ''role'' d) (as_str ''role'')) (\<lambda>role.
     bindE (as_str ''description'' (field_or ''description'' (JStr []) d)) (\<lambda>description.
     bindE (as_opt_str ''tenant_id'' (field_or ''tenant_id'' JNull d)) (\<lambda>tenant_id.
       Inr \<lparr>k_key_id = key_id, k_key = key, k_role = role, k_description = description,
            k_tenant_id = tenant_id\<rparr>)))))"

definition enter_key :: "api_key \<Rightarrow> 's key_registry \<Rightarrow> 's key_registry" where
  "enter_key k r = r\<lparr>kr_keys := dset (k_key_id k) k (kr_keys r), kr_lookup := dset (k_key k) k (kr_lookup r)\<rparr>"

definition registry_load :: "'s key_ops \<Rightarrow> 's \<Rightarrow> 's key_registry \<Rightarrow> load_error + 's key_registry" where
  "registry_load K s r =
     bindE (mapE key_from_dict (ko_load_all K s)) (\<lambda>ks. Inr (foldl (\<lambda>r k. enter_key k r) r ks))"

definition registry_init :: "'s key_ops \<Rightarrow> 's option \<Rightarrow> load_error + 's key_registry" where
  "registry_init K store =
     (let r = \<lparr>kr_store = store, kr_keys = [], kr_lookup = []\<rparr>
      in case store of None \<Rightarrow> Inr r | Some s \<Rightarrow> registry_load K s r)"

text \<open>\<open>x or y\<close> for an optional string.\<close>

definition or_else :: "string option \<Rightarrow> string \<Rightarrow> string" where
  "or_else x y = (case x of None \<Rightarrow> y | Some s \<Rightarrow> if s = [] then y else s)"

definition issue ::
  "'s key_ops \<Rightarrow> string \<Rightarrow> string \<Rightarrow> string \<Rightarrow> string \<Rightarrow> string option \<Rightarrow> string option \<Rightarrow> string option
     \<Rightarrow> 's key_registry \<Rightarrow> issue_error + api_key \<times> 's key_registry" where
  "issue K uuid token role description tenant_id key_id secret r =
     (if role \<notin> set all_roles then Inl (UnknownRole role)
      else
        let k = \<lparr>k_key_id = or_else key_id uuid, k_key = or_else secret token, k_role = role,
                 k_description = description, k_tenant_id = tenant_id\<rparr>;
            r = enter_key k r
        in Inr (k, r\<lparr>kr_store := map_option (ko_save_key K (k_key_id k) (key_to_dict k)) (kr_store r)\<rparr>))"

definition revoke :: "'s key_ops \<Rightarrow> string \<Rightarrow> 's key_registry \<Rightarrow> bool \<times> 's key_registry" where
  "revoke K key_id r =
     (case dget (kr_keys r) key_id of
        None \<Rightarrow> (False, r)
      | Some k \<Rightarrow>
          (True, r\<lparr>kr_keys := dpop key_id (kr_keys r), kr_lookup := dpop (k_key k) (kr_lookup r),
                   kr_store := map_option (ko_delete_key K key_id) (kr_store r)\<rparr>))"

definition lookup :: "string \<Rightarrow> 's key_registry \<Rightarrow> api_key option" where
  "lookup secret r = dget (kr_lookup r) secret"

definition list_keys :: "'s key_registry \<Rightarrow> json list" where
  "list_keys r = map (\<lambda>k. JObj [(''key_id'', JStr (k_key_id k)), (''role'', JStr (k_role k)),
     (''description'', JStr (k_description k)), (''tenant_id'', json_opt_str (k_tenant_id k))])
     (dvalues (kr_keys r))"

subsection \<open>Start-up and the check of a request\<close>

definition is_auth_enabled :: "auth_env \<Rightarrow> bool" where
  "is_auth_enabled env \<longleftrightarrow> lower (env_text (av_auth_enabled env)) \<in> {''1'', ''true'', ''yes'', ''on''}"

text \<open>\<open>token\<close> is what \<open>token_urlsafe\<close> returned when no admin key is configured.\<close>

definition init_registry ::
  "'s key_ops \<Rightarrow> auth_env \<Rightarrow> string \<Rightarrow> 's option \<Rightarrow> load_error + 's key_registry" where
  "init_registry K env token store =
     bindE (registry_init K store) (\<lambda>r.
       if is_auth_enabled env then
         let admin_secret = or_else (Some (env_text (av_admin_key env))) token in
         if lookup admin_secret r = None then
           (case issue K [] [] ''admin'' ''bootstrap admin'' None (Some ''admin-bootstrap'') (Some admin_secret) r of
              Inr (k, r) \<Rightarrow> Inr r | Inl e \<Rightarrow> Inr r)
         else Inr r
       else Inr r)"

definition is_bearer :: "string option \<Rightarrow> bool" where
  "is_bearer authorization =
     (case authorization of None \<Rightarrow> False | Some a \<Rightarrow> take 7 (lower a) = ''bearer '')"

definition require_role ::
  "jwt_lib \<Rightarrow> auth_env \<Rightarrow> int \<Rightarrow> 's key_registry option \<Rightarrow> string list \<Rightarrow> string option \<Rightarrow> string option
     \<Rightarrow> http_error + unit" where
  "require_role L env now registry allowed_roles x_api_key authorization =
     (if \<not> is_auth_enabled env then Inr ()
      else case registry of
        None \<Rightarrow> Inl (Http 503)
      | Some r \<Rightarrow>
          if is_bearer authorization then
            bindE (verify_jwt_and_get_role L env now (strip (drop 7 (the authorization)))) (\<lambda>role.
              ensure (Http 403) (role \<in> set allowed_roles))
          else case x_api_key of
            None \<Rightarrow> Inl (Http 401)
          | Some s \<Rightarrow>
              if s = [] then Inl (Http 401)
              else case lookup s r of
                None \<Rightarrow> Inl (Http 403)
              | Some k \<Rightarrow> ensure (Http 403) (k_role k \<in> set allowed_roles))"

definition require_admin ::
  "jwt_lib \<Rightarrow> auth_env \<Rightarrow> int \<Rightarrow> 's key_registry option \<Rightarrow> string option \<Rightarrow> string option \<Rightarrow> http_error + unit" where
  "require_admin L env now registry x_api_key authorization =
     require_role L env now registry [''admin''] x_api_key authorization"

subsection \<open>Histories of a registry\<close>

datatype key_event = Issued api_key | Revoked string

text \<open>The specification: the keys issued and not revoked since.\<close>

fun live :: "key_event list \<Rightarrow> api_key set" where
  "live [] = {}"
| "live (Issued k # h) = insert k (live h)"
| "live (Revoked i # h) = {k \<in> live h. k_key_id k \<noteq> i}"

text \<open>
  Histories (newest first) in which ids and secrets are fresh, as random ones are. A registry may be
  reloaded from its store at any time; what start-up issues after that is an event like any other.
\<close>

inductive key_life :: "'s key_ops \<Rightarrow> 's key_registry \<Rightarrow> key_event list \<Rightarrow> 's key_registry \<Rightarrow> bool" for K r0 where
  start: "key_life K r0 [] r0"
| issued: "key_life K r0 h r \<Longrightarrow> issue K u t role d tid i s r = Inr (k, r') \<Longrightarrow>
    dget (kr_keys r) (k_key_id k) = None \<Longrightarrow> lookup (k_key k) r = None \<Longrightarrow> key_life K r0 (Issued k # h) r'"
| revoked: "key_life K r0 h r \<Longrightarrow> revoke K i r = (b, r') \<Longrightarrow> key_life K r0 (Revoked i # h) r'"
| reloaded: "key_life K r0 h r \<Longrightarrow> kr_store r = Some s \<Longrightarrow> registry_init K (Some s) = Inr r' \<Longrightarrow> key_life K r0 h r'"

text \<open>The two dicts of the registry index the live keys.\<close>

definition indexes :: "api_key set \<Rightarrow> 's key_registry \<Rightarrow> bool" where
  "indexes A r \<longleftrightarrow> indexed k_key_id A (dget (kr_keys r)) \<and> indexed k_key A (dget (kr_lookup r))"

lemma dget_dset_fun: "dget (dset k v d) = (dget d)(k \<mapsto> v)" "dget (dpop k d) = (dget d)(k := None)"
  by (auto simp: delete_conv')

lemma indexes_enter:
  assumes "indexes A r" and "dget (kr_keys r) (k_key_id k) = None \<or> dget (kr_keys r) (k_key_id k) = Some k"
    and "lookup (k_key k) r = None \<or> lookup (k_key k) r = Some k"
  shows "indexes (insert k A) (enter_key k r)"
  using assms indexed_upd [of k_key_id A "dget (kr_keys r)" k] indexed_upd [of k_key A "dget (kr_lookup r)" k]
  by (auto simp: indexes_def enter_key_def lookup_def dget_dset_fun simp del: dget_dset fun_upd_apply)

lemma indexes_key: "indexes A r \<Longrightarrow> dget (kr_keys r) i = Some k \<longleftrightarrow> k \<in> A \<and> k_key_id k = i"
  unfolding indexes_def by (intro indexed_Some) simp

lemma indexes_lookup: "indexes A r \<Longrightarrow> lookup s r = Some k \<longleftrightarrow> k \<in> A \<and> k_key k = s"
  unfolding indexes_def lookup_def by (intro indexed_Some) simp

lemma indexes_inj: "indexes A r \<Longrightarrow> inj_on k_key_id A \<and> inj_on k_key A"
  unfolding indexes_def by (blast intro: indexed_inj)

lemma indexes_lookup_eq: "indexes A r \<Longrightarrow> indexes A r' \<Longrightarrow> lookup s r = lookup s r'"
  unfolding indexes_def lookup_def by (metis indexed_unique)

lemma indexes_revoke:
  assumes "indexes A r" and "dget (kr_keys r) i = Some k"
  shows "indexes {a \<in> A. k_key_id a \<noteq> i} (snd (revoke K i r))"
proof -
  have k: "k \<in> A" "k_key_id k = i" using assms indexes_key by blast+
  then have "{a \<in> A. k_key_id a \<noteq> i} = A - {k}"
    using indexes_inj [OF assms(1)] by (auto dest: inj_onD)
  moreover have "snd (revoke K i r) = r\<lparr>kr_keys := dpop i (kr_keys r), kr_lookup := dpop (k_key k) (kr_lookup r),
      kr_store := map_option (ko_delete_key K i) (kr_store r)\<rparr>"
    using assms(2) by (simp add: revoke_def)
  ultimately show ?thesis
    using assms(1) k indexed_del [of k_key_id A "dget (kr_keys r)" k] indexed_del [of k_key A "dget (kr_lookup r)" k]
    by (auto simp: indexes_def dget_dset_fun simp del: fun_upd_apply)
qed

lemma indexes_loaded:
  assumes "inj_on k_key_id A" and "inj_on k_key A"
  shows "set ks \<subseteq> A \<Longrightarrow> indexes B r \<Longrightarrow> B \<subseteq> A \<Longrightarrow>
    indexes (B \<union> set ks) (foldl (\<lambda>r k. enter_key k r) r ks)
    \<and> kr_store (foldl (\<lambda>r k. enter_key k r) r ks) = kr_store r"
proof (induction ks arbitrary: B r)
  case (Cons k ks)
  have same: "a = k" if "a \<in> B" "k_key_id a = k_key_id k \<or> k_key a = k_key k" for a
    using that Cons.prems assms by (auto dest: inj_onD)
  have "dget (kr_keys r) (k_key_id k) = None \<or> dget (kr_keys r) (k_key_id k) = Some k"
    using same indexes_key [OF Cons.prems(2)] by (metis not_None_eq)
  moreover have "lookup (k_key k) r = None \<or> lookup (k_key k) r = Some k"
    using same indexes_lookup [OF Cons.prems(2)] by (metis not_None_eq)
  ultimately have "indexes (insert k B) (enter_key k r)" by (rule indexes_enter [OF Cons.prems(2)])
  with Cons.IH [of "insert k B" "enter_key k r"] Cons.prems show ?case
    by (simp add: enter_key_def)
qed simp

lemma key_dict_roundtrip [simp]: "key_from_dict (key_to_dict k) = Inr k"
  by (simp add: key_from_dict_def key_to_dict_def field_def field_or_def json_field_def)

lemma key_to_dict_id [simp]: "json_key_id (key_to_dict k) = Some (k_key_id k)"
  by (simp add: json_key_id_def json_field_def key_to_dict_def)

lemma key_to_dict_inject [simp]: "key_to_dict k = key_to_dict k' \<longleftrightarrow> k = k'"
  by (metis key_dict_roundtrip sum.inject(2))

subsection \<open>The store follows the registry\<close>

locale registry_store = key_store S empty json_key_id ok
  for S :: "'s key_ops" and empty :: 's and ok :: "'s \<Rightarrow> bool"
begin

definition registry_inv :: "key_event list \<Rightarrow> 's key_registry \<Rightarrow> bool" where
  "registry_inv h r \<longleftrightarrow> indexes (live h) r
     \<and> (\<forall>s. kr_store r = Some s \<longrightarrow> ok s \<and> set (ko_load_all S s) = key_to_dict ` live h)"

lemma empty_inv: "registry_inv [] \<lparr>kr_store = Some empty, kr_keys = [], kr_lookup = []\<rparr>"
  by (simp add: registry_inv_def indexes_def indexed_empty inv_empty load_empty)

lemma issue_inv:
  assumes "registry_inv h r" and "issue S u t role d tid i s r = Inr (k, r')"
    and "dget (kr_keys r) (k_key_id k) = None" and "lookup (k_key k) r = None"
  shows "registry_inv (Issued k # h) r'"
proof -
  have r': "r' = (enter_key k r)\<lparr>kr_store := map_option (ko_save_key S (k_key_id k) (key_to_dict k)) (kr_store r)\<rparr>"
    using assms(2) by (auto simp: issue_def Let_def enter_key_def split: if_splits)
  have ix: "indexes (live h) r" using assms(1) by (simp add: registry_inv_def)
  have "indexes (insert k (live h)) (enter_key k r)"
    using assms(3,4) by (intro indexes_enter [OF ix]) simp_all
  then have "indexes (insert k (live h)) r'" by (simp add: r' indexes_def)
  moreover have "k_key_id a \<noteq> k_key_id k" if "a \<in> live h" for a
  proof
    assume "k_key_id a = k_key_id k"
    with that have "dget (kr_keys r) (k_key_id k) = Some a" using indexes_key [OF ix] by blast
    with assms(3) show False by simp
  qed
  ultimately show ?thesis using assms(1)
    by (auto simp: registry_inv_def r' inv_save load_save)
qed

lemma revoke_inv:
  assumes "registry_inv h r" and "revoke S i r = (b, r')"
  shows "registry_inv (Revoked i # h) r'"
proof (cases "dget (kr_keys r) i")
  case None
  have ix: "indexes (live h) r" using assms(1) by (simp add: registry_inv_def)
  have "k_key_id k \<noteq> i" if "k \<in> live h" for k using indexes_key [OF ix, of i k] that None by auto
  then have "live (Revoked i # h) = live h" by auto
  with None assms show ?thesis by (simp add: revoke_def registry_inv_def)
next
  case (Some k)
  have "indexes (live (Revoked i # h)) r'"
    using indexes_revoke [OF _ Some, of "live h" S] assms by (simp add: registry_inv_def)
  moreover have "kr_store r' = map_option (ko_delete_key S i) (kr_store r)"
    using Some assms(2) by (auto simp: revoke_def)
  ultimately show ?thesis using assms(1)
    by (auto simp: registry_inv_def inv_delete load_delete image_iff)
qed

text \<open>A registry loaded from the store of another knows the same keys.\<close>

lemma reload:
  assumes "registry_inv h r" and "kr_store r = Some s"
  shows "\<exists>r'. registry_init S (Some s) = Inr r' \<and> registry_inv h r' \<and> kr_store r' = Some s"
proof -
  have ld: "set (ko_load_all S s) = key_to_dict ` live h" and ix: "indexes (live h) r" and "ok s"
    using assms by (simp_all add: registry_inv_def)
  define ks where "ks = map (\<lambda>d. inv_into (live h) key_to_dict d) (ko_load_all S s)"
  have "key_to_dict (inv_into (live h) key_to_dict d) = d" if "d \<in> set (ko_load_all S s)" for d
    using that ld by (intro f_inv_into_f) simp
  then have m: "ko_load_all S s = map key_to_dict ks"
    by (simp add: ks_def comp_def map_idI)
  then have ks: "set ks = live h" using ld inj_image_eq_iff [of key_to_dict "set ks" "live h"]
    by (simp add: inj_def)
  let ?r = "\<lparr>kr_store = Some s, kr_keys = [], kr_lookup = []\<rparr> :: 's key_registry"
  let ?r' = "foldl (\<lambda>r k. enter_key k r) ?r ks"
  have "indexes {} ?r" by (simp add: indexes_def indexed_empty map_of.simps(1) [abs_def])
  then have "indexes (live h) ?r' \<and> kr_store ?r' = Some s"
    using indexes_loaded [of "live h" ks "{}" ?r] indexes_inj [OF ix] ks by simp
  moreover have "registry_init S (Some s) = Inr ?r'"
    using mapE_map [of ks key_from_dict key_to_dict id] by (simp add: registry_init_def registry_load_def m)
  ultimately show ?thesis using ld \<open>ok s\<close> by (auto simp: registry_inv_def)
qed

lemma life_inv: "key_life S r0 h r \<Longrightarrow> registry_inv [] r0 \<Longrightarrow> registry_inv h r"
proof (induction rule: key_life.induct)
  case (reloaded h r s r')
  then show ?case using reload [of h r s] by auto
qed (auto intro: issue_inv revoke_inv)

end

interpretation sqlite_registry: registry_store sqlite_keys "key_init_db None" key_table_inv
  by unfold_locales

abbreviation empty_registry :: "key_table key_registry" where
  "empty_registry \<equiv> \<lparr>kr_store = Some (key_init_db None), kr_keys = [], kr_lookup = []\<rparr>"

subsection \<open>Who is let in\<close>

lemma store_entered: "kr_store (foldl (\<lambda>r k. enter_key k r) r ks) = kr_store r"
  by (induction ks arbitrary: r) (simp_all add: enter_key_def)

lemma life_store: "key_life K r0 h r \<Longrightarrow> kr_store r0 \<noteq> None \<Longrightarrow> kr_store r \<noteq> None"
proof (induction rule: key_life.induct)
  case (reloaded h r s r')
  then show ?case by (auto simp: registry_init_def registry_load_def result_iffs store_entered)
qed (auto simp: issue_def revoke_def enter_key_def Let_def split: if_splits option.splits)

lemma require_key:
  assumes "is_auth_enabled env" and "\<not> is_bearer authorization" and "s \<noteq> []"
  shows "require_role L env now (Some r) allowed (Some s) authorization =
    ensure (Http 403) (\<exists>k. lookup s r = Some k \<and> k_role k \<in> set allowed)"
  using assms by (simp add: require_role_def ensure_def split: option.split)

text \<open>The list of keys does not depend on the secrets.\<close>

lemma list_keys_redacted: "list_keys r = list_keys (r\<lparr>kr_keys := map (\<lambda>(i, k). (i, k\<lparr>k_key := f k\<rparr>)) (kr_keys r)\<rparr>)"
  by (simp add: list_keys_def case_prod_beta)

text \<open>The secret \<open>init_registry\<close> makes an admin key: the configured one, or else the random one.\<close>

definition admin_secret :: "auth_env \<Rightarrow> string \<Rightarrow> string" where
  "admin_secret env token = (if env_text (av_admin_key env) = [] then token else env_text (av_admin_key env))"

lemma or_else_Some: "or_else (Some x) y = (if x = [] then y else x)"
  by (simp add: or_else_def)

text \<open>Starting over a store: what is looked up afterwards.\<close>

lemma init_registry_lookup:
  assumes "registry_init K (Some st) = Inr r'" and "is_auth_enabled env"
  shows "\<exists>r''. init_registry K env token (Some st) = Inr r''
    \<and> (\<forall>s. lookup s r'' = (if s = admin_secret env token \<and> lookup s r' = None
          then Some \<lparr>k_key_id = ''admin-bootstrap'', k_key = admin_secret env token, k_role = ''admin'',
            k_description = ''bootstrap admin'', k_tenant_id = None\<rparr>
          else lookup s r'))"
proof (cases "admin_secret env token = []")
  case True
  then show ?thesis using assms
    by (auto simp: init_registry_def admin_secret_def or_else_Some issue_def all_roles_def enter_key_def lookup_def Let_def
        or_else_def split: if_splits)
next
  case False
  then show ?thesis using assms
    by (auto simp: init_registry_def admin_secret_def or_else_Some issue_def all_roles_def enter_key_def lookup_def Let_def
        split: if_splits)
qed

text \<open>C19. Access by API key is decided by the history of the registry: let keys be issued, under ids and
  secrets not in use, revoked, and the registry be reloaded from its database, in any order. With
  authentication enabled, a request with a key and no bearer token is let in exactly if that key was
  issued with an allowed role and not revoked since, and refused with 403 otherwise. After a restart over the same database, with whatever
  environment that enables authentication, start-up succeeds, and a request with a key is let in
  exactly if it would have been before, or if the key is the admin secret of the new process, no key
  with that secret was left and the admin role is allowed: revoking the bootstrap key lasts until the
  next start with the same admin secret.\<close>

theorem access_follows_history:
  assumes "key_life sqlite_keys empty_registry h r"
    and "is_auth_enabled env" and "\<not> is_bearer authorization" and "s \<noteq> []" and "is_auth_enabled env'"
  shows "require_role L env now (Some r) allowed (Some s) authorization =
      (if \<exists>k\<in>live h. k_key k = s \<and> k_role k \<in> set allowed then Inr () else Inl (Http 403))
    \<and> (\<exists>r'. init_registry sqlite_keys env' token (kr_store r) = Inr r'
        \<and> require_role L env' now' (Some r') allowed (Some s) authorization =
           (if (\<exists>k\<in>live h. k_key k = s \<and> k_role k \<in> set allowed)
              \<or> (s = (if env_text (av_admin_key env') = [] then token else env_text (av_admin_key env'))
                  \<and> (\<forall>k\<in>live h. k_key k \<noteq> s) \<and> ''admin'' \<in> set allowed)
            then Inr () else Inl (Http 403)))"
proof -
  have h: "sqlite_registry.registry_inv h r"
    by (rule sqlite_registry.life_inv [OF assms(1) sqlite_registry.empty_inv])
  then have ix: "indexes (live h) r" by (simp add: sqlite_registry.registry_inv_def)
  obtain st where st: "kr_store r = Some st" using life_store [OF assms(1)] by auto
  obtain r' where r': "registry_init sqlite_keys (Some st) = Inr r'" "indexes (live h) r'"
    using sqlite_registry.reload [OF h st] by (auto simp: sqlite_registry.registry_inv_def)
  from init_registry_lookup [OF r'(1) assms(5), of token] obtain r'' where
    r'': "init_registry sqlite_keys env' token (Some st) = Inr r''"
      "lookup s r'' = (if s = admin_secret env' token \<and> lookup s r' = None
        then Some \<lparr>k_key_id = ''admin-bootstrap'', k_key = admin_secret env' token, k_role = ''admin'',
            k_description = ''bootstrap admin'', k_tenant_id = None\<rparr> else lookup s r')" by blast
  have live: "(\<exists>k. lookup s r = Some k \<and> k_role k \<in> set allowed) \<longleftrightarrow> (\<exists>k\<in>live h. k_key k = s \<and> k_role k \<in> set allowed)"
    using indexes_lookup [OF ix] by blast
  have none: "lookup s r' = None \<longleftrightarrow> (\<forall>k\<in>live h. k_key k \<noteq> s)"
    using indexes_lookup [OF r'(2), of s] by (metis not_None_eq)
  have "(\<exists>k. lookup s r'' = Some k \<and> k_role k \<in> set allowed) \<longleftrightarrow>
      (\<exists>k\<in>live h. k_key k = s \<and> k_role k \<in> set allowed)
      \<or> (s = admin_secret env' token \<and> (\<forall>k\<in>live h. k_key k \<noteq> s) \<and> ''admin'' \<in> set allowed)"
    using none indexes_lookup [OF r'(2), of s] by (auto simp: r''(2) split: if_splits)
  then show ?thesis using r''(1) live unfolding st
    by (simp add: require_key [OF assms(2-4)] require_key [OF assms(5,3,4)] ensure_def admin_secret_def)
qed

definition example_key :: "string \<Rightarrow> string \<Rightarrow> string \<Rightarrow> api_key" where
  "example_key i s role = \<lparr>k_key_id = i, k_key = s, k_role = role, k_description = [], k_tenant_id = None\<rparr>"

definition example_auth_env :: "string \<Rightarrow> auth_env" where
  "example_auth_env admin = \<lparr>av_auth_enabled = Some '' yes '', av_admin_key = Some admin,
     av_jwt_secret = None, av_jwt_issuer = None, av_jwt_audience = None\<rparr>"

definition example_jwt_lib :: jwt_lib where
  "example_jwt_lib = \<lparr>jl_sha256 = (\<lambda>x. take 32 (x @ replicate 32 (CHR 0x00))), jl_loads = (\<lambda>_. None)\<rparr>"

lemma example_auth_enabled: "is_auth_enabled (example_auth_env a)"
  by (simp add: is_auth_enabled_def example_auth_env_def env_text_def strip_def py_space_def lower_def lower_char_def)

theorem access_follows_history_witness:
  "\<exists>h r. key_life sqlite_keys empty_registry h r
     \<and> require_role example_jwt_lib (example_auth_env []) 0 (Some r) [''admin''] (Some ''s1'') None = Inl (Http 403)
     \<and> require_role example_jwt_lib (example_auth_env []) 0 (Some r) [''auditor''] (Some ''s2'') None = Inr ()
     \<and> (\<exists>r'. init_registry sqlite_keys (example_auth_env []) ''s1'' (kr_store r) = Inr r'
          \<and> require_role example_jwt_lib (example_auth_env []) 9 (Some r') [''admin''] (Some ''s1'') None = Inr ())"
proof -
  let ?i = "\<lambda>i s role r. issue sqlite_keys i s role [] None None None r"
  obtain r1 where r1: "?i ''1'' ''s1'' ''admin'' empty_registry = Inr (example_key ''1'' ''s1'' ''admin'', r1)"
    "r1 = snd (projr (?i ''1'' ''s1'' ''admin'' empty_registry))"
    by (simp add: issue_def all_roles_def or_else_def example_key_def Let_def)
  obtain r2 where r2: "?i ''2'' ''s2'' ''auditor'' r1 = Inr (example_key ''2'' ''s2'' ''auditor'', r2)"
    by (simp add: issue_def all_roles_def or_else_def example_key_def Let_def)
  obtain b r3 where r3: "revoke sqlite_keys ''1'' r2 = (b, r3)" by fastforce
  let ?h = "[Revoked ''1'', Issued (example_key ''2'' ''s2'' ''auditor''), Issued (example_key ''1'' ''s1'' ''admin'')]"
  have "dget (kr_keys r1) ''2'' = None \<and> lookup ''s2'' r1 = None"
    by (simp add: r1(2) issue_def all_roles_def or_else_def lookup_def enter_key_def Let_def)
  then have l: "key_life sqlite_keys empty_registry ?h r3"
    by (intro key_life.revoked [OF _ r3] key_life.issued [OF _ r2] key_life.issued [OF key_life.start r1(1)])
      (simp_all add: example_key_def lookup_def)
  have lv: "live ?h = {example_key ''2'' ''s2'' ''auditor''}" by (auto simp: example_key_def)
  note access = access_follows_history [OF l example_auth_enabled _ _ example_auth_enabled, of None _ example_jwt_lib "[]" 0 _ "[]" "''s1''" 9,
      unfolded lv]
  have no_key: "env_text (av_admin_key (example_auth_env [])) = []" by (simp add: example_auth_env_def env_text_def strip_def)
  show ?thesis
    using l access [of "''s1''" "[''admin'']"] access [of "''s2''" "[''auditor'']"]
    by (intro exI [of _ ?h] exI [of _ r3]) (simp add: is_bearer_def example_key_def no_key)
qed

subsection \<open>Changing the admin key\<close>

text \<open>C38. Rotation of the bootstrap key does not take effect at once: a process started over the
  database of an earlier one, with another admin secret configured, still lets the old secret in
  as admin, even after the key \<open>admin-bootstrap\<close> has been revoked, which denies the new secret
  only. The old secret is refused from the next start on.\<close>

theorem admin_key_rotation:
  assumes "is_auth_enabled old" and "is_auth_enabled new"
    and "env_text (av_admin_key old) \<noteq> []" and "env_text (av_admin_key new) \<noteq> []"
    and "env_text (av_admin_key old) \<noteq> env_text (av_admin_key new)"
  shows "\<exists>r1 r2 r3. init_registry sqlite_keys old t (Some (key_init_db None)) = Inr r1
    \<and> init_registry sqlite_keys new t (kr_store r1) = Inr r2
    \<and> init_registry sqlite_keys new t (kr_store r2) = Inr r3
    \<and> (let ask = (\<lambda>r secret. require_admin L new now (Some r) (Some secret) None);
           revoked = snd (revoke sqlite_keys ''admin-bootstrap'' r2)
       in ask r2 (env_text (av_admin_key old)) = Inr () \<and> ask r2 (env_text (av_admin_key new)) = Inr ()
         \<and> ask revoked (env_text (av_admin_key old)) = Inr ()
         \<and> ask revoked (env_text (av_admin_key new)) = Inl (Http 403)
         \<and> ask r3 (env_text (av_admin_key old)) = Inl (Http 403)
         \<and> ask r3 (env_text (av_admin_key new)) = Inr ())"
proof -
  let ?o = "env_text (av_admin_key old)" and ?n = "env_text (av_admin_key new)"
  let ?k = "\<lambda>s. \<lparr>k_key_id = ''admin-bootstrap'', k_key = s, k_role = ''admin'',
    k_description = ''bootstrap admin'', k_tenant_id = None\<rparr>"
  let ?r = "\<lambda>st lk s. \<lparr>kr_store = Some [(''admin-bootstrap'', key_to_dict (?k st))],
    kr_keys = [(''admin-bootstrap'', ?k s)], kr_lookup = lk\<rparr>"
  note defs = init_registry_def registry_init_def registry_load_def issue_def enter_key_def or_else_def all_roles_def
    sqlite_keys_def save_key_def keys_load_all_def key_init_db_def lookup_def Let_def
  have 1: "init_registry sqlite_keys old t (Some (key_init_db None)) = Inr (?r ?o [(?o, ?k ?o)] ?o)"
    using assms(1,3) by (simp add: defs)
  have 2: "init_registry sqlite_keys new t (Some [(''admin-bootstrap'', key_to_dict (?k ?o))]) =
      Inr (?r ?n [(?o, ?k ?o), (?n, ?k ?n)] ?n)"
    using assms(2,4,5) by (simp add: defs)
  have 3: "init_registry sqlite_keys new t (Some [(''admin-bootstrap'', key_to_dict (?k ?n))]) =
      Inr (?r ?n [(?n, ?k ?n)] ?n)"
    using assms(2,4) by (simp add: defs)
  show ?thesis
    using assms(2-)
    by (intro exI [where x = "?r ?o [(?o, ?k ?o)] ?o"] exI [where x = "?r ?n [(?o, ?k ?o), (?n, ?k ?n)] ?n"]
        exI [where x = "?r ?n [(?n, ?k ?n)] ?n"])
      (simp add: 1 2 3 require_admin_def require_role_def is_bearer_def ensure_def lookup_def revoke_def Let_def)
qed

theorem admin_key_rotation_witness:
  "\<exists>r1 r2. init_registry sqlite_keys (example_auth_env ''a'') [] (Some (key_init_db None)) = Inr r1
     \<and> init_registry sqlite_keys (example_auth_env ''b'') [] (kr_store r1) = Inr r2
     \<and> require_admin example_jwt_lib (example_auth_env ''b'') 0 (Some r2) (Some ''a'') None = Inr ()"
proof -
  have t: "env_text (av_admin_key (example_auth_env [c])) = [c]" if "\<not> py_space c" for c
    using that by (simp add: example_auth_env_def env_text_def strip_def)
  have "\<not> py_space (CHR ''a'')" "\<not> py_space (CHR ''b'')" by (simp_all add: py_space_def)
  then show ?thesis
    using admin_key_rotation [OF example_auth_enabled [of "''a''"] example_auth_enabled [of "''b''"], of "[]" example_jwt_lib 0]
    by (simp add: t Let_def) blast
qed

end
