(* ===== verification/Api.thy ===== *)
theory Api
  imports Tenant Transaction Stream Auth
begin

section \<open>The server: start-up and transactions\<close>

text \<open>
  \<open>ecn/api.py\<close>: the globals of the server as one record, the start-up in \<open>lifespan\<close>, and the
  life of a transaction from \<open>POST /transactions\<close> to \<open>GET /transactions/{id}\<close>. The stores are
  the SQLite tables or absent, as \<open>open_from_env\<close> gives them; the audit log is the object the
  network records into and is read from it, and the health registry is the network's.

  A request is one step: between the return of \<open>broadcast\<close> and the end of the handler the code
  does not yield, so the event it fetches is the one its own round recorded; requests that
  overlap while they wait for the nodes are not interleaved here. A stage of the lifecycle is a
  transition and a save, and an error carries the state that it leaves. The webhooks of the
  server are posted after a submission, by \<open>dispatch\<close> of \<open>Webhooks\<close> on its event.
\<close>

record ('sk, 'pk) app =
  a_network :: "('sk, 'pk, audit_table) p2p option"
  a_tx_store :: "tx_record dict"
  a_tx_persistent_store :: "tx_table option"
  a_tracker :: "(usage_table, ledger_table) tracker option"
  a_event_bus :: "json event_bus option"
  a_webhooks :: webhook_registry
  a_keys :: "key_table key_registry option"
  a_tenants :: "('sk, 'pk, audit_table) tenant_registry"

definition node_configs :: "string list" where
  "node_configs = [''Warehouse'', ''Shipper'', ''Customs'', ''Insurer'', ''Retailer'']"

definition default_product_ids :: "string list" where
  "default_product_ids = [''LAPTOP-001'', ''PHONE-002'', ''TABLET-003'']"

subsection \<open>Start-up\<close>

text \<open>\<open>lifespan\<close>, up to the point where requests are served; the bus keeps 1000 events a topic.\<close>

definition startup ::
  "('sk, 'pk) crypto \<Rightarrow> auth_env \<Rightarrow> string \<Rightarrow> rat \<Rightarrow> 'sk list \<Rightarrow> stores option \<Rightarrow> load_error + ('sk, 'pk) app" where
  "startup C env token env_threshold private_keys stores =
     bindE (init_registry sqlite_keys env token (map_option st_keys stores)) (\<lambda>keys.
     bindE (audit_log_init sqlite_audit (map_option st_audit stores) []) (\<lambda>audit.
       Inr \<lparr>a_network = Some (p2p_create C (map (\<lambda>n. (n, None)) node_configs) private_keys
              (make_initial_state default_product_ids) (Some audit) env_threshold None None (Some [])),
            a_tx_store = [], a_tx_persistent_store = map_option st_tx stores,
            a_tracker = Some (tracker_init (map_option st_billing stores) (map_option st_ledger stores)),
            a_event_bus = Some (bus_init 1000), a_webhooks = [], a_keys = Some keys, a_tenants = []\<rparr>))"

subsection \<open>The transaction store\<close>

definition save_tx_record :: "tx_record \<Rightarrow> ('sk, 'pk) app \<Rightarrow> ('sk, 'pk) app" where
  "save_tx_record r a =
     a\<lparr>a_tx_store := dset (x_tx_id r) r (a_tx_store a),
       a_tx_persistent_store := map_option (to_save sqlite_tx (tx_to_dict r)) (a_tx_persistent_store a)\<rparr>"

text \<open>\<open>TxState(value)\<close>, which raises for any other text.\<close>

definition parse_state :: "string \<Rightarrow> tx_state option" where
  "parse_state v = find (\<lambda>s. state_value s = v)
     [INITIATED, EXECUTING, PROPOSED, CONSENSUS_PENDING, FINALIZED, BILLED, REPLICATED]"

definition load_tx_record :: "string \<Rightarrow> ('sk, 'pk) app \<Rightarrow> http_error + tx_record option \<times> ('sk, 'pk) app" where
  "load_tx_record tx_id a =
     (case dget (a_tx_store a) tx_id of
        Some r \<Rightarrow> Inr (Some r, a)
      | None \<Rightarrow>
          (case a_tx_persistent_store a of
             None \<Rightarrow> Inr (None, a)
           | Some s \<Rightarrow>
               (case to_load sqlite_tx tx_id s of
                  None \<Rightarrow> Inr (None, a)
                | Some d \<Rightarrow>
                    (case parse_state (tr_state d) of
                       None \<Rightarrow> Inl Crash
                     | Some state \<Rightarrow>
                         let r = \<lparr>x_tx_id = tr_tx_id d, x_tenant_id = tr_tenant_id d, x_state = state,
                                  x_node_count = tr_node_count d, x_consensus_reached = tr_consensus_reached d,
                                  x_fault_count = tr_fault_count d, x_duration_ms = tr_duration_ms d,
                                  x_billed_amount = tr_billed_amount d, x_created_at = tr_created_at d,
                                  x_finalized_at = tr_finalized_at d\<rparr>
                         in Inr (Some r, a\<lparr>a_tx_store := dset tx_id r (a_tx_store a)\<rparr>)))))"

subsection \<open>Submitting a transaction\<close>

record tx_response =
  rp_tx_id :: string
  rp_lifecycle_state :: string
  rp_round_id :: int
  rp_timestamp :: string
  rp_transaction :: json
  rp_consensus_reached :: bool
  rp_agreed_hash :: "string option"
  rp_honest_nodes :: "string list"
  rp_faulty_nodes :: "string list"
  rp_invalid_sig_nodes :: "string list"
  rp_votes :: "node_vote list"
  rp_billed_amount :: rat
  rp_duration_ms :: int

definition event_to_response :: "audit_event \<Rightarrow> tx_record option \<Rightarrow> tx_response" where
  "event_to_response e tx_rec =
     \<lparr>rp_tx_id = (case tx_rec of Some r \<Rightarrow> x_tx_id r | None \<Rightarrow> []),
      rp_lifecycle_state = state_value (case tx_rec of Some r \<Rightarrow> x_state r | None \<Rightarrow> REPLICATED),
      rp_round_id = ae_round_id e, rp_timestamp = ae_timestamp e, rp_transaction = ae_transaction e,
      rp_consensus_reached = ae_consensus_reached e, rp_agreed_hash = ae_agreed_hash e,
      rp_honest_nodes = ae_honest_nodes e, rp_faulty_nodes = ae_faulty_nodes e,
      rp_invalid_sig_nodes = ae_invalid_sig_nodes e, rp_votes = ae_votes e,
      rp_billed_amount = (case tx_rec of Some r \<Rightarrow> x_billed_amount r | None \<Rightarrow> 0),
      rp_duration_ms = (case tx_rec of Some r \<Rightarrow> x_duration_ms r | None \<Rightarrow> 0)\<rparr>"

text \<open>
  What the environment gives a submission: the fresh id, the clock when the record is made and
  (twice) when it is finalized, the conversion to milliseconds, the exchange with the nodes and
  the billing environment.
\<close>

record submission =
  sb_uuid :: string
  sb_created :: int
  sb_finalized :: int
  sb_measured :: int
  sb_millis :: "int \<Rightarrow> int"
  sb_exchange :: exchange
  sb_billing :: billing_env

definition advance :: "submission \<Rightarrow> http_error \<Rightarrow> tx_state \<Rightarrow> tx_record \<Rightarrow> ('sk, 'pk) app
     \<Rightarrow> (http_error \<times> ('sk, 'pk) app) + tx_record" where
  "advance sb err state r a =
     (case transition (sb_millis sb) (sb_finalized sb) (sb_measured sb) r state of
        Inl _ \<Rightarrow> Inl (err, a) | Inr r' \<Rightarrow> Inr r')"

definition stage :: "submission \<Rightarrow> http_error \<Rightarrow> tx_state \<Rightarrow> tx_record \<times> ('sk, 'pk) app
     \<Rightarrow> (http_error \<times> ('sk, 'pk) app) + tx_record \<times> ('sk, 'pk) app" where
  "stage sb err state = (\<lambda>(r, a). bindE (advance sb err state r a) (\<lambda>r'. Inr (r', save_tx_record r' a)))"

definition a_audit_log :: "('sk, 'pk) app \<Rightarrow> audit_table audit_log option" where
  "a_audit_log a = Option.bind (a_network a) p_audit_log"

definition publish_or_keep :: "string \<Rightarrow> json \<Rightarrow> json event_bus \<Rightarrow> json event_bus" where
  "publish_or_keep topic payload bus = (case publish topic payload bus of Inl _ \<Rightarrow> bus | Inr (_, bus') \<Rightarrow> bus')"

text \<open>Publishing to the two topics there are never raises (\<open>publish_total\<close>).\<close>

definition publish_event :: "audit_event \<Rightarrow> json event_bus \<Rightarrow> json event_bus" where
  "publish_event event bus =
     (let bus = publish_or_keep ''transactions'' (event_to_dict event) bus
      in if has_fault event then publish_or_keep ''faults'' (event_to_dict event) bus else bus)"

definition bill_record :: "submission \<Rightarrow> tx_record \<times> ('sk, 'pk) app \<Rightarrow> tx_record \<times> ('sk, 'pk) app" where
  "bill_record sb = (\<lambda>(r, a).
     case a_tracker a of
       None \<Rightarrow> (r, a)
     | Some tr \<Rightarrow>
         let (amount, tr') = record_round sqlite_billing sqlite_ledger (sb_billing sb) (x_tenant_id r) (x_tx_id r)
               (x_node_count r) (x_consensus_reached r) tr
         in (r\<lparr>x_billed_amount := amount\<rparr>, a\<lparr>a_tracker := Some tr'\<rparr>))"

text \<open>The part of the handler after the broadcast has returned results.\<close>

definition settle_transaction ::
  "submission \<Rightarrow> node_result list \<Rightarrow> consensus_result \<Rightarrow> tx_record \<times> ('sk, 'pk) app
     \<Rightarrow> (http_error \<times> ('sk, 'pk) app) + tx_response \<times> ('sk, 'pk) app" where
  "settle_transaction sb results cr = (\<lambda>(r, a).
     case Option.bind (a_audit_log a) (\<lambda>al. get_event (int (length (al_events al))) al) of
       None \<Rightarrow> Inl (Http 500, a)
     | Some event \<Rightarrow>
         let r = r\<lparr>x_consensus_reached := cr_consensus_reached cr, x_fault_count := int (length (cr_faulty_nodes cr)),
                   x_node_count := int (length results) + int (length (cr_faulty_nodes cr))\<rparr>
         in bindE (stage sb Crash FINALIZED (r, a)) (\<lambda>(r, a).
            bindE (advance sb Crash BILLED r a) (\<lambda>r.
            let (r, a) = bill_record sb (r, a);
                a = save_tx_record r a
            in bindE (stage sb Crash REPLICATED (r, a)) (\<lambda>(r, a).
                 Inr (event_to_response event (Some r),
                   a\<lparr>a_event_bus := map_option (publish_event event) (a_event_bus a)\<rparr>)))))"

definition submit_transaction ::
  "('sk, 'pk) crypto \<Rightarrow> sha256 \<Rightarrow> submission \<Rightarrow> tx \<Rightarrow> ('sk, 'pk) app
     \<Rightarrow> (http_error \<times> ('sk, 'pk) app) + tx_response \<times> ('sk, 'pk) app" where
  "submit_transaction C H sb tx a =
     (case a_network a of
        None \<Rightarrow> Inl (Http 503, a)
      | Some net \<Rightarrow>
          let r = new_record (sb_uuid sb) [] None (int (length (p_servers net))) (sb_created sb);
              a = save_tx_record r a
          in bindE (stage sb Crash EXECUTING (r, a)) (\<lambda>ra.
             bindE (stage sb (Http 422) PROPOSED ra) (\<lambda>ra.
             bindE (stage sb (Http 422) CONSENSUS_PENDING ra) (\<lambda>(r, a).
             let (outcome, net') = p2p_broadcast C H ecn_handlers sqlite_audit (x_now (sb_exchange sb))
                   (x_clock (sb_exchange sb)) (x_delivery (sb_exchange sb)) tx net;
                 a = a\<lparr>a_network := Some net'\<rparr>
             in case outcome of
                  Inl _ \<Rightarrow> Inl (Http 422, a)
                | Inr (results, cr) \<Rightarrow>
                    if results = [] then Inl (Http 422, a)
                    else settle_transaction sb results cr (r, a)))))"

text \<open>\<open>GET /transactions/{id}\<close>; the response is the record itself.\<close>

definition get_transaction_status :: "string \<Rightarrow> ('sk, 'pk) app \<Rightarrow> http_error + tx_record \<times> ('sk, 'pk) app" where
  "get_transaction_status tx_id a =
     bindE (load_tx_record tx_id a) (\<lambda>(r, a).
       case r of None \<Rightarrow> Inl (Http 404) | Some r \<Rightarrow> Inr (r, a))"

subsection \<open>What a submission leaves\<close>

text \<open>The record at its stages: before the broadcast, and from finalization on.\<close>

definition pending_record :: "submission \<Rightarrow> nat \<Rightarrow> tx_state \<Rightarrow> tx_record" where
  "pending_record sb n state = (new_record (sb_uuid sb) [] None (int n) (sb_created sb))\<lparr>x_state := state\<rparr>"

definition final_record ::
  "submission \<Rightarrow> node_result list \<Rightarrow> consensus_result \<Rightarrow> tx_state \<Rightarrow> rat \<Rightarrow> tx_record" where
  "final_record sb rs cr state amount =
     \<lparr>x_tx_id = sb_uuid sb, x_tenant_id = [], x_state = state,
      x_node_count = int (length rs) + int (length (cr_faulty_nodes cr)),
      x_consensus_reached = cr_consensus_reached cr, x_fault_count = int (length (cr_faulty_nodes cr)),
      x_duration_ms = max 0 (sb_millis sb (sb_measured sb - sb_created sb)), x_billed_amount = amount,
      x_created_at = sb_created sb, x_finalized_at = Some (sb_finalized sb)\<rparr>"

definition save_all :: "tx_record list \<Rightarrow> ('sk, 'pk) app \<Rightarrow> ('sk, 'pk) app" where
  "save_all rs a = foldl (\<lambda>a r. save_tx_record r a) a rs"

lemma save_all_simps [simp]: "save_all [] a = a" "save_all (r # rs) a = save_all rs (save_tx_record r a)"
  by (simp_all add: save_all_def)

lemma save_frame [simp]:
  "a_network (save_tx_record r a) = a_network a" "a_tracker (save_tx_record r a) = a_tracker a"
  "a_event_bus (save_tx_record r a) = a_event_bus a" "a_webhooks (save_tx_record r a) = a_webhooks a"
  "a_keys (save_tx_record r a) = a_keys a" "a_tenants (save_tx_record r a) = a_tenants a"
  by (simp_all add: save_tx_record_def)

lemma save_all_frame [simp]:
  "a_network (save_all rs a) = a_network a" "a_tracker (save_all rs a) = a_tracker a"
  "a_event_bus (save_all rs a) = a_event_bus a" "a_webhooks (save_all rs a) = a_webhooks a"
  "a_keys (save_all rs a) = a_keys a" "a_tenants (save_all rs a) = a_tenants a"
  by (induction rs arbitrary: a) simp_all

abbreviation sb_broadcast where
  "sb_broadcast C H sb tx net \<equiv> p2p_broadcast C H ecn_handlers sqlite_audit (x_now (sb_exchange sb))
     (x_clock (sb_exchange sb)) (x_delivery (sb_exchange sb)) tx net"

definition pending_trail :: "submission \<Rightarrow> nat \<Rightarrow> tx_record list" where
  "pending_trail sb n = map (pending_record sb n) [INITIATED, EXECUTING, PROPOSED, CONSENSUS_PENDING]"

lemma stage_pending:
  "rank_tx_state s' = Suc (rank_tx_state s) \<Longrightarrow> s' < FINALIZED \<Longrightarrow>
    stage sb err s' (pending_record sb n s, a) = Inr (pending_record sb n s', save_tx_record (pending_record sb n s') a)"
  by (auto simp: stage_def advance_def transition_def valid_transitions_rank pending_record_def tx_order)

lemma submit_pending:
  assumes "a_network a = Some net"
  shows "submit_transaction C H sb tx a =
    (let n = length (p_servers net); a = save_all (pending_trail sb n) a;
         (outcome, net') = sb_broadcast C H sb tx net; a = a\<lparr>a_network := Some net'\<rparr>
     in case outcome of
          Inl _ \<Rightarrow> Inl (Http 422, a)
        | Inr (results, cr) \<Rightarrow>
            if results = [] then Inl (Http 422, a)
            else settle_transaction sb results cr (pending_record sb n CONSENSUS_PENDING, a))"
proof -
  have "new_record (sb_uuid sb) [] None (int n) (sb_created sb) = pending_record sb n INITIATED" for n
    by (simp add: pending_record_def new_record_def)
  then show ?thesis
    using assms by (simp add: submit_transaction_def Let_def stage_pending tx_order pending_trail_def)
qed

text \<open>The round as it is billed.\<close>

definition billed_nodes :: "node_result list \<Rightarrow> consensus_result \<Rightarrow> int" where
  "billed_nodes rs cr = int (length rs) + int (length (cr_faulty_nodes cr))"

definition sb_amount :: "submission \<Rightarrow> node_result list \<Rightarrow> consensus_result \<Rightarrow> ('sk, 'pk) app \<Rightarrow> rat" where
  "sb_amount sb rs cr a = (if a_tracker a = None then 0 else billed (sb_billing sb) (billed_nodes rs cr))"

definition sb_billed :: "submission \<Rightarrow> node_result list \<Rightarrow> consensus_result \<Rightarrow> ('sk, 'pk) app \<Rightarrow> ('sk, 'pk) app" where
  "sb_billed sb rs cr a = a\<lparr>a_tracker := map_option (\<lambda>tr. snd (record_round sqlite_billing sqlite_ledger (sb_billing sb) []
     (sb_uuid sb) (billed_nodes rs cr) (cr_consensus_reached cr) tr)) (a_tracker a)\<rparr>"

definition settled_trail :: "submission \<Rightarrow> node_result list \<Rightarrow> consensus_result \<Rightarrow> rat \<Rightarrow> tx_record list" where
  "settled_trail sb rs cr amount = [final_record sb rs cr FINALIZED 0, final_record sb rs cr BILLED amount,
     final_record sb rs cr REPLICATED amount]"

lemma sb_billed_fields [simp]:
  "a_network (sb_billed sb rs cr a) = a_network a" "a_keys (sb_billed sb rs cr a) = a_keys a"
  "a_event_bus (sb_billed sb rs cr a) = a_event_bus a"
  "a_tracker (sb_billed sb rs cr a) = map_option (\<lambda>tr. snd (record_round sqlite_billing sqlite_ledger (sb_billing sb) []
     (sb_uuid sb) (billed_nodes rs cr) (cr_consensus_reached cr) tr)) (a_tracker a)"
  by (simp_all add: sb_billed_def)

lemma save_tracker: "(save_tx_record r a)\<lparr>a_tracker := t\<rparr> = save_tx_record r (a\<lparr>a_tracker := t\<rparr>)"
  by (simp add: save_tx_record_def)

lemma record_round_amount: "fst (record_round B L env t x n c tr) = billed env n"
  by (simp add: record_round_def Let_def)

lemma stage_final:
  "stage sb err FINALIZED ((pending_record sb n CONSENSUS_PENDING)\<lparr>x_consensus_reached := cr_consensus_reached cr,
      x_fault_count := int (length (cr_faulty_nodes cr)), x_node_count := billed_nodes rs cr\<rparr>, a)
    = Inr (final_record sb rs cr FINALIZED 0, save_tx_record (final_record sb rs cr FINALIZED 0) a)"
  "advance sb err BILLED (final_record sb rs cr FINALIZED 0) a = Inr (final_record sb rs cr BILLED 0)"
  "stage sb err REPLICATED (final_record sb rs cr BILLED amount, a)
    = Inr (final_record sb rs cr REPLICATED amount, save_tx_record (final_record sb rs cr REPLICATED amount) a)"
  by (simp_all add: stage_def advance_def transition_def final_record_def pending_record_def new_record_def billed_nodes_def)

lemma bill_final:
  "bill_record sb (final_record sb rs cr BILLED 0, a) = (final_record sb rs cr BILLED (sb_amount sb rs cr a), sb_billed sb rs cr a)"
proof (cases "a_tracker a")
  case None
  then show ?thesis by (cases a) (simp add: bill_record_def sb_amount_def sb_billed_def)
next
  case (Some tr)
  then show ?thesis
    using record_round_amount [of sqlite_billing sqlite_ledger "sb_billing sb" "[]" "sb_uuid sb" "billed_nodes rs cr" "cr_consensus_reached cr" tr]
    by (auto simp: bill_record_def sb_amount_def sb_billed_def final_record_def billed_nodes_def split: prod.split)
qed

lemma settle_done:
  assumes "a_audit_log a = Some al" and "get_event (int (length (al_events al))) al = Some event"
  shows "settle_transaction sb rs cr (pending_record sb n CONSENSUS_PENDING, a) =
    Inr (event_to_response event (Some (final_record sb rs cr REPLICATED (sb_amount sb rs cr a))),
      (save_all (settled_trail sb rs cr (sb_amount sb rs cr a)) (sb_billed sb rs cr a))
        \<lparr>a_event_bus := map_option (publish_event event) (a_event_bus a)\<rparr>)"
proof -
  have amount: "sb_amount sb rs cr (save_tx_record r a) = sb_amount sb rs cr a"
    and b: "sb_billed sb rs cr (save_tx_record r a) = save_tx_record r (sb_billed sb rs cr a)" for r
    by (simp_all add: sb_amount_def sb_billed_def save_tracker)
  show ?thesis
    using assms stage_final(1) [where err = Crash and n = n and cr = cr and rs = rs and a = a and sb = sb]
    by (simp add: settle_transaction_def Let_def billed_nodes_def [symmetric] stage_final(2,3) bill_final amount b settled_trail_def)
qed

text \<open>Both ends of a submission, in terms of what the broadcast returned.\<close>

lemma submit_refused:
  assumes "a_network a = Some net" and "sb_broadcast C H sb tx net = (out, net')"
    and "case out of Inl _ \<Rightarrow> True | Inr (rs, cr) \<Rightarrow> rs = []"
  shows "submit_transaction C H sb tx a =
    Inl (Http 422, (save_all (pending_trail sb (length (p_servers net))) a)\<lparr>a_network := Some net'\<rparr>)"
  using assms by (simp add: submit_pending Let_def split: sum.splits prod.splits)

lemma submit_settled:
  assumes "a_network a = Some net" and "sb_broadcast C H sb tx net = (Inr (rs, cr), net')" and "rs \<noteq> []"
    and "p_audit_log net = Some al"
  defines "event \<equiv> make_event (int (length (al_events al)) + 1) (x_now (sb_exchange sb)) (tx_json tx) rs cr"
  shows "submit_transaction C H sb tx a =
    Inr (event_to_response event (Some (final_record sb rs cr REPLICATED (sb_amount sb rs cr a))),
      (save_all (settled_trail sb rs cr (sb_amount sb rs cr a))
        (sb_billed sb rs cr ((save_all (pending_trail sb (length (p_servers net))) a)\<lparr>a_network := Some net'\<rparr>)))
        \<lparr>a_event_bus := map_option (publish_event event) (a_event_bus a)\<rparr>)"
proof -
  let ?a = "(save_all (pending_trail sb (length (p_servers net))) a)\<lparr>a_network := Some net'\<rparr>"
  have al: "p_audit_log net' = Some (snd (audit_record sqlite_audit (x_now (sb_exchange sb)) (tx_json tx) rs cr al))"
    using p2p_broadcast_trail(2) [OF assms(2)] assms(4) by simp
  have "get_event (int (length (al_events (snd (audit_record sqlite_audit now j rs cr al)))))
      (snd (audit_record sqlite_audit now j rs cr al)) = Some (make_event (int (length (al_events al)) + 1) now j rs cr)"
    for now j by (simp add: get_event_def audit_record_events nth_append)
  from settle_done [of ?a, OF _ this] al have "settle_transaction sb rs cr (pending_record sb (length (p_servers net)) CONSENSUS_PENDING, ?a)
    = Inr (event_to_response event (Some (final_record sb rs cr REPLICATED (sb_amount sb rs cr ?a))),
      (save_all (settled_trail sb rs cr (sb_amount sb rs cr ?a)) (sb_billed sb rs cr ?a))
        \<lparr>a_event_bus := map_option (publish_event event) (a_event_bus ?a)\<rparr>)"
    by (simp add: a_audit_log_def event_def)
  moreover have "sb_amount sb rs cr ?a = sb_amount sb rs cr a" by (simp add: sb_amount_def)
  ultimately show ?thesis
    using assms(1-3) by (simp add: submit_pending Let_def)
qed

subsection \<open>The status of a transaction, and after a restart\<close>

lemma save_all_stores:
  "a_tx_persistent_store (save_all rs a) =
     map_option (\<lambda>s. foldl (\<lambda>s r. to_save sqlite_tx (tx_to_dict r) s) s rs) (a_tx_persistent_store a)"
  "a_tx_store (save_all rs a) = foldl (\<lambda>d r. dset (x_tx_id r) r d) (a_tx_store a) rs"
  by (induction rs arbitrary: a) (simp_all add: save_tx_record_def option.map_comp comp_def option.map_ident)

text \<open>Saves of one record: same id, tenant and creation time.\<close>

definition same_record :: "string \<Rightarrow> string \<Rightarrow> int \<Rightarrow> tx_record \<Rightarrow> bool" where
  "same_record i tid c r \<longleftrightarrow> x_tx_id r = i \<and> x_tenant_id r = tid \<and> x_created_at r = c"

lemma load_last:
  assumes "rs \<noteq> []" and "\<forall>r\<in>set rs. same_record i tid c r" and "to_load sqlite_tx i s = None"
  shows "to_load sqlite_tx i (foldl (\<lambda>s r. to_save sqlite_tx (tx_to_dict r) s) s rs) = Some (tx_to_dict (last rs))"
  using assms(1,2)
proof (induction rs rule: rev_induct)
  case (snoc r rs)
  show ?case
  proof (cases "rs = []")
    case True
    then show ?thesis using snoc.prems assms(3)
      by (simp add: sqlite_tx.load_save same_record_def tx_to_dict_def)
  next
    case False
    then have "same_record i tid c (last rs)" using snoc.prems by simp
    then show ?thesis using False snoc
      by (simp add: sqlite_tx.load_save same_record_def tx_to_dict_def)
  qed
qed simp

lemma get_last: "rs \<noteq> [] \<Longrightarrow> \<forall>r\<in>set rs. same_record i tid c r \<Longrightarrow>
    dget (foldl (\<lambda>d r. dset (x_tx_id r) r d) d rs) i = Some (last rs)"
  by (induction rs rule: rev_induct) (simp_all add: same_record_def)

lemma parse_state_value [simp]: "parse_state (state_value s) = Some s"
  by (cases s) (simp_all add: parse_state_def)

lemma load_from_row:
  assumes "dget (a_tx_store a) i = None" and "a_tx_persistent_store a = Some s"
    and "to_load sqlite_tx i s = Some (tx_to_dict r)"
  shows "\<exists>a'. get_transaction_status i a = Inr (r, a')"
  using assms by (simp add: get_transaction_status_def load_tx_record_def) (simp add: tx_to_dict_def Let_def)

text \<open>What the server has saved last of a record is what it shows, and what it shows when it has been
  restarted over the same database.\<close>

lemma status_shown:
  assumes "rs \<noteq> []" and "\<forall>r\<in>set rs. same_record i tid c r"
  shows "get_transaction_status i (save_all rs a) = Inr (last rs, save_all rs a)"
  using get_last [OF assms] by (simp add: get_transaction_status_def load_tx_record_def save_all_stores)

lemma status_reloaded:
  assumes "rs \<noteq> []" and "\<forall>r\<in>set rs. same_record i tid c r"
    and "a_tx_persistent_store a = Some s" and "to_load sqlite_tx i s = None"
    and "a_tx_persistent_store b = a_tx_persistent_store (save_all rs a)" and "dget (a_tx_store b) i = None"
  shows "\<exists>b'. get_transaction_status i b = Inr (last rs, b')"
  using load_last [OF assms(1,2,4)] load_from_row [OF assms(6), of _ "last rs"] assms(3,5)
  by (simp add: save_all_stores)

lemma trails_same:
  "\<forall>r\<in>set (pending_trail sb n). same_record (sb_uuid sb) [] (sb_created sb) r"
  "\<forall>r\<in>set (settled_trail sb rs cr amount). same_record (sb_uuid sb) [] (sb_created sb) r"
  by (simp_all add: pending_trail_def pending_record_def new_record_def settled_trail_def final_record_def same_record_def)

lemma trails_last [simp]:
  "last (pending_trail sb n) = pending_record sb n CONSENSUS_PENDING" "pending_trail sb n \<noteq> []"
  "last (settled_trail sb rs cr amount) = final_record sb rs cr REPLICATED amount" "settled_trail sb rs cr amount \<noteq> []"
  by (simp_all add: pending_trail_def settled_trail_def)

text \<open>The state after a settled submission, as one trail of saves.\<close>

lemma save_all_append: "save_all (rs @ rs') a = save_all rs' (save_all rs a)"
  by (simp add: save_all_def)

lemma settled_stores:
  "a_tx_store (save_all (settled_trail sb rs cr amount) (sb_billed sb rs cr ((save_all (pending_trail sb n) a)\<lparr>a_network := net\<rparr>)))
     = a_tx_store (save_all (pending_trail sb n @ settled_trail sb rs cr amount) a)"
  "a_tx_persistent_store (save_all (settled_trail sb rs cr amount) (sb_billed sb rs cr ((save_all (pending_trail sb n) a)\<lparr>a_network := net\<rparr>)))
     = a_tx_persistent_store (save_all (pending_trail sb n @ settled_trail sb rs cr amount) a)"
  by (simp_all add: save_all_append save_all_stores sb_billed_def)

lemma status_store_only:
  "a_tx_store b = a_tx_store a \<Longrightarrow> get_transaction_status i a = Inr (r, a) \<Longrightarrow> dget (a_tx_store a) i = Some r \<Longrightarrow>
    get_transaction_status i b = Inr (r, b)"
  by (simp add: get_transaction_status_def load_tx_record_def)

lemma publish_event_refines:
  assumes "bus_refines logs bus"
  shows "bus_refines (\<lambda>t. logs t @ (if t = ''transactions'' \<or> t = ''faults'' \<and> has_fault event then [event_to_dict event] else []))
      (publish_event event bus)"
proof -
  have step: "bus_refines (lg(t := lg t @ [x])) (publish_or_keep t x b)" if "bus_refines lg b" "t \<in> set all_topics" for lg t b and x :: json
  proof (cases "publish t x b")
    case (Inl e)
    then show ?thesis using publish_total [OF that] by blast
  next
    case (Inr r)
    then obtain sq b' where "publish t x b = Inr (sq, b')" by (cases r) auto
    with publish_refines [OF that(1) this] show ?thesis by (simp add: publish_or_keep_def)
  qed
  have t: "''transactions'' \<in> set all_topics" "''faults'' \<in> set all_topics" by (simp_all add: all_topics_def)
  let ?d = "event_to_dict event"
  note one = step [OF assms t(1), of ?d]
  show ?thesis
  proof (cases "has_fault event")
    case True
    have "(\<lambda>t. logs t @ (if t = ''transactions'' \<or> t = ''faults'' \<and> has_fault event then [?d] else []))
        = (logs(''transactions'' := logs ''transactions'' @ [?d]))(''faults'' := (logs(''transactions'' := logs ''transactions'' @ [?d])) ''faults'' @ [?d])"
      using True by (auto simp: fun_eq_iff)
    with step [OF one t(2), of ?d] True show ?thesis by (simp only: publish_event_def Let_def if_True)
  next
    case False
    then have "(\<lambda>t. logs t @ (if t = ''transactions'' \<or> t = ''faults'' \<and> has_fault event then [?d] else []))
        = logs(''transactions'' := logs ''transactions'' @ [?d])" by (auto simp: fun_eq_iff)
    with one False show ?thesis by (simp add: publish_event_def Let_def)
  qed
qed

text \<open>C2. A settled transaction: when the broadcast returns results, the server answers with the event
  of the round and the state \<open>REPLICATED\<close>, whether or not consensus was reached; the status route
  then shows the finalized record, and shows the same one after the process has been restarted
  over its database; the global ledger has one new entry, for this id, the verdict of the round
  and a node for each result and once more for each faulty node, and the amount in the record is
  the amount billed; and the event is published to the transactions topic and, exactly if it has
  a faulty node, to the faults topic.\<close>

theorem submit_settles:
  assumes "a_network a = Some net" and "sb_broadcast C H sb tx net = (Inr (rs, cr), net')" and "rs \<noteq> []"
    and "p_audit_log net = Some al" and "a_tracker a = Some tr" and "pred_option ledger_table_inv (bt_ledger tr)"
    and "a_tx_persistent_store a = Some s" and "to_load sqlite_tx (sb_uuid sb) s = None"
    and "a_event_bus a = Some bus" and "bus_refines logs bus"
  shows "\<exists>resp a' r tr' bus' event. submit_transaction C H sb tx a = Inr (resp, a')
    \<and> resp = event_to_response event (Some r) \<and> x_state r = REPLICATED
    \<and> event = make_event (int (length (al_events al)) + 1) (x_now (sb_exchange sb)) (tx_json tx) rs cr
    \<and> get_transaction_status (sb_uuid sb) a' = Inr (r, a')
    \<and> (\<exists>b. get_transaction_status (sb_uuid sb) (a'\<lparr>a_tx_store := []\<rparr>) = Inr (r, b))
    \<and> a_tracker a' = Some tr' \<and> map le_entry (get_billing_ledger sqlite_ledger [] tr') =
        map le_entry (get_billing_ledger sqlite_ledger [] tr) @
        [rd_entry (sb_billing sb, [], sb_uuid sb, int (length rs) + int (length (cr_faulty_nodes cr)), cr_consensus_reached cr)]
    \<and> x_billed_amount r = billed (sb_billing sb) (int (length rs) + int (length (cr_faulty_nodes cr)))
    \<and> a_event_bus a' = Some bus' \<and> bus_refines (\<lambda>t. logs t @
        (if t = ''transactions'' \<or> t = ''faults'' \<and> cr_faulty_nodes cr \<noteq> [] then [event_to_dict event] else [])) bus'"
proof -
  let ?n = "length (p_servers net)" and ?amount = "sb_amount sb rs cr a"
  let ?event = "make_event (int (length (al_events al)) + 1) (x_now (sb_exchange sb)) (tx_json tx) rs cr"
  let ?trail = "pending_trail sb ?n @ settled_trail sb rs cr ?amount"
  let ?r = "final_record sb rs cr REPLICATED ?amount"
  let ?a = "(save_all (settled_trail sb rs cr ?amount)
        (sb_billed sb rs cr ((save_all (pending_trail sb ?n) a)\<lparr>a_network := Some net'\<rparr>)))
        \<lparr>a_event_bus := Some (publish_event ?event bus)\<rparr>"
  note run = submit_settled [OF assms(1-4), simplified assms(9) option.map]
  have same: "?trail \<noteq> []" "\<forall>r\<in>set ?trail. same_record (sb_uuid sb) [] (sb_created sb) r" "last ?trail = ?r"
    using trails_same [of sb] by auto
  note shown = status_shown [OF same(1,2), of a, unfolded same(3)]
  have live: "get_transaction_status (sb_uuid sb) ?a = Inr (?r, ?a)"
  proof (rule status_store_only [OF _ shown])
    show "dget (a_tx_store (save_all ?trail a)) (sb_uuid sb) = Some ?r"
      by (simp only: save_all_stores(2) get_last [OF same(1,2)] same(3))
  qed (simp add: settled_stores)
  have again: "\<exists>b. get_transaction_status (sb_uuid sb) (?a\<lparr>a_tx_store := []\<rparr>) = Inr (?r, b)"
    using status_reloaded [OF same(1,2) assms(7,8), of "?a\<lparr>a_tx_store := []\<rparr>"] same(3)
    by (simp add: settled_stores)
  let ?tr = "snd (record_round sqlite_billing sqlite_ledger (sb_billing sb) [] (sb_uuid sb) (billed_nodes rs cr) (cr_consensus_reached cr) tr)"
  have "a_tracker ?a = Some ?tr" using assms(5) by (simp add: sb_billed_def)
  moreover have "map le_entry (get_billing_ledger sqlite_ledger [] ?tr) =
        map le_entry (get_billing_ledger sqlite_ledger [] tr) @
        [rd_entry (sb_billing sb, [], sb_uuid sb, billed_nodes rs cr, cr_consensus_reached cr)]"
    using sqlite_books.ledger_round(1) [OF assms(6), of "[]" "sb_billing sb" "[]"] by simp
  moreover have "has_fault ?event \<longleftrightarrow> cr_faulty_nodes cr \<noteq> []" by (simp add: has_fault_def make_event_def)
  ultimately show ?thesis
    using run live again assms(5) publish_event_refines [OF assms(10), of ?event]
    by (intro exI [of _ "event_to_response ?event (Some ?r)"] exI [of _ ?a] exI [of _ ?r] exI [of _ ?tr]
        exI [of _ "publish_event ?event bus"] exI [of _ ?event])
      (simp add: billed_nodes_def final_record_def sb_amount_def)
qed

text \<open>C34. A transaction the network does not answer: when the broadcast fails, the client is told 422
  without an id, and the server keeps a record that never moves on from \<open>CONSENSUS_PENDING\<close>, in
  memory and in its database, while nothing is billed, published or added to the audit trail.\<close>

theorem submit_refusal_leaves_pending:
  assumes "a_network a = Some net" and "sb_broadcast C H sb tx net = (Inl e, net')"
    and "a_tx_persistent_store a = Some s" and "to_load sqlite_tx (sb_uuid sb) s = None"
  shows "\<exists>a' r. submit_transaction C H sb tx a = Inl (Http 422, a')
    \<and> get_transaction_status (sb_uuid sb) a' = Inr (r, a')
    \<and> (\<exists>b. get_transaction_status (sb_uuid sb) (a'\<lparr>a_tx_store := []\<rparr>) = Inr (r, b))
    \<and> x_state r = CONSENSUS_PENDING \<and> x_finalized_at r = None \<and> x_billed_amount r = 0
    \<and> a_tracker a' = a_tracker a \<and> a_event_bus a' = a_event_bus a \<and> a_audit_log a' = a_audit_log a"
proof -
  let ?t = "pending_trail sb (length (p_servers net))"
  let ?a = "(save_all ?t a)\<lparr>a_network := Some net'\<rparr>"
  note same = trails_last(2) trails_same(1) [of sb "length (p_servers net)"]
  have live: "get_transaction_status (sb_uuid sb) ?a = Inr (last ?t, ?a)"
    by (rule status_store_only [OF _ status_shown [OF same]])
      (simp_all add: save_all_stores(2) get_last [OF same])
  have again: "\<exists>b. get_transaction_status (sb_uuid sb) (?a\<lparr>a_tx_store := []\<rparr>) = Inr (last ?t, b)"
    using status_reloaded [OF same assms(3,4), of "?a\<lparr>a_tx_store := []\<rparr>"] by simp
  have "a_audit_log ?a = a_audit_log a"
    using p2p_broadcast_no_trail(2) [OF assms(2)] assms(1) by (simp add: a_audit_log_def)
  then show ?thesis
    using live again submit_refused [OF assms(1,2)]
    by (intro exI [of _ ?a] exI [of _ "last ?t"]) (simp add: pending_record_def new_record_def)
qed

subsection \<open>From the request to the decision and the bill\<close>

text \<open>C3. End to end: when the nodes that answer hold one state on which the transaction succeeds, and
  more of them are honest than malicious, the response carries the hash of the state it leads
  to, names the honest nodes as honest and exactly the malicious ones as faulty, and reports
  consensus when the honest share meets the threshold. But the bill counts every malicious node
  twice: it is for the honest nodes and two times the malicious ones, although only as many
  nodes as both together took part.\<close>

theorem submit_decides_and_bills:
  assumes "hex_digest H" and "signs_correctly C" and "a_network a = Some net" and "p2p_inv C net" and "wf_world v"
    and "\<forall>nd\<in>set (responders (x_delivery (sb_exchange sb)) net). in_cohort m v nd"
    and "execute ecn_handlers v tx = Inr w"
    and "malicious_count (responders (x_delivery (sb_exchange sb)) net)
      < honest_count (responders (x_delivery (sb_exchange sb)) net)"
    and "p_min_responses net \<le> int (length (responders (x_delivery (sb_exchange sb)) net))"
    and "p_audit_log net = Some al" and "a_tracker a = Some tr"
  shows "let nds = responders (x_delivery (sb_exchange sb)) net in
    \<exists>resp a'. submit_transaction C H sb tx a = Inr (resp, a')
    \<and> rp_agreed_hash resp = Some (state_hash H m w) \<and> rp_lifecycle_state resp = ''REPLICATED''
    \<and> rp_round_id resp = int (length (al_events al)) + 1
    \<and> rp_honest_nodes resp = map n_node_id (filter (\<lambda>nd. \<not> n_malicious nd) nds)
    \<and> rp_faulty_nodes resp = map n_node_id (filter n_malicious nds)
    \<and> (rp_consensus_reached resp \<longleftrightarrow> p_quorum_threshold net * rat_of_nat (length nds) \<le> rat_of_nat (honest_count nds))
    \<and> rp_billed_amount resp = billed (sb_billing sb) (int (honest_count nds) + 2 * int (malicious_count nds))
    \<and> length nds = honest_count nds + malicious_count nds"
proof -
  let ?nds = "responders (x_delivery (sb_exchange sb)) net"
  obtain rs cr where d: "fst (sb_broadcast C H sb tx net) = Inr (rs, cr)" "length rs = length ?nds"
    "cr_agreed_hash cr = Some (state_hash H m w)"
    "cr_honest_nodes cr = map n_node_id (filter (\<lambda>nd. \<not> n_malicious nd) ?nds)"
    "cr_faulty_nodes cr = map n_node_id (filter n_malicious ?nds)"
    "cr_consensus_reached cr \<longleftrightarrow> p_quorum_threshold net * rat_of_nat (length ?nds) \<le> rat_of_nat (honest_count ?nds)"
    using p2p_decides [OF assms(1,2,4-9), of sqlite_audit "x_now (sb_exchange sb)" "x_clock (sb_exchange sb)"] by blast
  obtain net' where b: "sb_broadcast C H sb tx net = (Inr (rs, cr), net')"
    using d(1) by (cases "sb_broadcast C H sb tx net") auto
  have "rs \<noteq> []" using d(2) assms(8) honest_malicious [of ?nds] by auto
  note run = submit_settled [OF assms(3) b this assms(10)]
  have "length (cr_faulty_nodes cr) = malicious_count ?nds" by (simp add: d(5) malicious_count_def)
  then have "billed_nodes rs cr = int (honest_count ?nds) + 2 * int (malicious_count ?nds)"
    using d(2) honest_malicious [of ?nds] by (simp add: billed_nodes_def)
  with run d(3-6) assms(11) honest_malicious [of ?nds] show ?thesis
    by (simp add: Let_def event_to_response_def make_event_def final_record_def sb_amount_def)
qed

subsection \<open>Restarting the server\<close>

text \<open>What the process has in its database.\<close>

definition stores_of :: "('sk, 'pk) app \<Rightarrow> stores option" where
  "stores_of a =
     (case (Option.bind (a_audit_log a) al_store, Option.bind (a_keys a) kr_store,
            Option.bind (a_tracker a) bt_store, a_tx_persistent_store a, Option.bind (a_tracker a) bt_ledger) of
        (Some au, Some k, Some b, Some x, Some l) \<Rightarrow>
          Some \<lparr>st_audit = au, st_keys = k, st_billing = b, st_tx = x, st_ledger = l\<rparr>
      | _ \<Rightarrow> None)"

fun app_after :: "(http_error \<times> ('sk, 'pk) app) + tx_response \<times> ('sk, 'pk) app \<Rightarrow> ('sk, 'pk) app" where
  "app_after (Inl (_, a)) = a"
| "app_after (Inr (_, a)) = a"

text \<open>The requests of clients, one after the other.\<close>

definition serve :: "('sk, 'pk) crypto \<Rightarrow> sha256 \<Rightarrow> (submission \<times> tx) list \<Rightarrow> ('sk, 'pk) app \<Rightarrow> ('sk, 'pk) app" where
  "serve C H rqs a = foldl (\<lambda>a (sb, tx). app_after (submit_transaction C H sb tx a)) a rqs"

text \<open>Memory and database agree, on every record and every round.\<close>

fun tx_agree :: "('sk, 'pk) app \<Rightarrow> tx_table option \<Rightarrow> bool" where
  "tx_agree a None = False"
| "tx_agree a (Some s) = (\<forall>i. to_load sqlite_tx i s = map_option tx_to_dict (dget (a_tx_store a) i))"

fun audit_agree :: "audit_table audit_log option \<Rightarrow> bool" where
  "audit_agree None = False"
| "audit_agree (Some al) = (audit_inv sqlite_audit audit_table_inv al \<and> al_store al \<noteq> None \<and> al_tenant_id al = [])"

fun books_durable :: "(usage_table, ledger_table) tracker option \<Rightarrow> bool" where
  "books_durable None = False"
| "books_durable (Some tr) = (bt_store tr \<noteq> None \<and> bt_ledger tr \<noteq> None)"

definition keys_durable :: "key_table key_registry option \<Rightarrow> bool" where
  "keys_durable k \<longleftrightarrow> (\<exists>r h. k = Some r \<and> sqlite_registry.registry_inv h r \<and> kr_store r \<noteq> None)"

definition app_inv :: "('sk, 'pk) app \<Rightarrow> bool" where
  "app_inv a \<longleftrightarrow> a_network a \<noteq> None \<and> tx_agree a (a_tx_persistent_store a) \<and> audit_agree (a_audit_log a)
     \<and> books_durable (a_tracker a) \<and> keys_durable (a_keys a)"

lemma tx_agree_save:
  assumes "tx_agree a (a_tx_persistent_store a)"
    and "dget (a_tx_store a) (x_tx_id r) = None \<or> (\<exists>old. dget (a_tx_store a) (x_tx_id r) = Some old
      \<and> x_tenant_id old = x_tenant_id r \<and> x_created_at old = x_created_at r)"
  shows "tx_agree (save_tx_record r a) (a_tx_persistent_store (save_tx_record r a))"
  using assms
  by (cases "a_tx_persistent_store a")
    (auto simp: save_tx_record_def sqlite_tx.load_save tx_to_dict_def)

lemma tx_agree_saves:
  "tx_agree a (a_tx_persistent_store a) \<Longrightarrow> \<forall>r\<in>set rs. same_record i tid c r \<Longrightarrow>
    dget (a_tx_store a) i = None \<or> (\<exists>old. dget (a_tx_store a) i = Some old \<and> same_record i tid c old) \<Longrightarrow>
    tx_agree (save_all rs a) (a_tx_persistent_store (save_all rs a))"
proof (induction rs arbitrary: a)
  case (Cons r rs)
  have "tx_agree (save_tx_record r a) (a_tx_persistent_store (save_tx_record r a))"
    using Cons.prems by (intro tx_agree_save) (auto simp: same_record_def)
  moreover have "dget (a_tx_store (save_tx_record r a)) i = Some r"
    using Cons.prems(2) by (simp add: save_tx_record_def same_record_def)
  ultimately show ?case using Cons.IH [of "save_tx_record r a"] Cons.prems(2) by simp
qed simp

lemma tx_agree_cong:
  "a_tx_store b = a_tx_store a \<Longrightarrow> tx_agree a s \<Longrightarrow> tx_agree b s"
  by (cases s) simp_all

lemma books_durable_round:
  "books_durable tr \<Longrightarrow> books_durable (map_option (\<lambda>tr. snd (record_round sqlite_billing sqlite_ledger env t x n c tr)) tr)"
  by (cases tr) (auto simp: record_round_def Let_def split: option.splits)

lemma audit_agree_round:
  "audit_agree (Some al) \<Longrightarrow> audit_agree (Some (snd (audit_record sqlite_audit now j rs cr al)))"
  using sqlite_audit.audit_inv_record [of al now j rs cr] by (simp add: audit_record_events)

text \<open>One request keeps it, and touches the record of its own id only.\<close>

lemma app_inv_submit:
  assumes "app_inv a" and "dget (a_tx_store a) (sb_uuid sb) = None"
  shows "app_inv (app_after (submit_transaction C H sb tx a))
    \<and> (\<forall>i. i \<noteq> sb_uuid sb \<longrightarrow> dget (a_tx_store (app_after (submit_transaction C H sb tx a))) i = dget (a_tx_store a) i)"
proof -
  obtain net al where net: "a_network a = Some net" "p_audit_log net = Some al" "audit_agree (Some al)"
    using assms(1) by (cases "a_network a"; cases "a_audit_log a") (auto simp: app_inv_def a_audit_log_def)
  obtain out net' where b: "sb_broadcast C H sb tx net = (out, net')" by fastforce
  let ?n = "length (p_servers net)"
  have other: "dget (a_tx_store (save_all rs a)) i = dget (a_tx_store a) i"
    if "\<forall>r\<in>set rs. same_record (sb_uuid sb) [] (sb_created sb) r" "i \<noteq> sb_uuid sb" for rs i
    using that(1) by (induction rs arbitrary: a) (auto simp: save_tx_record_def same_record_def that(2))
  have ok: "tx_agree (save_all rs a) (a_tx_persistent_store (save_all rs a))"
    if "\<forall>r\<in>set rs. same_record (sb_uuid sb) [] (sb_created sb) r" for rs
    using assms by (intro tx_agree_saves [OF _ that]) (auto simp: app_inv_def)
  show ?thesis
  proof (cases "\<exists>rs cr. out = Inr (rs, cr) \<and> rs \<noteq> []")
    case True
    then obtain rs cr where r: "out = Inr (rs, cr)" "rs \<noteq> []" by blast
    let ?t = "pending_trail sb ?n @ settled_trail sb rs cr (sb_amount sb rs cr a)"
    have t: "\<forall>r\<in>set ?t. same_record (sb_uuid sb) [] (sb_created sb) r" using trails_same [of sb] by auto
    have "p_audit_log net' = Some (snd (audit_record sqlite_audit (x_now (sb_exchange sb)) (tx_json tx) rs cr al))"
      using p2p_broadcast_trail(2) b r(1) net(2) by fastforce
    with audit_agree_round [OF net(3)] show ?thesis
      using assms(1) submit_settled [OF net(1) b [unfolded r(1)] r(2) net(2)] ok [OF t] other [OF t]
        books_durable_round [of "a_tracker a"]
      by (auto simp: app_inv_def settled_stores a_audit_log_def simp del: tx_agree.simps audit_agree.simps
          intro: tx_agree_cong [of _ "save_all ?t a"])
  next
    case False
    note t = trails_same(1) [of sb ?n]
    from False have s: "submit_transaction C H sb tx a = Inl (Http 422, (save_all (pending_trail sb ?n) a)\<lparr>a_network := Some net'\<rparr>)"
      by (intro submit_refused [OF net(1) b]) (auto split: sum.split)
    have "audit_agree (p_audit_log net')"
    proof (cases out)
      case (Inl e)
      then show ?thesis using p2p_broadcast_no_trail(2) b net by fastforce
    next
      case (Inr rcr)
      then obtain rs cr where "out = Inr (rs, cr)" by (cases rcr) auto
      then have "p_audit_log net' = Some (snd (audit_record sqlite_audit (x_now (sb_exchange sb)) (tx_json tx) rs cr al))"
        using p2p_broadcast_trail(2) b net(2) by fastforce
      then show ?thesis using audit_agree_round [OF net(3)] by simp
    qed
    then show ?thesis
      using assms(1) s ok [OF t] other [OF t]
      by (auto simp: app_inv_def a_audit_log_def simp del: tx_agree.simps audit_agree.simps
          intro: tx_agree_cong [of _ "save_all (pending_trail sb ?n) a"])
  qed
qed

lemma serve_inv:
  assumes "app_inv a" and "distinct (map (\<lambda>rq. sb_uuid (fst rq)) rqs)"
    and "\<forall>rq\<in>set rqs. dget (a_tx_store a) (sb_uuid (fst rq)) = None"
  shows "app_inv (serve C H rqs a)"
  using assms
proof (induction rqs arbitrary: a)
  case (Cons rq rqs)
  obtain sb tx where rq: "rq = (sb, tx)" by (cases rq)
  let ?a = "app_after (submit_transaction C H sb tx a)"
  have step: "app_inv ?a \<and> (\<forall>i. i \<noteq> sb_uuid sb \<longrightarrow> dget (a_tx_store ?a) i = dget (a_tx_store a) i)"
    using Cons.prems by (intro app_inv_submit) (simp_all add: rq)
  have "dget (a_tx_store ?a) (sb_uuid (fst q)) = None" if "q \<in> set rqs" for q
  proof -
    have "sb_uuid (fst q) \<noteq> sb_uuid sb" using Cons.prems(2) that by (force simp: rq)
    then show ?thesis using step Cons.prems(3) that by simp
  qed
  then show ?case using Cons.IH [of ?a] Cons.prems(2) step by (simp add: serve_def rq)
qed (simp add: serve_def)

text \<open>The key registry of a process that starts on an empty store, and of one that starts on what an
  earlier one left.\<close>

lemma init_registry_started:
  assumes "sqlite_registry.registry_inv h r" and "kr_store r = Some s"
  shows "\<exists>r'. init_registry sqlite_keys env token (Some s) = Inr r'"
proof -
  obtain r' where "registry_init sqlite_keys (Some s) = Inr r'" using sqlite_registry.reload [OF assms] by blast
  then show ?thesis by (auto simp: init_registry_def Let_def issue_def all_roles_def split: sum.split)
qed

lemma init_registry_empty:
  "\<exists>r. init_registry sqlite_keys env token (Some (key_init_db None)) = Inr r \<and> keys_durable (Some r)"
proof -
  have r0: "registry_init sqlite_keys (Some (key_init_db None)) = Inr empty_registry"
    by (simp add: registry_init_def registry_load_def sqlite_keys.load_empty)
  note inv0 = sqlite_registry.empty_inv
  show ?thesis
  proof (cases "is_auth_enabled env")
    case True
    let ?s = "or_else (Some (env_text (av_admin_key env))) token"
    obtain k r where i: "issue sqlite_keys [] [] ''admin'' ''bootstrap admin'' None (Some ''admin-bootstrap'') (Some ?s) empty_registry
        = Inr (k, r)"
      by (simp add: issue_def all_roles_def Let_def)
    have "sqlite_registry.registry_inv [Issued k] r"
      by (rule sqlite_registry.issue_inv [OF inv0 i]) (simp_all add: lookup_def)
    moreover have "kr_store r \<noteq> None" using i by (auto simp: issue_def all_roles_def Let_def enter_key_def)
    moreover have "init_registry sqlite_keys env token (Some (key_init_db None)) = Inr r"
      using True i by (simp add: init_registry_def r0 Let_def lookup_def)
    ultimately show ?thesis by (auto simp: keys_durable_def)
  next
    case False
    with inv0 show ?thesis by (auto simp: init_registry_def r0 keys_durable_def)
  qed
qed

text \<open>What a started process has, given that its keys and its audit log can be loaded.\<close>

lemma startup_Inr:
  assumes "init_registry sqlite_keys env token (Some (st_keys st)) = Inr keys"
    and "audit_log_init sqlite_audit (Some (st_audit st)) [] = Inr audit"
  shows "\<exists>a net. startup C env token q sks (Some st) = Inr a \<and> a_network a = Some net \<and> p_audit_log net = Some audit
    \<and> p2p_cohort False (make_initial_state default_product_ids) net
    \<and> a_tx_store a = [] \<and> a_tx_persistent_store a = Some (st_tx st) \<and> a_keys a = Some keys
    \<and> a_tracker a = Some (tracker_init (Some (st_billing st)) (Some (st_ledger st)))"
proof -
  let ?w = "make_initial_state default_product_ids"
  let ?net = "p2p_create C (map (\<lambda>n. (n, None)) node_configs) sks ?w (Some audit) q None None (Some [])"
  have "in_cohort False ?w (sv_node s)" if "s \<in> set (p_servers ?net)" for s
    using that in_cohort_init [OF wf_world_initial]
    by (auto simp: p2p_create_def p2p_init_def server_init_def)
  then have "p2p_cohort False ?w ?net" by (simp add: p2p_cohort_def)
  moreover have "p_audit_log ?net = Some audit" by (simp add: p2p_create_def p2p_init_def)
  ultimately show ?thesis using assms by (simp add: startup_def)
qed

lemma startup_empty:
  "\<exists>a. startup C env token q sks (Some (open_stores empty_database)) = Inr a \<and> app_inv a \<and> a_tx_store a = []"
proof -
  let ?st = "open_stores empty_database"
  have st: "st_keys ?st = key_init_db None" "st_audit ?st = audit_init_db None" "st_tx ?st = tx_init_db None"
    by (simp_all add: open_stores_def empty_database_def)
  obtain r where r: "init_registry sqlite_keys env token (Some (st_keys ?st)) = Inr r" "keys_durable (Some r)"
    using init_registry_empty by (auto simp: st)
  let ?al = "\<lparr>al_store = Some (audit_init_db None), al_tenant_id = [], al_events = []\<rparr>"
  have al: "audit_log_init sqlite_audit (Some (st_audit ?st)) [] = Inr ?al"
    by (simp add: st audit_log_init_def sqlite_audit.load_empty)
  from startup_Inr [OF r(1) al, of C q sks] obtain a net where a: "startup C env token q sks (Some ?st) = Inr a"
    "a_network a = Some net" "p_audit_log net = Some ?al" "a_tx_store a = []" "a_tx_persistent_store a = Some (st_tx ?st)"
    "a_keys a = Some r" "a_tracker a = Some (tracker_init (Some (st_billing ?st)) (Some (st_ledger ?st)))" by blast
  have "app_inv a"
    using a r(2) sqlite_audit.audit_inv_fresh [of "[]"]
    by (simp add: app_inv_def a_audit_log_def tracker_init_def st sqlite_tx.load_empty)
  with a show ?thesis by blast
qed

text \<open>C11. A restart keeps the books and loses the world: after a server with an empty database has served
  any submissions, with fresh ids, a new process over its database starts, shows the status of
  every transaction, the audit trail and the ledger, usage counts included, as the old one did;
  but its nodes hold the initial state again, whatever the transactions in the trail had made of
  it, and its SLA statistics are empty.\<close>

theorem restart_keeps_books_not_world:
  assumes "startup C env token q sks (Some (open_stores empty_database)) = Inr a0"
    and "distinct (map (\<lambda>rq. sb_uuid (fst rq)) rqs)"
  shows "\<exists>st a' net' tr tr'. let a = serve C H rqs a0 in
    stores_of a = Some st \<and> startup C env' token' q' sks' (Some st) = Inr a'
    \<and> (\<forall>i. (case get_transaction_status i a of Inl e \<Rightarrow> get_transaction_status i a' = Inl e
          | Inr (r, _) \<Rightarrow> (\<exists>b. get_transaction_status i a' = Inr (r, b))))
    \<and> map_option al_events (a_audit_log a') = map_option al_events (a_audit_log a)
    \<and> a_tracker a = Some tr \<and> a_tracker a' = Some tr'
    \<and> get_billing_ledger sqlite_ledger t tr' = get_billing_ledger sqlite_ledger t tr
    \<and> get_usage sqlite_billing benv t tr' = get_usage sqlite_billing benv t tr
    \<and> sla_get_stats t (bt_sla tr') = (0, 0)
    \<and> a_network a' = Some net' \<and> p2p_cohort False (make_initial_state default_product_ids) net'"
proof -
  obtain a0' where "startup C env token q sks (Some (open_stores empty_database)) = Inr a0'" "app_inv a0'" "a_tx_store a0' = []"
    using startup_empty by blast
  with assms have inv: "app_inv (serve C H rqs a0)" by (intro serve_inv) auto
  let ?a = "serve C H rqs a0"
  obtain al au where al: "a_audit_log ?a = Some al" "al_store al = Some au" "audit_inv sqlite_audit audit_table_inv al" "al_tenant_id al = []"
    using inv by (cases "a_audit_log ?a") (auto simp: app_inv_def)
  obtain r h k where r: "a_keys ?a = Some r" "sqlite_registry.registry_inv h r" "kr_store r = Some k"
    using inv by (auto simp: app_inv_def keys_durable_def)
  obtain tr b l where tr: "a_tracker ?a = Some tr" "bt_store tr = Some b" "bt_ledger tr = Some l"
    using inv by (cases "a_tracker ?a") (auto simp: app_inv_def)
  obtain x where x: "a_tx_persistent_store ?a = Some x" and agree: "\<And>i. to_load sqlite_tx i x = map_option tx_to_dict (dget (a_tx_store ?a) i)"
    using inv by (cases "a_tx_persistent_store ?a") (auto simp: app_inv_def)
  let ?st = "\<lparr>st_audit = au, st_keys = k, st_billing = b, st_tx = x, st_ledger = l\<rparr>"
  obtain keys where "init_registry sqlite_keys env' token' (Some k) = Inr keys" using init_registry_started [OF r(2,3)] by blast
  moreover have "audit_log_init sqlite_audit (Some au) [] = Inr al" using sqlite_audit.audit_reload [OF al(3,2)] al(4) by simp
  ultimately obtain a' net' where a': "startup C env' token' q' sks' (Some ?st) = Inr a'" "a_network a' = Some net'"
    "p_audit_log net' = Some al" "p2p_cohort False (make_initial_state default_product_ids) net'" "a_tx_store a' = []"
    "a_tx_persistent_store a' = Some x" "a_tracker a' = Some (tracker_init (Some b) (Some l))"
    using startup_Inr [of env' token' ?st keys al C q' sks'] by auto
  have status: "case get_transaction_status i ?a of Inl e \<Rightarrow> get_transaction_status i a' = Inl e
      | Inr (r, _) \<Rightarrow> (\<exists>b. get_transaction_status i a' = Inr (r, b))" for i
  proof (cases "dget (a_tx_store ?a) i")
    case None
    then show ?thesis using agree [of i] a' x by (simp add: get_transaction_status_def load_tx_record_def)
  next
    case (Some rec)
    then show ?thesis using agree [of i] a' load_from_row [of a' i x rec]
      by (simp add: get_transaction_status_def [of i ?a] load_tx_record_def)
  qed
  have "stores_of ?a = Some ?st" using al r tr x by (simp add: stores_of_def)
  moreover have "sla_get_stats t (bt_sla (tracker_init (Some b) (Some l) :: (usage_table, ledger_table) tracker)) = (0, 0)"
    by (simp add: tracker_init_def sla_get_stats_def dget_or_def)
  ultimately show ?thesis
    using a' status al tr
    by (intro exI [of _ ?st] exI [of _ a'] exI [of _ net'] exI [of _ tr] exI [of _ "tracker_init (Some b) (Some l)"])
      (simp add: Let_def a_audit_log_def get_billing_ledger_def get_usage_def tracker_init_def)
qed

subsection \<open>Witnesses\<close>

definition example_app_net :: "(string, string, audit_table) p2p" where
  "example_app_net = example_p2p\<lparr>p_audit_log := Some \<lparr>al_store = None, al_tenant_id = [], al_events = []\<rparr>\<rparr>"

definition example_app :: "(string, string) app" where
  "example_app = \<lparr>a_network = Some example_app_net, a_tx_store = [], a_tx_persistent_store = Some (tx_init_db None),
     a_tracker = Some example_tracker, a_event_bus = Some (bus_init 1000), a_webhooks = [], a_keys = None, a_tenants = []\<rparr>"

definition example_submission :: "delivery \<Rightarrow> submission" where
  "example_submission d = \<lparr>sb_uuid = ''tx-1'', sb_created = 0, sb_finalized = 5, sb_measured = 5, sb_millis = (\<lambda>t. t),
     sb_exchange = example_exchange d, sb_billing = example_billing_env\<rparr>"

lemma example_app_fields:
  "a_network example_app = Some example_app_net" "a_tracker example_app = Some example_tracker"
  "a_event_bus example_app = Some (bus_init 1000)" "a_tx_persistent_store example_app = Some (tx_init_db None)"
  "p_audit_log example_app_net = Some \<lparr>al_store = None, al_tenant_id = [], al_events = []\<rparr>"
  "x_delivery (sb_exchange (example_submission d)) = (\<lambda>_. d)"
  "p_min_responses example_app_net = 1" "p_quorum_threshold example_app_net = 51 / 100"
  by (simp_all add: example_app_def example_app_net_def example_submission_def example_exchange_def example_billing_env_def example_p2p_fields)

lemma example_app_inv: "p2p_inv example_crypto example_app_net"
  using example_p2p_inv by (simp add: p2p_inv_def example_app_net_def)

lemma example_app_responders:
  "responders (\<lambda>_. Delivered 5) example_app_net =
     [node_init ''N1'' example_world False False (Some ''k1''), node_init ''N2'' example_world False False (Some ''k2''),
      node_init ''N3'' example_world True False (Some ''k3'')]"
  using example_p2p_responders by (simp add: responders_def example_app_net_def)

lemma example_app_counts:
  "honest_count (responders (\<lambda>_. Delivered 5) example_app_net) = 2"
  "malicious_count (responders (\<lambda>_. Delivered 5) example_app_net) = 1"
  "length (responders (\<lambda>_. Delivered 5) example_app_net) = 3"
  "\<forall>nd\<in>set (responders (\<lambda>_. Delivered 5) example_app_net). in_cohort False example_world nd"
  by (simp_all add: example_app_responders honest_count_def malicious_count_def in_cohort_init wf_example_world)
    (simp_all add: node_init_def)

theorem submit_decides_and_bills_witness:
  "\<exists>resp a'. submit_transaction example_crypto example_sha256 (example_submission (Delivered 5)) (example_transfer 100) example_app
      = Inr (resp, a')
    \<and> rp_faulty_nodes resp = [''N3''] \<and> rp_consensus_reached resp
    \<and> rp_billed_amount resp = billed (sb_billing (example_submission (Delivered 5))) 4"
proof -
  obtain w where w: "execute ecn_handlers example_world (example_transfer 100) = Inr w"
    using example_transfer_executes by blast
  note t = submit_decides_and_bills [where sb = "example_submission (Delivered 5)", unfolded example_app_fields(6),
      OF hex_digest_example example_crypto_ok(1) example_app_fields(1) example_app_inv wf_example_world
      example_app_counts(4) w _ _ example_app_fields(5,2)]
  have "map n_node_id (filter n_malicious (responders (\<lambda>_. Delivered 5) example_app_net)) = [''N3'']"
    by (simp add: example_app_responders node_init_def)
  with t show ?thesis
    by (simp add: Let_def example_app_counts example_app_fields) blast
qed

lemma example_broadcast:
  "\<exists>rs cr net. sb_broadcast example_crypto example_sha256 (example_submission (Delivered 5)) (example_transfer 100) example_app_net
     = (Inr (rs, cr), net) \<and> length rs = 3"
proof -
  obtain w where w: "execute ecn_handlers example_world (example_transfer 100) = Inr w"
    using example_transfer_executes by blast
  have "malicious_count (responders (\<lambda>_. Delivered 5) example_app_net) < honest_count (responders (\<lambda>_. Delivered 5) example_app_net)"
    "p_min_responses example_app_net \<le> int (length (responders (\<lambda>_. Delivered 5) example_app_net))"
    by (simp_all add: example_app_counts example_app_fields)
  from p2p_decides [OF hex_digest_example example_crypto_ok(1) example_app_inv wf_example_world example_app_counts(4) w this]
  obtain rs cr where "fst (sb_broadcast example_crypto example_sha256 (example_submission (Delivered 5)) (example_transfer 100)
      example_app_net) = Inr (rs, cr)" "length rs = 3"
    by (auto simp: example_app_fields(6) example_app_counts(3)) blast
  then show ?thesis
    by (cases "sb_broadcast example_crypto example_sha256 (example_submission (Delivered 5)) (example_transfer 100) example_app_net") auto
qed

theorem submit_settles_witness:
  "\<exists>resp a' r tr'. submit_transaction example_crypto example_sha256 (example_submission (Delivered 5)) (example_transfer 100) example_app
      = Inr (resp, a')
    \<and> x_state r = REPLICATED \<and> get_transaction_status ''tx-1'' a' = Inr (r, a')
    \<and> a_tracker a' = Some tr' \<and> length (get_billing_ledger sqlite_ledger [] tr') = 1"
proof -
  obtain rs cr net where b: "sb_broadcast example_crypto example_sha256 (example_submission (Delivered 5)) (example_transfer 100)
      example_app_net = (Inr (rs, cr), net)" "rs \<noteq> []" using example_broadcast by fastforce
  have u: "to_load sqlite_tx (sb_uuid (example_submission (Delivered 5))) (tx_init_db None) = None"
    by (rule sqlite_tx.load_empty)
  note t = submit_settles [OF example_app_fields(1) b example_app_fields(5,2) example_tracker_ok example_app_fields(4) u
      example_app_fields(3) bus_refines_init]
  have l: "get_billing_ledger sqlite_ledger [] example_tracker = []"
    by (simp add: example_tracker_def get_billing_ledger_def tracker_init_def sqlite_ledger.entries_empty)
  have "map le_entry xs = [y] \<Longrightarrow> length xs = 1" for xs y by (cases xs) auto
  moreover have "sb_uuid (example_submission (Delivered 5)) = ''tx-1''" by (simp add: example_submission_def example_exchange_def example_billing_env_def)
  ultimately show ?thesis using t [unfolded l] by (elim exE conjE) (auto 0 3)
qed

theorem submit_refusal_leaves_pending_witness:
  "\<exists>a' r. submit_transaction example_crypto example_sha256 (example_submission Lost_before) (example_transfer 100) example_app
      = Inl (Http 422, a')
    \<and> get_transaction_status ''tx-1'' a' = Inr (r, a') \<and> x_state r = CONSENSUS_PENDING"
proof -
  have "p2p_results example_crypto example_sha256 ecn_handlers (\<lambda>_. Lost_before) (example_transfer 100) example_app_net = []"
    unfolding p2p_results_def p2p_raw_def by (rule map_filter_none) (auto simp: send_to_server_def)
  then have "\<exists>e. fst (sb_broadcast example_crypto example_sha256 (example_submission Lost_before) (example_transfer 100)
      example_app_net) = Inl e"
    by (simp add: p2p_broadcast_result example_app_fields)
  then obtain e net where b: "sb_broadcast example_crypto example_sha256 (example_submission Lost_before) (example_transfer 100)
      example_app_net = (Inl e, net)" by (metis prod.collapse)
  have u: "to_load sqlite_tx (sb_uuid (example_submission Lost_before)) (tx_init_db None) = None"
    by (rule sqlite_tx.load_empty)
  have "sb_uuid (example_submission Lost_before) = ''tx-1''" by (simp add: example_submission_def example_exchange_def example_billing_env_def)
  then show ?thesis using submit_refusal_leaves_pending [OF example_app_fields(1) b example_app_fields(4) u] by auto
qed

theorem restart_keeps_books_not_world_witness:
  "\<exists>a0 st a'. startup example_crypto (example_auth_env ''a'') [] default_quorum_threshold [''1'', ''2'', ''3'', ''4'', ''5'']
      (Some (open_stores empty_database)) = Inr a0
    \<and> (let a = serve example_crypto example_sha256 [(example_submission (Delivered 5), example_ship)] a0 in
        stores_of a = Some st
        \<and> startup example_crypto (example_auth_env ''a'') [] default_quorum_threshold [''6'', ''7'', ''8'', ''9'', ''0''] (Some st) = Inr a'
        \<and> map_option al_events (a_audit_log a') = map_option al_events (a_audit_log a))"
proof -
  obtain a0 where a0: "startup example_crypto (example_auth_env ''a'') [] default_quorum_threshold [''1'', ''2'', ''3'', ''4'', ''5'']
      (Some (open_stores empty_database)) = Inr a0" using startup_empty by blast
  then show ?thesis
    using restart_keeps_books_not_world [OF a0, of "[(example_submission (Delivered 5), example_ship)]" example_sha256
        "example_auth_env ''a''" "[]" default_quorum_threshold "[''6'', ''7'', ''8'', ''9'', ''0'']" "[]"]
    by (simp add: Let_def) blast
qed

end
