(* ===== verification/Sse.thy ===== *)
theory Sse
  imports Stream
begin

section \<open>Server-sent events\<close>

text \<open>
  \<open>sse_generator\<close> of \<open>ecn/stream.py\<close> as a state machine: resuming the generator (\<open>sse_next\<close>) runs it
  to its next \<open>yield\<close>, and between two resumptions other tasks do what they like to the bus. The
  generator first replays the buffered events, topic by topic, then subscribes and reads its live
  queue; \<open>wait_for\<close> on an empty queue times out, which yields a heartbeat. Resuming on an empty queue
  stands for that: how long the wait was is not modelled, so the runs here include those of the code
  and others with more heartbeats. A client that goes away
  closes it (\<open>sse_close\<close>: \<open>GeneratorExit\<close> at the \<open>yield\<close>, or cancellation of the wait). The framing
  of a chunk as \<open>data: ...\<close> is in \<open>Wire\<close>.

  The lemmas show for every interleaving that the chunks respect the limit, that those of one topic
  are in order and carry what was published, and what stays subscribed when the generator ends.
\<close>

datatype 'p sse_phase =
    Replay "string list" "'p stream_event list"
  | Live nat
  | Closed

record 'p sse =
  sg_topics :: "string list"
  sg_limit :: "int option"
  sg_backfill :: int
  sg_emitted :: int
  sg_phase :: "'p sse_phase"

datatype 'p chunk = Data int 'p | Heartbeat | End | Raise stream_error

definition sse_generator :: "string list \<Rightarrow> int option \<Rightarrow> int \<Rightarrow> 'p sse" where
  "sse_generator topics limit backfill =
     \<lparr>sg_topics = topics, sg_limit = limit, sg_backfill = backfill, sg_emitted = 0, sg_phase = Replay topics []\<rparr>"

definition limit_reached :: "'p sse \<Rightarrow> bool" where
  "limit_reached g \<longleftrightarrow> (case sg_limit g of None \<Rightarrow> False | Some l \<Rightarrow> l \<le> sg_emitted g)"

text \<open>The next topic with events to replay, from the bus as it is now: its first event, the others,
  and the topics left.\<close>

fun replay_page :: "'p event_bus \<Rightarrow> int \<Rightarrow> string list
    \<Rightarrow> stream_error + ('p stream_event \<times> 'p stream_event list \<times> string list) option" where
  "replay_page bus backfill [] = Inr None"
| "replay_page bus backfill (topic # topics) =
     bindE (consume topic (max 0 (next_offset topic bus - backfill)) backfill bus) (\<lambda>evs.
       case evs of [] \<Rightarrow> replay_page bus backfill topics | ev # evs \<Rightarrow> Inr (Some (ev, evs, topics)))"

text \<open>The generator counts a chunk when it is resumed after it; nothing reads the counter in between.\<close>

definition emit :: "int \<Rightarrow> 'p \<Rightarrow> 'p sse_phase \<Rightarrow> 'p sse \<Rightarrow> 'p event_bus \<Rightarrow> 'p chunk \<times> 'p sse \<times> 'p event_bus" where
  "emit seq payload phase g bus = (Data seq payload, g\<lparr>sg_emitted := sg_emitted g + 1, sg_phase := phase\<rparr>, bus)"

definition sse_live :: "nat \<Rightarrow> 'p sse \<Rightarrow> 'p event_bus \<Rightarrow> 'p chunk \<times> 'p sse \<times> 'p event_bus" where
  "sse_live q g bus =
     (if limit_reached g then (End, g\<lparr>sg_phase := Closed\<rparr>, unsubscribe_live q bus)
      else case queue_of q bus of
        None \<Rightarrow> (Heartbeat, g\<lparr>sg_phase := Live q\<rparr>, bus)
      | Some lq \<Rightarrow>
          (case q_items lq of
             [] \<Rightarrow> (Heartbeat, g\<lparr>sg_phase := Live q\<rparr>, bus)
           | (seq, payload) # rest \<Rightarrow>
               emit seq payload (Live q) g
                 (bus\<lparr>eb_queues := dset q (lq\<lparr>q_items := rest\<rparr>) (eb_queues bus)\<rparr>)))"

definition sse_next :: "'p sse \<Rightarrow> 'p event_bus \<Rightarrow> 'p chunk \<times> 'p sse \<times> 'p event_bus" where
  "sse_next g bus =
     (case sg_phase g of
        Replay topics pending \<Rightarrow>
          if 0 < sg_emitted g \<and> limit_reached g then (End, g\<lparr>sg_phase := Closed\<rparr>, bus)
          else (case pending of
            ev # evs \<Rightarrow> emit (e_seq ev) (e_payload ev) (Replay topics evs) g bus
          | [] \<Rightarrow>
              (case (if 0 < sg_backfill g then replay_page bus (sg_backfill g) topics else Inr None) of
                 Inl e \<Rightarrow> (Raise e, g\<lparr>sg_phase := Closed\<rparr>, bus)
               | Inr (Some (ev, evs, topics)) \<Rightarrow> emit (e_seq ev) (e_payload ev) (Replay topics evs) g bus
               | Inr None \<Rightarrow> (case subscribe_live (sg_topics g) 256 bus of (q, bus) \<Rightarrow> sse_live q g bus)))
      | Live q \<Rightarrow> sse_live q g bus
      | Closed \<Rightarrow> (End, g, bus))"

definition sse_close :: "'p sse \<Rightarrow> 'p event_bus \<Rightarrow> 'p sse \<times> 'p event_bus" where
  "sse_close g bus =
     (g\<lparr>sg_phase := Closed\<rparr>, case sg_phase g of Live q \<Rightarrow> unsubscribe_live q bus | _ \<Rightarrow> bus)"

subsection \<open>Interleavings\<close>

text \<open>
  Runs of a generator on a bus, with the operations of others and the chunks it yielded. Others
  do not know its queue, so they do not unsubscribe it.
\<close>

inductive sse_run :: "'p event_bus \<Rightarrow> 'p sse \<Rightarrow> 'p bus_op list \<Rightarrow> 'p sse \<Rightarrow> 'p event_bus \<Rightarrow> 'p chunk list \<Rightarrow> bool"
  for b0 g0 where
  start: "sse_run b0 g0 [] g0 b0 []"
| other: "sse_run b0 g0 ops g b cs \<Longrightarrow> (\<And>q. sg_phase g = Live q \<Longrightarrow> op \<noteq> Unsubscribe q) \<Longrightarrow>
    sse_run b0 g0 (ops @ [op]) g (bus_step b op) cs"
| resume: "sse_run b0 g0 ops g b cs \<Longrightarrow> sse_next g b = (c, g', b') \<Longrightarrow> sse_run b0 g0 ops g' b' (cs @ [c])"

fun chunk_event :: "'p chunk \<Rightarrow> (int \<times> 'p) option" where
  "chunk_event (Data seq payload) = Some (seq, payload)"
| "chunk_event _ = None"

definition sent :: "'p chunk list \<Rightarrow> (int \<times> 'p) list" where
  "sent cs = List.map_filter chunk_event cs"

lemma sent_snoc: "sent (cs @ [c]) = sent cs @ (case c of Data s x \<Rightarrow> [(s, x)] | _ \<Rightarrow> [])"
  by (simp add: sent_def map_filter_def split: chunk.split)

lemma sent_Nil [simp]: "sent [] = []"
  by (simp add: sent_def map_filter_simps)

lemmas sse_step_defs = sse_next_def sse_live_def emit_def

subsection \<open>The limit\<close>

lemma next_counts:
  assumes "sse_next g b = (c, g', b')"
  shows "sg_limit g' = sg_limit g \<and> sg_topics g' = sg_topics g \<and> sg_backfill g' = sg_backfill g
    \<and> sg_emitted g' = sg_emitted g + (case c of Data s x \<Rightarrow> 1 | _ \<Rightarrow> 0)"
  using assms by (auto simp: sse_step_defs split: sse_phase.splits if_splits sum.splits option.splits prod.splits list.splits)

lemma next_data:
  assumes "sse_next g b = (Data s x, g', b')" and "limit_reached g"
  shows "sg_emitted g \<le> 0"
  using assms by (auto simp: sse_step_defs split: sse_phase.splits if_splits sum.splits option.splits prod.splits list.splits)

lemma run_counts:
  "sse_run b0 (sse_generator topics limit backfill) ops g b cs \<Longrightarrow>
    sg_limit g = limit \<and> sg_topics g = topics \<and> sg_backfill g = backfill \<and> sg_emitted g = int (length (sent cs))
    \<and> (\<forall>l. limit = Some l \<and> 0 < l \<longrightarrow> sg_emitted g \<le> l)"
proof (induction rule: sse_run.induct)
  case (resume ops g b cs c g' b')
  have "\<forall>l. limit = Some l \<and> 0 < l \<longrightarrow> sg_emitted g' \<le> l"
    using next_counts [OF resume(2)] next_data [of g b _ _ g' b'] resume(2) resume.IH
    by (cases c) (fastforce simp: limit_reached_def)+
  then show ?case using next_counts [OF resume(2)] resume.IH by (auto simp: sent_snoc split: chunk.split)
qed (auto simp: sse_generator_def)

lemma next_at_limit:
  assumes "limit_reached g" and "0 < sg_emitted g"
  shows "\<exists>b'. sse_next g b = (End, g\<lparr>sg_phase := Closed\<rparr>, b')"
  using assms by (cases "sg_phase g") (auto simp: sse_step_defs)

subsection \<open>Subscriptions\<close>

text \<open>Queue \<open>q\<close> is subscribed \<open>f t\<close> times to topic \<open>t\<close>.\<close>

definition subscriptions :: "nat \<Rightarrow> (string \<Rightarrow> nat) \<Rightarrow> 'p event_bus \<Rightarrow> bool" where
  "subscriptions q f bus \<longleftrightarrow> q < eb_next_queue bus \<and> queue_of q bus \<noteq> None
     \<and> (\<forall>t ts. dget (eb_topics bus) t = Some ts \<longrightarrow> count_list (ts_subscribers ts) q = f t)"

lemma subscriptions_topic:
  "subscriptions q f bus \<Longrightarrow> dget (eb_topics bus) t = Some ts \<Longrightarrow> count_list (ts_subscribers ts) q = f t"
  by (simp add: subscriptions_def)

lemma count_list_replicate: "count_list (replicate k x) y = (if x = y then k else 0)"
  by (induction k) auto

lemma subscribe_adds:
  assumes "dget (eb_topics (snd (subscribe_live topics n bus))) t = Some ts'"
  shows "\<exists>ts. dget (eb_topics bus) t = Some ts
    \<and> ts_subscribers ts' = ts_subscribers ts @ replicate (count_list topics t) (eb_next_queue bus)"
  using assms subscribers_after_subscribe [where q = "eb_next_queue bus" and d = "eb_topics bus" and tps = topics and t = t and ts' = ts']
  by (simp add: subscribe_live_def Let_def)

lemma subscribe_fresh_queue:
  assumes "queue_ids_ok bus" and "subscribe_live topics n bus = (q, bus')"
  shows "subscriptions q (count_list topics) bus'" and "queue_of q bus' = Some \<lparr>q_maxsize = n, q_items = []\<rparr>"
proof -
  have q: "q = eb_next_queue bus" "bus' = snd (subscribe_live topics n bus)"
    using assms(2) by (auto simp: subscribe_live_def Let_def)
  have "dget (eb_queues bus) q = None" using assms(1) q by (auto simp: queue_ids_ok_def map_of_eq_None_iff)
  then show lq: "queue_of q bus' = Some \<lparr>q_maxsize = n, q_items = []\<rparr>"
    by (simp add: queue_of_def q subscribe_live_def Let_def map_add_def)
  have "count_list (ts_subscribers ts') q = count_list topics t" if t: "dget (eb_topics bus') t = Some ts'" for t ts'
  proof -
    obtain ts where ts: "dget (eb_topics bus) t = Some ts"
      "ts_subscribers ts' = ts_subscribers ts @ replicate (count_list topics t) q"
      using subscribe_adds [of topics n bus t ts'] t q by auto
    then have "q \<notin> set (ts_subscribers ts)" using assms(1) q unfolding queue_ids_ok_def by blast
    with ts show ?thesis by (simp add: count_list_replicate count_notin)
  qed
  moreover have "q < eb_next_queue bus'" by (simp add: q subscribe_live_def Let_def)
  ultimately show "subscriptions q (count_list topics) bus'" using lq by (simp add: subscriptions_def)
qed

lemma subscriptions_step:
  assumes "subscriptions q f bus" and "op \<noteq> Unsubscribe q"
  shows "subscriptions q f (bus_step bus op)"
proof (cases op)
  case (Publish t x)
  then show ?thesis using assms(1)
    by (auto simp: subscriptions_def publish_def queue_of_def put_queues_get Let_def split: option.splits)
next
  case (Subscribe tps n)
  have "count_list (ts_subscribers ts') q = f t" if "dget (eb_topics (bus_step bus op)) t = Some ts'" for t ts'
    using that subscribe_adds [of tps n bus t ts'] assms(1)
    by (auto simp: Subscribe count_list_replicate subscriptions_def)
  then show ?thesis using assms(1)
    by (auto simp: Subscribe subscriptions_def queue_of_def subscribe_live_def Let_def map_add_def)
next
  case (Unsubscribe p)
  have "count_list (ts_subscribers ts') q = f t" if "dget (eb_topics (bus_step bus op)) t = Some ts'" for t ts'
    using that subscribers_after_unsubscribe [where q = p and d = "eb_topics bus" and tps = all_topics and t = t and ts' = ts' and p = q] assms
    by (auto simp: Unsubscribe unsubscribe_live_def subscriptions_def)
  then show ?thesis using assms(1) by (auto simp: Unsubscribe subscriptions_def queue_of_def unsubscribe_live_def)
qed

lemma count_remove1_self: "count_list (remove1 q xs) q = count_list xs q - 1"
  by (induction xs) auto

lemma unsubscribe_removes_one:
  assumes "t \<in> set all_topics" and "dget (eb_topics bus) t = Some ts"
  shows "\<exists>ts'. dget (eb_topics (unsubscribe_live q bus)) t = Some ts'
    \<and> count_list (ts_subscribers ts') q = count_list (ts_subscribers ts) q - 1"
  using assms
  by (auto simp: unsubscribe_live_def all_topics_def try_remove_subscriber_def count_remove1_self split: option.split)

text \<open>Popping an event changes neither topics nor ids.\<close>

lemma pop_frame:
  assumes "queue_of q b = Some lq"
  shows "queue_ids_ok (b\<lparr>eb_queues := dset q lq' (eb_queues b)\<rparr>) = queue_ids_ok b"
    and "subscriptions p f (b\<lparr>eb_queues := dset q lq' (eb_queues b)\<rparr>) = subscriptions p f b"
    and "bus_refines logs (b\<lparr>eb_queues := dset q lq' (eb_queues b)\<rparr>) = bus_refines logs b"
proof -
  have "q \<in> fst ` set (eb_queues b)" using assms by (force simp: queue_of_def dest: map_of_SomeD)
  then have "fst ` set (dset q lq' (eb_queues b)) = fst ` set (eb_queues b)"
    by (simp add: insert_absorb)
  then show "queue_ids_ok (b\<lparr>eb_queues := dset q lq' (eb_queues b)\<rparr>) = queue_ids_ok b"
    by (simp add: queue_ids_ok_def)
  show "subscriptions p f (b\<lparr>eb_queues := dset q lq' (eb_queues b)\<rparr>) = subscriptions p f b"
    using assms by (auto simp: subscriptions_def queue_of_def)
  show "bus_refines logs (b\<lparr>eb_queues := dset q lq' (eb_queues b)\<rparr>) = bus_refines logs b"
    by (simp add: bus_refines_def)
qed

subsection \<open>What every interleaving keeps\<close>

definition sse_inv :: "(string \<Rightarrow> 'p list) \<Rightarrow> 'p sse \<Rightarrow> 'p event_bus \<Rightarrow> bool" where
  "sse_inv logs g b \<longleftrightarrow> bus_refines logs b \<and> queue_ids_ok b
     \<and> (\<forall>q. sg_phase g = Live q \<longrightarrow> subscriptions q (count_list (sg_topics g)) b)"

lemma subscribe_frame:
  assumes "bus_refines logs b" and "queue_ids_ok b" and "subscribe_live topics n b = (q, b')"
  shows "bus_refines logs b' \<and> queue_ids_ok b'"
  using bus_step_refines [OF assms(1), of "Subscribe topics n"] queue_ids_step [OF assms(2), of "Subscribe topics n"] assms(3)
  by (simp add: published_def map_filter_simps)

lemma unsubscribe_frame:
  assumes "bus_refines logs b" and "queue_ids_ok b"
  shows "bus_refines logs (unsubscribe_live q b) \<and> queue_ids_ok (unsubscribe_live q b)"
  using bus_step_refines [OF assms(1), of "Unsubscribe q"] queue_ids_step [OF assms(2), of "Unsubscribe q"]
  by (simp add: published_def map_filter_simps)

text \<open>The cases of reading the live queue.\<close>

lemma sse_live_cases:
  assumes "sse_live q g b = (c, g', b')"
  obtains (limit) "limit_reached g" "c = End" "g' = g\<lparr>sg_phase := Closed\<rparr>" "b' = unsubscribe_live q b"
  | (idle) "c = Heartbeat" "g' = g\<lparr>sg_phase := Live q\<rparr>" "b' = b"
  | (event) s x rest lq where "c = Data s x" "g' = g\<lparr>sg_emitted := sg_emitted g + 1, sg_phase := Live q\<rparr>"
      "queue_of q b = Some lq" "q_items lq = (s, x) # rest"
      "b' = b\<lparr>eb_queues := dset q (lq\<lparr>q_items := rest\<rparr>) (eb_queues b)\<rparr>"
  using assms by (auto simp: sse_live_def emit_def split: if_splits option.splits list.splits)

lemma sse_live_inv:
  assumes "sse_live q g b = (c, g', b')" and "bus_refines logs b" and "queue_ids_ok b"
    and "subscriptions q (count_list (sg_topics g)) b"
  shows "sse_inv logs g' b'"
  using assms(1)
proof (cases rule: sse_live_cases)
  case limit
  then show ?thesis using unsubscribe_frame [OF assms(2,3)] by (simp add: sse_inv_def)
next
  case idle
  then show ?thesis using assms(2-) by (simp add: sse_inv_def)
next
  case (event s x rest lq)
  then show ?thesis using assms(2-) pop_frame [OF event(3)] by (simp add: sse_inv_def)
qed

lemma sse_next_inv:
  assumes "sse_next g b = (c, g', b')" and "sse_inv logs g b"
  shows "sse_inv logs g' b'"
proof (cases "sg_phase g")
  case (Live q)
  then show ?thesis using assms sse_live_inv [of q g b c g' b' logs] by (simp add: sse_next_def sse_inv_def)
next
  case (Replay topics pending)
  show ?thesis
  proof (cases "\<exists>q b1. subscribe_live (sg_topics g) 256 b = (q, b1) \<and> sse_live q g b1 = (c, g', b')")
    case True
    then obtain q b1 where q: "subscribe_live (sg_topics g) 256 b = (q, b1)" "sse_live q g b1 = (c, g', b')" by blast
    have i: "bus_refines logs b" "queue_ids_ok b" using assms(2) by (simp_all add: sse_inv_def)
    show ?thesis
      using sse_live_inv [OF q(2)] subscribe_frame [OF i q(1)] subscribe_fresh_queue(1) [OF i(2) q(1)] by blast
  next
    case False
    then have "b' = b \<and> (\<forall>q. sg_phase g' \<noteq> Live q)"
      using assms(1) Replay
      by (auto simp: sse_next_def emit_def split: if_splits sum.splits option.splits prod.splits list.splits)
    then show ?thesis using assms(2) by (simp add: sse_inv_def)
  qed
next
  case Closed
  then show ?thesis using assms by (auto simp: sse_next_def)
qed

lemma sse_other_inv:
  assumes "sse_inv logs g b" and "\<And>q. sg_phase g = Live q \<Longrightarrow> op \<noteq> Unsubscribe q"
  shows "sse_inv (\<lambda>t. logs t @ published t [op]) g (bus_step b op)"
  using assms bus_step_refines [of logs b op] queue_ids_step [of b op] subscriptions_step [of _ "count_list (sg_topics g)" b op]
  by (auto simp: sse_inv_def)

lemma sse_run_inv:
  assumes "sse_run (bus_run (bus_init m) before) (sse_generator topics limit backfill) ops g b cs"
  shows "sse_inv (\<lambda>t. published t (before @ ops)) g b"
  using assms
proof (induction rule: sse_run.induct)
  case start
  show ?case using bus_run_refines [of before m] queue_ids_run [of m before] by (simp add: sse_inv_def sse_generator_def)
next
  case (other ops g b cs op)
  show ?case using sse_other_inv [OF other.IH other(2)] by (simp add: published_append)
next
  case (resume ops g b cs c g' b')
  show ?case by (rule sse_next_inv [OF resume(2) resume.IH])
qed

subsection \<open>The chunks of one topic\<close>

text \<open>Events in order, each under its position in the log.\<close>

definition in_order :: "(int \<times> 'p) list \<Rightarrow> 'p list \<Rightarrow> bool" where
  "in_order xs log \<longleftrightarrow> sorted_wrt (<) (map fst xs) \<and> (\<forall>(s, x)\<in>set xs. \<exists>i<length log. s = int i \<and> x = log ! i)"

lemma in_order_Nil [simp]: "in_order [] log"
  by (simp add: in_order_def)

lemma in_order_more: "in_order xs log \<Longrightarrow> in_order xs (log @ later)"
  by (fastforce simp: in_order_def nth_append)

lemma in_order_new: "in_order xs log \<Longrightarrow> in_order (xs @ [(int (length log), x)]) (log @ [x])"
  by (fastforce simp: in_order_def sorted_wrt_append nth_append)

lemma in_order_prefix: "in_order (xs @ ys) log \<Longrightarrow> in_order xs log"
  by (auto simp: in_order_def sorted_wrt_append)

definition replayed :: "'p stream_event list \<Rightarrow> (int \<times> 'p) list" where
  "replayed evs = map (\<lambda>e. (e_seq e, e_payload e)) evs"

lemma in_order_upt:
  "n \<le> length log \<Longrightarrow> in_order (replayed (map (\<lambda>i. \<lparr>e_seq = int i, e_topic = t, e_payload = log ! i\<rparr>) [k..<n])) log"
  by (auto simp: in_order_def replayed_def comp_def sorted_wrt_map simp del: upt_Suc)

definition order_inv :: "string \<Rightarrow> 'p list \<Rightarrow> 'p sse \<Rightarrow> 'p event_bus \<Rightarrow> 'p chunk list \<Rightarrow> bool" where
  "order_inv t log g b cs \<longleftrightarrow> sg_topics g = [t] \<and>
     (case sg_phase g of
        Replay topics pending \<Rightarrow>
          topics = [t] \<and> pending = [] \<and> sent cs = [] \<or> topics = [] \<and> in_order (sent cs @ replayed pending) log
      | Live q \<Rightarrow> (\<exists>lq. queue_of q b = Some lq \<and> in_order (sent cs @ q_items lq) log)
      | Closed \<Rightarrow> in_order (sent cs) log)"

lemma next_offset_refines: "bus_refines logs b \<Longrightarrow> t \<in> set all_topics \<Longrightarrow> next_offset t b = int (length (logs t))"
  using bus_refines_topic [of logs b t] by (auto simp: next_offset_def topic_refines_def)

lemma subscriptions_single: "subscriptions q (count_list [t]) b \<Longrightarrow> subscribed q [t] b"
  by (auto simp: subscriptions_def subscribed_def)

lemma order_other:
  assumes "order_inv t (logs t) g b cs" and "sse_inv logs g b" and "t \<in> set all_topics"
    and "\<And>q. sg_phase g = Live q \<Longrightarrow> op \<noteq> Unsubscribe q"
  shows "order_inv t (logs t @ published t [op]) g (bus_step b op) cs"
proof (cases "sg_phase g")
  case (Live q)
  then obtain lq where lq: "queue_of q b = Some lq" "in_order (sent cs @ q_items lq) (logs t)"
    using assms(1) by (auto simp: order_inv_def)
  have sub: "subscribed q [t] b" and r: "bus_refines logs b"
    using assms(1,2) Live subscriptions_single by (auto simp: sse_inv_def order_inv_def)
  have "\<exists>lq'. queue_of q (bus_step b op) = Some lq' \<and> in_order (sent cs @ q_items lq') (logs t @ published t [op])"
  proof (cases "\<exists>t' x. op = Publish t' x")
    case True
    then obtain t' x where op: "op = Publish t' x" by blast
    have q': "queue_of q (bus_step b op) = Some (foldl (\<lambda>lq ev. put_nowait ev lq) lq (live_events [t] b [op]))"
      using publish_queue(1) [OF sub, of t' x] lq(1) by (simp add: op del: live_events.simps)
    have "dget (eb_topics b) t \<noteq> None" using bus_refines_topic [OF r assms(3)] by auto
    then have "live_events [t] b [op] = (if t' = t then [(int (length (logs t)), x)] else [])"
      using next_offset_refines [OF r assms(3)] by (auto simp: op)
    moreover have "published t [op] = (if t' = t then [x] else [])" by (simp add: op published_def map_filter_simps)
    ultimately show ?thesis
      using q' lq(2) in_order_new [OF lq(2), of x] in_order_more [OF lq(2), of "[x]"] by (auto simp: put_nowait_def)
  next
    case False
    then show ?thesis
      using other_ops_queue [OF sub] lq Live assms(4) in_order_more [OF lq(2)] by auto
  qed
  then show ?thesis using assms(1) Live by (simp add: order_inv_def)
qed (use assms(1) in \<open>auto simp: order_inv_def intro: in_order_more\<close>)

lemma order_live:
  assumes "sse_live q g b = (c, g', b')" and "queue_of q b = Some lq" and "in_order (sent cs @ q_items lq) log"
    and "sg_topics g = [t]"
  shows "order_inv t log g' b' (cs @ [c])"
  using assms(1)
proof (cases rule: sse_live_cases)
  case (event s x rest lq')
  then show ?thesis using assms(2-) by (simp add: order_inv_def sent_snoc queue_of_def)
qed (use assms(2-) in_order_prefix [OF assms(3)] in \<open>simp_all add: order_inv_def sent_snoc\<close>)

lemma replay_page_order:
  assumes "bus_refines logs b" and "t \<in> set all_topics" and "0 < backfill"
  shows "replay_page b backfill [t] = Inr None
    \<or> (\<exists>ev evs. replay_page b backfill [t] = Inr (Some (ev, evs, [])) \<and> in_order (replayed (ev # evs)) (logs t))"
proof -
  let ?n = "length (logs t)"
  have "max 0 (next_offset t b - backfill) = int (?n - nat backfill)"
    using next_offset_refines [OF assms(1,2)] assms(3) by (simp add: max_def)
  moreover obtain k n where c: "consume t (int (?n - nat backfill)) backfill b =
      Inr (map (\<lambda>i. \<lparr>e_seq = int i, e_topic = t, e_payload = logs t ! i\<rparr>) [k..<n])" "n \<le> ?n"
    using consume_refines [OF assms(1,2), of "nat backfill" "?n - nat backfill"] assms(3) by auto
  ultimately show ?thesis
    using in_order_upt [OF c(2), of t k] by (auto split: list.split)
qed

lemma order_next:
  assumes "sse_next g b = (c, g', b')" and "order_inv t (logs t) g b cs" and "sse_inv logs g b" and "t \<in> set all_topics"
  shows "order_inv t (logs t) g' b' (cs @ [c])"
proof (cases "sg_phase g")
  case (Live q)
  then show ?thesis using assms(1,2) order_live [of q g b c g' b'] by (auto simp: sse_next_def order_inv_def)
next
  case Closed
  then show ?thesis using assms(1,2) by (auto simp: sse_next_def order_inv_def sent_snoc)
next
  case (Replay topics pending)
  have r: "bus_refines logs b" "queue_ids_ok b" using assms(3) by (simp_all add: sse_inv_def)
  have tp: "sg_topics g = [t]" using assms(2) by (simp add: order_inv_def)
  have sub: "order_inv t (logs t) g' b' (cs @ [c])"
    if "(case subscribe_live (sg_topics g) 256 b of (q, b) \<Rightarrow> sse_live q g b) = (c, g', b')" and "in_order (sent cs) (logs t)"
  proof -
    obtain q b1 where q: "subscribe_live (sg_topics g) 256 b = (q, b1)" by fastforce
    with that show ?thesis using order_live [of q g b1 c g' b'] subscribe_fresh_queue(2) [OF r(2) q] tp by simp
  qed
  show ?thesis
  proof (cases "topics = [t] \<and> pending = [] \<and> sent cs = []")
    case True
    then show ?thesis
      using assms(1) Replay sub replay_page_order [OF r(1) assms(4), of "sg_backfill g"] tp
      by (auto simp: sse_next_def emit_def order_inv_def sent_snoc replayed_def split: if_splits)
  next
    case False
    then have "topics = []" "in_order (sent cs @ replayed pending) (logs t)"
      using assms(2) Replay by (auto simp: order_inv_def)
    then show ?thesis
      using assms(1) Replay sub in_order_prefix [of "sent cs" "replayed pending" "logs t"] tp
      by (cases pending) (auto simp: sse_next_def emit_def order_inv_def sent_snoc replayed_def split: if_splits)
  qed
qed

lemma run_order:
  assumes "sse_run (bus_run (bus_init m) before) (sse_generator [t] limit backfill) ops g b cs" and "t \<in> set all_topics"
  shows "order_inv t (published t (before @ ops)) g b cs"
  using assms(1)
proof (induction rule: sse_run.induct)
  case start
  show ?case by (simp add: order_inv_def sse_generator_def)
next
  case (other ops g b cs op)
  show ?case
    using order_other [of t "\<lambda>t. published t (before @ ops)" g b cs op, OF other.IH sse_run_inv [OF other(1)] assms(2) other(2)]
    by (simp add: published_append)
next
  case (resume ops g b cs c g' b')
  show ?case
    using order_next [of g b c g' b' t "\<lambda>t. published t (before @ ops)" cs, OF resume(2) resume.IH sse_run_inv [OF resume(1)] assms(2)] .
qed

text \<open>C23. The stream of one topic: however the generator is interleaved with publishers and other
  subscribers, the events it sends have increasing sequence numbers and each is the one published
  under that number, so none is sent twice or out of order, replayed or live; with a positive
  limit it never sends more, and once it has sent that many it ends.\<close>

theorem sse_stream_in_order:
  assumes "sse_run (bus_run (bus_init m) before) (sse_generator [t] limit backfill) ops g b cs" and "t \<in> set all_topics"
  shows "sorted_wrt (<) (map fst (sent cs))
    \<and> (\<forall>(s, x)\<in>set (sent cs). \<exists>i<length (published t (before @ ops)). s = int i \<and> x = published t (before @ ops) ! i)
    \<and> (\<forall>l. limit = Some l \<and> 0 < l \<longrightarrow> int (length (sent cs)) \<le> l
        \<and> (int (length (sent cs)) = l \<longrightarrow> fst (sse_next g b) = End \<and> sg_phase (fst (snd (sse_next g b))) = Closed))"
proof -
  have "in_order (sent cs) (published t (before @ ops))"
    using run_order [OF assms] by (auto simp: order_inv_def split: sse_phase.splits dest: in_order_prefix)
  moreover have "fst (sse_next g b) = End \<and> sg_phase (fst (snd (sse_next g b))) = Closed"
    if "limit = Some l" "0 < l" "int (length (sent cs)) = l" for l
    using next_at_limit [of g b] run_counts [OF assms(1)] that by (auto simp: limit_reached_def)
  ultimately show ?thesis using run_counts [OF assms(1)] by (auto simp: in_order_def)
qed

text \<open>What stays behind: when a generator that reached its live queue ends, by its limit or because
  its client has gone, it unsubscribes the queue from every topic once, although it subscribed it
  once for each time the topic was named. With a topic named twice the queue stays subscribed,
  and fills with events nobody reads.\<close>

lemma sse_leaves_queue:
  assumes "sse_run (bus_run (bus_init m) before) (sse_generator topics limit backfill) ops g b cs"
    and "sg_phase g = Live q" and "t \<in> set all_topics"
  shows "(\<exists>ts. dget (eb_topics (snd (sse_close g b))) t = Some ts
        \<and> count_list (ts_subscribers ts) q = count_list topics t - 1)
    \<and> (limit_reached g \<longrightarrow> snd (snd (sse_next g b)) = snd (sse_close g b))"
proof -
  have inv: "sse_inv (\<lambda>t. published t (before @ ops)) g b" and tp: "sg_topics g = topics"
    using sse_run_inv [OF assms(1)] run_counts [OF assms(1)] by simp_all
  then obtain ts where ts: "dget (eb_topics b) t = Some ts"
    using bus_refines_topic [of "\<lambda>t. published t (before @ ops)" b t] assms(3) by (auto simp: sse_inv_def)
  have "count_list (ts_subscribers ts) q = count_list topics t"
    using inv assms(2) tp subscriptions_topic [OF _ ts] by (simp add: sse_inv_def)
  then show ?thesis
    using unsubscribe_removes_one [OF assms(3) ts, of q] assms(2) by (simp add: sse_close_def sse_next_def sse_live_def)
qed

subsection \<open>The gap\<close>

lemma sse_run_trans:
  assumes "sse_run b0 g0 ops g b cs" and "sse_run b g ops' g' b' cs'"
  shows "sse_run b0 g0 (ops @ ops') g' b' (cs @ cs')"
  using assms(2)
proof (induction rule: sse_run.induct)
  case start
  show ?case using assms(1) by simp
next
  case (other ops' g' b' cs' op)
  show ?case using sse_run.other [OF other.IH other(2)] by simp
next
  case (resume ops' g' b' cs' c g'' b'')
  show ?case using sse_run.resume [OF resume.IH resume(2)] by simp
qed

lemma in_order_bounded: "in_order xs log \<Longrightarrow> int (length log) \<notin> fst ` set xs"
  by (force simp: in_order_def)

text \<open>The event under position \<open>k\<close> is neither sent since, nor pending, nor queued.\<close>

definition skips :: "nat \<Rightarrow> 'p sse \<Rightarrow> 'p event_bus \<Rightarrow> 'p chunk list \<Rightarrow> bool" where
  "skips k g b cs \<longleftrightarrow> int k \<notin> fst ` set (sent cs) \<and>
     (case sg_phase g of
        Replay topics pending \<Rightarrow> topics = [] \<and> int k \<notin> e_seq ` set pending
      | Live q \<Rightarrow> (\<exists>lq. queue_of q b = Some lq \<and> int k \<notin> fst ` set (q_items lq))
      | Closed \<Rightarrow> True)"

lemma skips_live:
  assumes "sse_live q g b = (c, g', b')" and "queue_of q b = Some lq" and "int k \<notin> fst ` set (q_items lq)"
    and "int k \<notin> fst ` set (sent cs)"
  shows "skips k g' b' (cs @ [c])"
  using assms(1)
proof (cases rule: sse_live_cases)
  case (event s x rest lq')
  then show ?thesis using assms(2-) by (auto simp: skips_def sent_snoc queue_of_def)
qed (use assms(2-) in \<open>simp_all add: skips_def sent_snoc\<close>)

lemma skips_next:
  assumes "sse_next g b = (c, g', b')" and "skips k g b cs" and "queue_ids_ok b"
  shows "skips k g' b' (cs @ [c])"
proof (cases "sg_phase g")
  case (Live q)
  then show ?thesis using assms(1,2) skips_live [of q g b c g' b'] by (auto simp: sse_next_def skips_def)
next
  case Closed
  then show ?thesis using assms(1,2) by (auto simp: sse_next_def skips_def sent_snoc)
next
  case (Replay topics pending)
  obtain q b1 where q: "subscribe_live (sg_topics g) 256 b = (q, b1)" by fastforce
  have "skips k g' b' (cs @ [c])" if "sse_live q g b1 = (c, g', b')"
    by (rule skips_live [OF that subscribe_fresh_queue(2) [OF assms(3) q]]) (use assms(2) in \<open>simp_all add: skips_def\<close>)
  then show ?thesis
    using assms(1,2) Replay q
    by (cases pending) (auto simp: sse_next_def emit_def skips_def sent_snoc split: if_splits)
qed

lemma skips_other:
  assumes "skips k g b cs" and "sg_topics g = [t]" and "sse_inv logs g b" and "t \<in> set all_topics" and "k < length (logs t)"
    and "\<And>q. sg_phase g = Live q \<Longrightarrow> op \<noteq> Unsubscribe q"
  shows "skips k g (bus_step b op) cs"
proof (cases "sg_phase g")
  case (Live q)
  then obtain lq where lq: "queue_of q b = Some lq" "int k \<notin> fst ` set (q_items lq)"
    using assms(1) by (auto simp: skips_def)
  have sub: "subscribed q [t] b" and r: "bus_refines logs b"
    using assms(2,3) Live subscriptions_single by (auto simp: sse_inv_def)
  have "\<exists>lq'. queue_of q (bus_step b op) = Some lq' \<and> int k \<notin> fst ` set (q_items lq')"
  proof (cases "\<exists>t' x. op = Publish t' x")
    case True
    then obtain t' x where op: "op = Publish t' x" by blast
    have q': "queue_of q (bus_step b op) = Some (foldl (\<lambda>lq ev. put_nowait ev lq) lq (live_events [t] b [op]))"
      using publish_queue(1) [OF sub, of t' x] lq(1) by (simp add: op del: live_events.simps)
    have "live_events [t] b [op] = [] \<or> live_events [t] b [op] = [(int (length (logs t)), x)]"
      using next_offset_refines [OF r assms(4)] by (auto simp: op)
    then have "set (q_items (foldl (\<lambda>lq ev. put_nowait ev lq) lq (live_events [t] b [op])))
        \<subseteq> insert (int (length (logs t)), x) (set (q_items lq))"
      by (elim disjE) (auto simp: put_nowait_def simp del: live_events.simps)
    then show ?thesis using q' lq(2) assms(5) by fastforce
  next
    case False
    then show ?thesis using other_ops_queue [OF sub] lq Live assms(6) by auto
  qed
  then show ?thesis using assms(1) Live by (simp add: skips_def)
qed (use assms(1) in \<open>auto simp: skips_def\<close>)

text \<open>C24. Reconnecting leaves a gap: while the generator still sends the backlog it has read, it is
  subscribed to nothing. An event published to its topic in that time is under the next number
  in the topic's log, and however the generator goes on, it never sends it, neither with the
  backlog nor live.\<close>

theorem sse_replay_gap:
  assumes "sse_run (bus_run (bus_init m) before) (sse_generator [t] limit backfill) ops g b cs"
    and "sg_phase g = Replay [] pending" and "t \<in> set all_topics"
    and "sse_run (bus_step b (Publish t x)) g ops' g' b' cs'"
  shows "let log = published t (before @ ops @ [Publish t x] @ ops'); k = length (published t (before @ ops)) in
    k < length log \<and> log ! k = x \<and> int k \<notin> fst ` set (sent (cs @ cs'))"
proof -
  let ?log = "\<lambda>ops'. published t (before @ (ops @ [Publish t x]) @ ops')"
  let ?k = "length (published t (before @ ops))"
  have pub: "?log ops' = published t (before @ ops) @ [x] @ published t ops'" for ops'
    by (simp add: published_append) (simp add: published_def map_filter_simps)
  have mid: "sse_run (bus_run (bus_init m) before) (sse_generator [t] limit backfill) (ops @ [Publish t x]) g
      (bus_step b (Publish t x)) cs"
    using assms(2) by (intro sse_run.other [OF assms(1)]) simp
  have "in_order (sent cs @ replayed pending) (published t (before @ ops)) \<or> sent cs = [] \<and> pending = []"
    using run_order [OF assms(1,3)] assms(2) by (auto simp: order_inv_def)
  then have old: "int ?k \<notin> fst ` set (sent cs @ replayed pending)" using in_order_bounded by (fastforce simp: replayed_def)
  from assms(4) have "skips ?k g' b' (cs @ cs')"
  proof (induction rule: sse_run.induct)
    case start
    show ?case using old assms(2) by (force simp: skips_def replayed_def image_Un image_image)
  next
    case (other ops' g' b' cs' op)
    note run = sse_run_trans [OF mid other(1)]
    show ?case
      using skips_other [OF other.IH _ sse_run_inv [OF run] assms(3) _ other(2)] run_counts [OF run] pub [of ops'] by simp
  next
    case (resume ops' g' b' cs' c g'' b'')
    note run = sse_run_trans [OF mid resume(1)]
    show ?case using skips_next [OF resume(2) resume.IH] sse_run_inv [OF run] by (simp add: sse_inv_def)
  qed
  then show ?thesis using pub [of ops'] by (simp add: skips_def nth_append)
qed

text \<open>A generator over one event that is replayed, then live.\<close>

definition example_sse :: "string list \<Rightarrow> string sse" where
  "example_sse topics = sse_generator topics (Some 2) 5"

definition example_bus :: "string event_bus" where
  "example_bus = bus_run (bus_init 10) [Publish ''faults'' ''a'']"

lemmas sse_evaluate = example_sse_def example_bus_def sse_generator_def sse_step_defs limit_reached_def
  bus_run_def bus_init_def all_topics_def publish_def Let_def push_bounded_def consume_def next_offset_def
  subscribe_live_def queue_of_def

lemma example_sse_steps:
  "\<exists>g1 b1 g2 b2 g3 b3. sse_next (example_sse [''faults'']) example_bus = (Data 0 ''a'', g1, b1)
     \<and> sse_next g1 b1 = (Heartbeat, g2, b2) \<and> sg_phase g2 = Live 0
     \<and> sse_next g2 (bus_step b2 (Publish ''faults'' ''b'')) = (Data 1 ''b'', g3, b3)"
  by (simp add: sse_evaluate put_queue_def put_nowait_def)

theorem sse_stream_in_order_witness:
  "\<exists>ops g b cs. sse_run example_bus (example_sse [''faults'']) ops g b cs
     \<and> sent cs = [(0, ''a''), (1, ''b'')] \<and> fst (sse_next g b) = End"
proof -
  obtain g1 b1 g2 b2 g3 b3 where s: "sse_next (example_sse [''faults'']) example_bus = (Data 0 ''a'', g1, b1)"
    "sse_next g1 b1 = (Heartbeat, g2, b2)" "sg_phase g2 = Live 0"
    "sse_next g2 (bus_step b2 (Publish ''faults'' ''b'')) = (Data 1 ''b'', g3, b3)"
    using example_sse_steps by blast
  have "sse_run example_bus (example_sse [''faults'']) ([] @ [Publish ''faults'' ''b'']) g3 b3
      ((([] @ [Data 0 ''a'']) @ [Heartbeat]) @ [Data 1 ''b''])"
    by (intro sse_run.resume [OF _ s(4)] sse_run.other sse_run.resume [OF _ s(2)] sse_run.resume [OF _ s(1)] sse_run.start)
      simp
  moreover have "sent ((([] @ [Data 0 ''a'']) @ [Heartbeat]) @ [Data 1 ''b'']) = [(0, ''a''), (1, ''b'')]"
    by (simp add: sent_def map_filter_simps)
  ultimately show ?thesis
    using sse_stream_in_order [of 10 "[Publish ''faults'' ''a'']" "''faults''" "Some 2" 5 _ g3 b3
        "(([] @ [Data 0 ''a'']) @ [Heartbeat]) @ [Data 1 ''b'']", folded example_bus_def example_sse_def]
    by (intro exI [of _ "[] @ [Publish ''faults'' ''b'']"] exI [of _ g3] exI [of _ b3]
        exI [of _ "(([] @ [Data 0 ''a'']) @ [Heartbeat]) @ [Data 1 ''b'']"]) (simp add: all_topics_def)
qed

lemma sse_leaves_queue_example:
  "\<exists>ops g b cs q ts. sse_run example_bus (example_sse [''transactions'', ''transactions'']) ops g b cs
     \<and> sg_phase g = Live q \<and> dget (eb_topics (snd (sse_close g b))) ''transactions'' = Some ts
     \<and> count_list (ts_subscribers ts) q = 1"
proof -
  obtain c g b where s: "sse_next (example_sse [''transactions'', ''transactions'']) example_bus = (c, g, b)" "sg_phase g = Live 0"
    by (simp add: sse_evaluate)
  have r: "sse_run example_bus (example_sse [''transactions'', ''transactions'']) [] g b ([] @ [c])"
    by (rule sse_run.resume [OF sse_run.start s(1)])
  show ?thesis
    using sse_leaves_queue [OF r [unfolded example_bus_def example_sse_def] s(2), of "''transactions''"] r s(2)
    by (intro exI [of _ "[]"] exI [of _ g] exI [of _ b] exI [of _ "[] @ [c]"] exI [of _ 0]) (simp add: all_topics_def)
qed

theorem sse_replay_gap_witness:
  "\<exists>g b c g' b' c'. sse_next (example_sse [''faults'']) example_bus = (c, g, b)
     \<and> sse_next g (bus_step b (Publish ''faults'' ''b'')) = (c', g', b') \<and> 1 \<notin> fst ` set (sent [c, c'])"
proof -
  obtain c g b where s: "sse_next (example_sse [''faults'']) example_bus = (c, g, b)" "sg_phase g = Replay [] []"
    by (simp add: sse_evaluate)
  obtain c' g' b' where s': "sse_next g (bus_step b (Publish ''faults'' ''b'')) = (c', g', b')"
    by (cases "sse_next g (bus_step b (Publish ''faults'' ''b''))") auto
  have r: "sse_run example_bus (example_sse [''faults'']) [] g b ([] @ [c])"
    by (rule sse_run.resume [OF sse_run.start s(1)])
  have "published ''faults'' [Publish ''faults'' ''a''] = [''a'']" by (simp add: published_def map_filter_simps)
  then show ?thesis
    using sse_replay_gap [OF r [unfolded example_bus_def example_sse_def] s(2) _ sse_run.resume [OF sse_run.start s']] s(1) s'
    by (auto simp: all_topics_def Let_def)
qed

end
