(* ===== verification/Routes.thy ===== *)
theory Routes
  imports Api Sse
begin

section \<open>The server: the other routes\<close>

text \<open>
  The remaining routes of \<open>ecn/api.py\<close>: network and node health, the audit queries, polling of
  the event stream, the administration of API keys, and billing. A route is a function of the
  server's state and the request; a query parameter outside its bounds is refused with 422
  before the handler runs. Only the three routes on API keys take credentials: no other handler
  of the file depends on \<open>require_role\<close>.
\<close>

subsection \<open>Network and node health\<close>

definition require_network :: "('sk, 'pk) app \<Rightarrow> http_error + ('sk, 'pk, audit_table) p2p" where
  "require_network a = (case a_network a of None \<Rightarrow> Inl (Http 503) | Some net \<Rightarrow> Inr net)"

definition require_audit :: "('sk, 'pk) app \<Rightarrow> http_error + audit_table audit_log" where
  "require_audit a = (case a_audit_log a of None \<Rightarrow> Inl (Http 503) | Some al \<Rightarrow> Inr al)"

definition list_nodes :: "('sk, 'pk) crypto \<Rightarrow> ('sk, 'pk) app \<Rightarrow> http_error + node_info list" where
  "list_nodes C a = bindE (require_network a) (\<lambda>net. Inr (node_infos C net))"

record network_state_response =
  ns_node_count :: nat
  ns_nodes :: "node_info list"
  ns_total_rounds :: nat
  ns_fault_rounds :: nat
  ns_fault_rate :: rat
  ns_consensus_failure_rounds :: nat

definition network_state :: "('sk, 'pk) crypto \<Rightarrow> ('sk, 'pk) app \<Rightarrow> http_error + network_state_response" where
  "network_state C a =
     bindE (require_network a) (\<lambda>net.
     bindE (require_audit a) (\<lambda>audit.
       let summary = audit_summary_of audit in
       Inr \<lparr>ns_node_count = length (p_servers net), ns_nodes = node_infos C net,
            ns_total_rounds = as_total_rounds summary, ns_fault_rounds = as_fault_rounds summary,
            ns_fault_rate = as_fault_rate summary,
            ns_consensus_failure_rounds = as_consensus_failure_rounds summary\<rparr>))"

record health_response =
  hr_node_id :: string
  hr_state :: node_state
  hr_consecutive_failures :: nat
  hr_last_success_at :: "int option"
  hr_excluded_since :: "int option"
  hr_p95_latency_ms :: "rat option"

definition health_to_dict :: "node_health \<Rightarrow> health_response" where
  "health_to_dict h = \<lparr>hr_node_id = h_node_id h, hr_state = h_state h,
     hr_consecutive_failures = h_consecutive_failures h, hr_last_success_at = h_last_success_at h,
     hr_excluded_since = h_excluded_since h, hr_p95_latency_ms = p95_latency_ms h\<rparr>"

text \<open>\<open>get\<close> of the registry creates the record of a node it does not know.\<close>

definition get_node_health :: "string \<Rightarrow> ('sk, 'pk) app \<Rightarrow> http_error + health_response \<times> ('sk, 'pk) app" where
  "get_node_health node_id a =
     (case a_network a of
        None \<Rightarrow> Inl (Http 503)
      | Some net \<Rightarrow>
          (case get_or_create node_id (p_health net) of (health, reg) \<Rightarrow>
             Inr (health_to_dict health, a\<lparr>a_network := Some (net\<lparr>p_health := reg\<rparr>)\<rparr>)))"

subsection \<open>Audit\<close>

definition get_audit_events ::
  "int \<Rightarrow> int \<Rightarrow> ('sk, 'pk) app \<Rightarrow> http_error + nat \<times> int \<times> tx_response list" where
  "get_audit_events offset limit a =
     bindE (ensure (Http 422) (0 \<le> offset \<and> 1 \<le> limit \<and> limit \<le> 500)) (\<lambda>_.
     bindE (require_audit a) (\<lambda>audit.
       Inr (length (al_events audit), offset,
         map (\<lambda>e. event_to_response e None) (get_events (Some limit) offset audit))))"

definition get_fault_events_route :: "('sk, 'pk) app \<Rightarrow> http_error + nat \<times> tx_response list" where
  "get_fault_events_route a =
     bindE (require_audit a) (\<lambda>audit. let events = get_fault_events audit in
       Inr (length events, map (\<lambda>e. event_to_response e None) events))"

definition get_audit_event :: "int \<Rightarrow> ('sk, 'pk) app \<Rightarrow> http_error + tx_response" where
  "get_audit_event round_id a =
     bindE (require_audit a) (\<lambda>audit. case get_event round_id audit of
       None \<Rightarrow> Inl (Http 404) | Some e \<Rightarrow> Inr (event_to_response e None))"

definition get_audit_summary :: "('sk, 'pk) app \<Rightarrow> http_error + audit_summary" where
  "get_audit_summary a = bindE (require_audit a) (\<lambda>audit. Inr (audit_summary_of audit))"

record replay_entry =
  re_round_id :: int
  re_timestamp :: string
  re_transaction :: json
  re_consensus_reached :: bool
  re_agreed_hash :: "string option"
  re_fault_detected :: bool
  re_faulty_nodes :: "string list"

definition get_replay :: "string option \<Rightarrow> ('sk, 'pk) app \<Rightarrow> http_error + replay_entry list" where
  "get_replay ecn_debug a =
     (if lower (case ecn_debug of None \<Rightarrow> ''true'' | Some v \<Rightarrow> v) \<in> {''false'', ''0'', ''no''} then Inl (Http 403)
      else bindE (require_audit a) (\<lambda>audit.
        Inr (map (\<lambda>e. \<lparr>re_round_id = ae_round_id e, re_timestamp = ae_timestamp e, re_transaction = ae_transaction e,
               re_consensus_reached = ae_consensus_reached e, re_agreed_hash = ae_agreed_hash e,
               re_fault_detected = has_fault e, re_faulty_nodes = ae_faulty_nodes e\<rparr>)
             (get_events None 0 audit))))"

subsection \<open>The event stream\<close>

definition require_event_bus :: "('sk, 'pk) app \<Rightarrow> http_error + json event_bus" where
  "require_event_bus a = (case a_event_bus a of None \<Rightarrow> Inl (Http 503) | Some bus \<Rightarrow> Inr bus)"

definition list_stream_topics :: "('sk, 'pk) app \<Rightarrow> http_error + (string \<times> nat \<times> int) list" where
  "list_stream_topics a = bindE (require_event_bus a) (\<lambda>bus. Inr (topic_info bus))"

record poll_page =
  pg_topic :: string
  pg_offset :: int
  pg_next_offset :: int
  pg_events :: "json stream_event list"

definition poll_bus :: "string \<Rightarrow> int \<Rightarrow> int \<Rightarrow> json event_bus \<Rightarrow> http_error + poll_page" where
  "poll_bus topic offset limit bus =
     (case consume topic offset limit bus of
        Inl _ \<Rightarrow> Inl (Http 404)
      | Inr events \<Rightarrow>
          Inr \<lparr>pg_topic = topic, pg_offset = offset,
               pg_next_offset = (if events = [] then offset else e_seq (last events) + 1), pg_events = events\<rparr>)"

definition poll_topic :: "string \<Rightarrow> int \<Rightarrow> int \<Rightarrow> ('sk, 'pk) app \<Rightarrow> http_error + poll_page" where
  "poll_topic topic offset limit a =
     bindE (ensure (Http 422) (0 \<le> offset \<and> 1 \<le> limit \<and> limit \<le> 500)) (\<lambda>_.
     bindE (require_event_bus a) (\<lambda>bus. poll_bus topic offset limit bus))"

text \<open>The topics of \<open>GET /stream/events\<close>, from the query parameter.\<close>

definition stream_topics :: "string \<Rightarrow> string list" where
  "stream_topics topics = filter (\<lambda>t. t \<noteq> []) (map strip (split_on (CHR '','') topics))"

text \<open>\<open>GET /stream/events\<close>: the generator the response is read from.\<close>

definition stream_events :: "string \<Rightarrow> int option \<Rightarrow> int \<Rightarrow> ('sk, 'pk) app \<Rightarrow> http_error + json sse" where
  "stream_events topics limit backfill a =
     bindE (ensure (Http 422) (pred_option (\<lambda>l. 1 \<le> l) limit \<and> 0 \<le> backfill \<and> backfill \<le> 500)) (\<lambda>_.
     bindE (require_event_bus a) (\<lambda>bus. Inr (sse_generator (stream_topics topics) limit backfill)))"

subsection \<open>Administration of API keys\<close>

text \<open>
  The credentials are the two headers. \<open>guarded\<close> is the dependency of the route: it runs first.
\<close>

record credentials =
  cd_env :: auth_env
  cd_now :: int
  cd_x_api_key :: "string option"
  cd_authorization :: "string option"

definition guarded :: "jwt_lib \<Rightarrow> credentials \<Rightarrow> ('sk, 'pk) app \<Rightarrow> http_error + unit" where
  "guarded L cd a = require_admin L (cd_env cd) (cd_now cd) (a_keys a) (cd_x_api_key cd) (cd_authorization cd)"

definition get_registry :: "('sk, 'pk) app \<Rightarrow> http_error + key_table key_registry" where
  "get_registry a = (case a_keys a of None \<Rightarrow> Inl (Http 503) | Some r \<Rightarrow> Inr r)"

definition issue_api_key ::
  "jwt_lib \<Rightarrow> credentials \<Rightarrow> string \<Rightarrow> string \<Rightarrow> string \<Rightarrow> string \<Rightarrow> string option \<Rightarrow> ('sk, 'pk) app
     \<Rightarrow> http_error + api_key \<times> ('sk, 'pk) app" where
  "issue_api_key L cd uuid token role description tenant_id a =
     bindE (guarded L cd a) (\<lambda>_.
     bindE (get_registry a) (\<lambda>r.
       case issue sqlite_keys uuid token role description tenant_id None None r of
         Inl _ \<Rightarrow> Inl (Http 422)
       | Inr (k, r') \<Rightarrow> Inr (k, a\<lparr>a_keys := Some r'\<rparr>)))"

definition list_api_keys :: "jwt_lib \<Rightarrow> credentials \<Rightarrow> ('sk, 'pk) app \<Rightarrow> http_error + json list" where
  "list_api_keys L cd a = bindE (guarded L cd a) (\<lambda>_. bindE (get_registry a) (\<lambda>r. Inr (list_keys r)))"

definition revoke_api_key ::
  "jwt_lib \<Rightarrow> credentials \<Rightarrow> string \<Rightarrow> ('sk, 'pk) app \<Rightarrow> http_error + ('sk, 'pk) app" where
  "revoke_api_key L cd key_id a =
     bindE (guarded L cd a) (\<lambda>_.
     bindE (get_registry a) (\<lambda>r.
       case revoke sqlite_keys key_id r of
         (found, r') \<Rightarrow> if found then Inr (a\<lparr>a_keys := Some r'\<rparr>) else Inl (Http 404)))"

subsection \<open>Billing\<close>

definition tracker_of :: "string \<Rightarrow> ('sk, 'pk) app \<Rightarrow> http_error + (usage_table, ledger_table) tracker" where
  "tracker_of tenant_id a =
     (if dget (a_tenants a) tenant_id = None then Inl (Http 404)
      else case a_tracker a of None \<Rightarrow> Inl (Http 503) | Some tr \<Rightarrow> Inr tr)"

definition tenant_usage :: "billing_env \<Rightarrow> string \<Rightarrow> ('sk, 'pk) app \<Rightarrow> http_error + usage" where
  "tenant_usage env tenant_id a = bindE (tracker_of tenant_id a) (\<lambda>tr. Inr (get_usage sqlite_billing env tenant_id tr))"

record ledger_response =
  lr_tenant_id :: string
  lr_entries :: "ledger_entry list"
  lr_total_entries :: nat
  lr_total_billed :: rat

text \<open>Amounts have at most three decimals, so rounding their sum to six returns it.\<close>

definition tenant_billing_ledger :: "string \<Rightarrow> ('sk, 'pk) app \<Rightarrow> http_error + ledger_response" where
  "tenant_billing_ledger tenant_id a =
     bindE (tracker_of tenant_id a) (\<lambda>tr.
       let entries = get_billing_ledger sqlite_ledger tenant_id tr in
       Inr \<lparr>lr_tenant_id = tenant_id, lr_entries = entries, lr_total_entries = length entries,
            lr_total_billed = sum_list (map le_billed_amount entries)\<rparr>)"

definition tenant_sla :: "billing_env \<Rightarrow> string \<Rightarrow> ('sk, 'pk) app \<Rightarrow> http_error + sla" where
  "tenant_sla env tenant_id a =
     bindE (tracker_of tenant_id a) (\<lambda>tr. case get_sla env tenant_id tr of None \<Rightarrow> Inl Crash | Some s \<Rightarrow> Inr s)"

definition stripe_webhook ::
  "string \<Rightarrow> string \<Rightarrow> json dict \<Rightarrow> http_error + string \<times> string \<times> stripe_message" where
  "stripe_webhook event_id event_type data =
     (case handle_stripe_event event_id event_type data of Inl _ \<Rightarrow> Inl Crash | Inr r \<Rightarrow> Inr r)"

subsection \<open>Reading node health changes nothing\<close>

text \<open>
  The route enters a fresh record for whatever id it is asked about, also one of no node, but
  neither the health of a node nor who takes part in a broadcast changes.
\<close>

lemma get_node_health_harmless:
  assumes "a_network a = Some net"
  shows "\<exists>r net'. get_node_health n a = Inr (r, a\<lparr>a_network := Some net'\<rparr>) \<and> r = health_to_dict (health_of (p_health net) n)
    \<and> p_servers net' = p_servers net \<and> health_of (p_health net') m = health_of (p_health net) m
    \<and> participates (p_health net') s = participates (p_health net) s"
  using assms health_of_get [of n "p_health net"]
  by (auto simp: get_node_health_def health_of_def participates_def split: prod.split)

subsection \<open>Key administration\<close>

lemma require_admin_key:
  assumes "is_auth_enabled env" and "\<not> is_bearer authorization" and "indexes A r"
  shows "(require_admin L env now (Some r) key authorization = Inr () \<longleftrightarrow>
      (\<exists>k\<in>A. key = Some (k_key k) \<and> k_key k \<noteq> [] \<and> k_role k = ''admin''))
    \<and> require_admin L env now (Some r) key authorization \<in> {Inr (), Inl (Http 401), Inl (Http 403)}"
proof (cases "key = None \<or> key = Some []")
  case True
  then show ?thesis using assms(1,2) by (auto simp: require_admin_def require_role_def)
next
  case False
  then obtain s where s: "key = Some s" "s \<noteq> []" by auto
  show ?thesis using s indexes_lookup [OF assms(3), of s]
    by (auto simp: require_admin_def require_key [OF assms(1,2)] ensure_def)
qed

lemmas key_routes =
  issue_api_key_def revoke_api_key_def list_api_keys_def guarded_def get_registry_def

lemma issue_as_admin:
  assumes "guarded L cd a = Inr ()" and "a_keys a = Some r" and "key_life sqlite_keys empty_registry h r"
    and "dget (kr_keys r) uuid = None" and "lookup token r = None"
  shows "case issue_api_key L cd uuid token role d tid a of
      Inl e \<Rightarrow> e = Http 422 \<and> role \<notin> set all_roles
    | Inr (k, a') \<Rightarrow> role \<in> set all_roles
        \<and> k = \<lparr>k_key_id = uuid, k_key = token, k_role = role, k_description = d, k_tenant_id = tid\<rparr>
        \<and> (\<exists>r'. a' = a\<lparr>a_keys := Some r'\<rparr> \<and> key_life sqlite_keys empty_registry (Issued k # h) r')"
proof (cases "role \<in> set all_roles")
  case True
  let ?k = "\<lparr>k_key_id = uuid, k_key = token, k_role = role, k_description = d, k_tenant_id = tid\<rparr>"
  obtain r' where r': "issue sqlite_keys uuid token role d tid None None r = Inr (?k, r')"
    using True by (simp add: issue_def or_else_def Let_def)
  have "key_life sqlite_keys empty_registry (Issued ?k # h) r'"
    by (rule key_life.issued [OF assms(3) r']) (simp_all add: assms(4,5))
  then show ?thesis using True assms(1,2) by (auto simp: key_routes r')
qed (use assms(1,2) in \<open>simp add: key_routes issue_def\<close>)

lemma revoke_as_admin:
  assumes "guarded L cd a = Inr ()" and "a_keys a = Some r" and "key_life sqlite_keys empty_registry h r"
    and "indexes (live h) r"
  shows "case revoke_api_key L cd i a of
      Inl e \<Rightarrow> e = Http 404 \<and> i \<notin> k_key_id ` live h
    | Inr a' \<Rightarrow> i \<in> k_key_id ` live h
        \<and> (\<exists>r'. a' = a\<lparr>a_keys := Some r'\<rparr> \<and> key_life sqlite_keys empty_registry (Revoked i # h) r')"
proof -
  obtain b r' where r': "revoke sqlite_keys i r = (b, r')" by fastforce
  have "b \<longleftrightarrow> (\<exists>k. dget (kr_keys r) i = Some k)" using r' by (auto simp: revoke_def split: option.splits)
  also have "\<dots> \<longleftrightarrow> i \<in> k_key_id ` live h" unfolding indexes_key [OF assms(4)] by auto
  finally show ?thesis using assms(1,2) key_life.revoked [OF assms(3) r'] by (auto simp: key_routes r')
qed

text \<open>Key administration: with authentication enabled, the three routes answer exactly the requests
  that present the secret of a live admin key, and refuse all others with 401 or 403, changing
  nothing. To an admin, issuing refuses exactly the unknown roles and otherwise adds the key to
  the live ones, and revoking refuses exactly the ids of no live key and otherwise removes that
  key from the live ones, at once, even the one the request was made with.\<close>

lemma key_administration:
  assumes "key_life sqlite_keys empty_registry h r" and "a_keys a = Some r"
    and "is_auth_enabled (cd_env cd)" and "\<not> is_bearer (cd_authorization cd)"
    and "uuid \<notin> k_key_id ` live h" and "token \<notin> k_key ` live h"
  shows "if \<exists>k\<in>live h. cd_x_api_key cd = Some (k_key k) \<and> k_key k \<noteq> [] \<and> k_role k = ''admin''
    then (case issue_api_key L cd uuid token role d tid a of
            Inl e \<Rightarrow> e = Http 422 \<and> role \<notin> set all_roles
          | Inr (k, a') \<Rightarrow> role \<in> set all_roles
              \<and> k = \<lparr>k_key_id = uuid, k_key = token, k_role = role, k_description = d, k_tenant_id = tid\<rparr>
              \<and> (\<exists>r'. a' = a\<lparr>a_keys := Some r'\<rparr> \<and> key_life sqlite_keys empty_registry (Issued k # h) r'))
      \<and> (case revoke_api_key L cd i a of
            Inl e \<Rightarrow> e = Http 404 \<and> i \<notin> k_key_id ` live h
          | Inr a' \<Rightarrow> i \<in> k_key_id ` live h
              \<and> (\<exists>r'. a' = a\<lparr>a_keys := Some r'\<rparr> \<and> key_life sqlite_keys empty_registry (Revoked i # h) r'))
      \<and> list_api_keys L cd a = Inr (list_keys r)
    else \<exists>e. e \<in> {Http 401, Http 403} \<and> issue_api_key L cd uuid token role d tid a = Inl e
      \<and> revoke_api_key L cd i a = Inl e \<and> list_api_keys L cd a = Inl e"
proof -
  have ix: "indexes (live h) r"
    using sqlite_registry.life_inv [OF assms(1) sqlite_registry.empty_inv] by (simp add: sqlite_registry.registry_inv_def)
  note g = require_admin_key [OF assms(3,4) ix, of L "cd_now cd" "cd_x_api_key cd", folded assms(2), folded guarded_def]
  have fresh: "dget (kr_keys r) uuid = None" "lookup token r = None"
    using indexes_key [OF ix, of uuid] indexes_lookup [OF ix, of token] assms(5,6)
    by (auto simp: image_iff not_Some_eq [symmetric] simp del: not_Some_eq)
  show ?thesis
  proof (cases "guarded L cd a = Inr ()")
    case True
    have "list_api_keys L cd a = Inr (list_keys r)" using True by (simp add: key_routes assms(2))
    with True g show ?thesis
      using issue_as_admin [OF True assms(2,1) fresh, of role d tid] revoke_as_admin [OF True assms(2,1) ix, of i] by simp
  next
    case False
    then obtain e where "e \<in> {Http 401, Http 403}" "guarded L cd a = Inl e" using g by auto
    then show ?thesis using False g by (auto simp: issue_api_key_def revoke_api_key_def list_api_keys_def)
  qed
qed

lemma key_administration_example:
  "\<exists>h r k a'. key_life sqlite_keys empty_registry h r \<and> live h = {example_key ''1'' ''s'' ''admin''}
    \<and> issue_api_key example_jwt_lib \<lparr>cd_env = example_auth_env [], cd_now = 0, cd_x_api_key = Some ''s'', cd_authorization = None\<rparr>
        ''2'' ''t'' ''auditor'' [] None (example_app\<lparr>a_keys := Some r\<rparr>) = Inr (k, a')
    \<and> k_key k = ''t''"
proof -
  let ?i = "issue sqlite_keys ''1'' ''s'' ''admin'' [] None None None empty_registry"
  let ?cd = "\<lparr>cd_env = example_auth_env [], cd_now = 0, cd_x_api_key = Some ''s'', cd_authorization = None\<rparr>"
  obtain r where r: "?i = Inr (example_key ''1'' ''s'' ''admin'', r)"
    by (simp add: issue_def all_roles_def or_else_def example_key_def Let_def)
  have l: "key_life sqlite_keys empty_registry [Issued (example_key ''1'' ''s'' ''admin'')] r"
    by (rule key_life.issued [OF key_life.start r]) (simp_all add: lookup_def)
  have b: "\<not> is_bearer (cd_authorization ?cd)" by (simp add: is_bearer_def)
  have e: "is_auth_enabled (cd_env ?cd)" by (simp add: example_auth_enabled)
  have "\<exists>k a'. issue_api_key example_jwt_lib ?cd ''2'' ''t'' ''auditor'' [] None (example_app\<lparr>a_keys := Some r\<rparr>) = Inr (k, a') \<and> k_key k = ''t''"
    using key_administration [OF l _ e b, where a = "example_app\<lparr>a_keys := Some r\<rparr>" and uuid = "''2''" and token = "''t''"
      and L = example_jwt_lib and role = "''auditor''" and d = "[]" and tid = None and i = "''1''"]
    by (auto simp: example_key_def all_roles_def split: sum.splits prod.splits)
  then show ?thesis using l by (intro exI [where x = "[Issued (example_key ''1'' ''s'' ''admin'')]"] exI [where x = r]) auto
qed

subsection \<open>A polling client\<close>

text \<open>
  A client that passes the offset of each page to the next request, while the bus goes on: in
  each round the bus runs the given operations, then the client polls with the given limit.
\<close>

fun poll_session :: "string \<Rightarrow> ('sk, 'pk) app \<Rightarrow> (json bus_op list \<times> nat) list \<Rightarrow> int \<Rightarrow> json event_bus
    \<Rightarrow> http_error + int \<times> json stream_event list" where
  "poll_session t a [] offset bus = Inr (offset, [])"
| "poll_session t a ((ops, limit) # rounds) offset bus =
     (let bus = bus_run bus ops in
      bindE (poll_topic t offset (int limit) (a\<lparr>a_event_bus := Some bus\<rparr>)) (\<lambda>page.
      bindE (poll_session t a rounds (pg_next_offset page) bus) (\<lambda>(n, events). Inr (n, pg_events page @ events))))"

lemma bus_run_append: "bus_run (bus_run bus xs) ys = bus_run bus (xs @ ys)"
  by (simp add: bus_run_def)

lemma upt_append: "k \<le> m \<Longrightarrow> m \<le> n \<Longrightarrow> [k..<m] @ [m..<n] = [k..<n]"
  by (metis le_add_diff_inverse upt_add_eq_append)

abbreviation event_at :: "string \<Rightarrow> json list \<Rightarrow> nat \<Rightarrow> json stream_event" where
  "event_at t xs i \<equiv> \<lparr>e_seq = int i, e_topic = t, e_payload = xs ! i\<rparr>"

lemma poll_topic_page:
  assumes "t \<in> set all_topics" and "0 < limit" and "limit \<le> 500" and "0 < maxlen" and "k \<le> length (published t ops)"
  shows "let xs = published t ops; s = max k (length xs - maxlen); n = min (length xs) (s + limit) in
    poll_topic t (int k) (int limit) (a\<lparr>a_event_bus := Some (bus_run (bus_init maxlen) ops)\<rparr>) =
      Inr \<lparr>pg_topic = t, pg_offset = int k, pg_next_offset = int n, pg_events = map (event_at t xs) [s..<n]\<rparr>"
proof -
  let ?xs = "published t ops"
  note r = bus_run_refines [of ops maxlen]
  define s where "s = max k (length ?xs - maxlen)"
  define n where "n = min (length ?xs) (s + limit)"
  have c: "consume t (int k) (int limit) (bus_run (bus_init maxlen) ops) = Inr (map (event_at t ?xs) [s..<n])"
    using consume_refines [OF conjunct1 [OF r] assms(1,2), of k] conjunct2 [OF r] by (simp add: s_def n_def)
  have "(if [s..<n] = [] then int k else int (last [s..<n]) + 1) = int n"
    using assms(2,4,5) by (auto simp: s_def n_def last_upt of_nat_diff)
  then show ?thesis using assms(2,3)
    by (auto simp: poll_topic_def poll_bus_def require_event_bus_def ensure_def c Let_def last_map s_def [symmetric] n_def [symmetric]
        split: if_splits)
qed

lemma poll_session_exact:
  assumes "t \<in> set all_topics" and "0 < maxlen"
  shows "\<forall>rd\<in>set rounds. 0 < snd rd \<and> snd rd \<le> 500 \<Longrightarrow> k \<le> length (published t before) \<Longrightarrow>
    \<exists>n is. poll_session t a rounds (int k) (bus_run (bus_init maxlen) before) =
        Inr (int n, map (event_at t (published t (before @ concat (map fst rounds)))) is)
      \<and> sorted_wrt (<) is \<and> set is \<subseteq> {k..<n} \<and> k \<le> n \<and> n \<le> length (published t (before @ concat (map fst rounds)))
      \<and> (length (published t (before @ concat (map fst rounds))) \<le> maxlen \<longrightarrow> is = [k..<n])
      \<and> (rounds \<noteq> [] \<and> length (published t (before @ concat (map fst rounds))) \<le> snd (last rounds)
          \<longrightarrow> n = length (published t (before @ concat (map fst rounds))))"
proof (induction rounds arbitrary: k before)
  case Nil
  then show ?case by (intro exI [where x = k] exI [where x = "[]"]) simp
next
  case (Cons rd rounds)
  obtain ops limit where rd: "rd = (ops, limit)" by fastforce
  let ?xs = "published t (before @ ops)" and ?all = "published t (before @ concat (map fst (rd # rounds)))"
  let ?bus = "bus_run (bus_init maxlen) (before @ ops)"
  define s where "s = max k (length ?xs - maxlen)"
  define m where "m = min (length ?xs) (s + limit)"
  have k: "k \<le> length ?xs" using Cons.prems(2) by (simp add: published_append)
  have pg: "poll_topic t (int k) (int limit) (a\<lparr>a_event_bus := Some ?bus\<rparr>) =
      Inr \<lparr>pg_topic = t, pg_offset = int k, pg_next_offset = int m, pg_events = map (event_at t ?xs) [s..<m]\<rparr>"
    using poll_topic_page [OF assms(1) _ _ assms(2) k, of limit a] Cons.prems(1) by (simp add: rd Let_def s_def m_def)
  have all: "?all = published t ((before @ ops) @ concat (map fst rounds))" by (simp add: rd)
  have pre: "?all = ?xs @ published t (concat (map fst rounds))" by (simp add: rd published_append)
  have km: "k \<le> m" "m \<le> length ?xs" "s \<le> m \<or> [s..<m] = []" "k \<le> s" using k by (auto simp: m_def s_def)
  obtain n "is" where ih: "poll_session t a rounds (int m) ?bus = Inr (int n, map (event_at t ?all) is)"
    "sorted_wrt (<) is" "set is \<subseteq> {m..<n}" "m \<le> n" "n \<le> length ?all" "length ?all \<le> maxlen \<longrightarrow> is = [m..<n]"
    "rounds \<noteq> [] \<and> length ?all \<le> snd (last rounds) \<longrightarrow> n = length ?all"
    using Cons.IH [of m "before @ ops"] Cons.prems(1) km unfolding all by auto
  have ev: "map (event_at t ?xs) [s..<m] = map (event_at t ?all) [s..<m]"
    using km(2) unfolding pre by (intro map_cong) (auto simp: nth_append)
  have "poll_session t a (rd # rounds) (int k) (bus_run (bus_init maxlen) before) =
      Inr (int n, map (event_at t ?all) ([s..<m] @ is))"
    by (simp add: rd bus_run_append Let_def pg ih(1) [unfolded rd] ev [unfolded rd])
  moreover have "sorted_wrt (<) ([s..<m] @ is)" using ih(2,3) by (auto simp: sorted_wrt_append)
  moreover have "length ?all \<le> maxlen \<longrightarrow> [s..<m] @ is = [k..<n]"
  proof
    assume le: "length ?all \<le> maxlen"
    then have "length ?xs \<le> maxlen" unfolding pre by simp
    then have "s = k" by (simp add: s_def)
    then show "[s..<m] @ is = [k..<n]" using le ih(4,6) km(1) upt_append [of k m n] by simp
  qed
  moreover have "length ?all \<le> snd (last (rd # rounds)) \<longrightarrow> n = length ?all"
    using ih(4,5,7) by (cases "rounds = []") (auto simp: rd m_def)
  moreover have "set ([s..<m] @ is) \<subseteq> {k..<n}" using ih(3,4) km by auto
  ultimately show ?case using ih(5) km(1) ih(4) by (intro exI [where x = n] exI [where x = "[s..<m] @ is"]) auto
qed

text \<open>C40. A client that polls \<open>/stream/{topic}\<close> from offset zero and passes on the offset it was given,
  while events go on being published, gets every event at most once, in the order of publication
  and under its sequence number; it gets all of them without a gap as long as no more were
  published than the ring buffer holds; and after a last poll whose limit is at least the number
  of events it has caught up.\<close>

theorem polling_client:
  assumes "t \<in> set all_topics" and "0 < maxlen" and "\<forall>rd\<in>set rounds. 0 < snd rd \<and> snd rd \<le> 500"
  shows "let all = published t (concat (map fst rounds)) in
    \<exists>n is. poll_session t a rounds 0 (bus_init maxlen) = Inr (int n, map (event_at t all) is)
      \<and> sorted_wrt (<) is \<and> set is \<subseteq> {..<n} \<and> n \<le> length all
      \<and> (length all \<le> maxlen \<longrightarrow> is = [0..<n])
      \<and> (rounds \<noteq> [] \<and> length all \<le> snd (last rounds) \<longrightarrow> n = length all)"
  using poll_session_exact [OF assms(1,2,3), of 0 "[]" a] by (simp add: bus_run_def Let_def lessThan_atLeast0)

theorem polling_client_witness:
  "\<exists>n is. poll_session ''faults'' example_app
       [([Publish ''faults'' JNull], 1), ([Publish ''transactions'' JNull], 5), ([Publish ''faults'' (JStr ''x'')], 500)]
       0 (bus_init 1000) = Inr (int n, map (event_at ''faults'' [JNull, JStr ''x'']) is) \<and> n = 2 \<and> is = [0..<2]"
proof -
  let ?rounds = "[([Publish ''faults'' JNull], 1), ([Publish ''transactions'' JNull], 5), ([Publish ''faults'' (JStr ''x'')], 500)] :: (json bus_op list \<times> nat) list"
  have all: "published ''faults'' (concat (map fst ?rounds)) = [JNull, JStr ''x'']"
    by (simp add: published_def map_filter_simps)
  have "''faults'' \<in> set all_topics" "0 < (1000 :: nat)" "\<forall>rd\<in>set ?rounds. 0 < snd rd \<and> snd rd \<le> 500"
    by (simp_all add: all_topics_def)
  from polling_client [OF this, of example_app, unfolded Let_def all] obtain n "is" where
    "poll_session ''faults'' example_app ?rounds 0 (bus_init 1000) = Inr (int n, map (event_at ''faults'' [JNull, JStr ''x'']) is)"
    "length [JNull, JStr ''x''] \<le> 1000 \<longrightarrow> is = [0..<n]"
    "?rounds \<noteq> [] \<and> length [JNull, JStr ''x''] \<le> snd (last ?rounds) \<longrightarrow> n = length [JNull, JStr ''x'']"
    by (elim exE conjE) (rule that)
  moreover from this(2,3) have "n = 2" "is = [0..<2]" by (simp_all add: numeral_2_eq_2)
  ultimately show ?thesis by blast
qed

end
