(* ===== verification/Client.thy ===== *)
theory Client
  imports Routes
begin

section \<open>The Python client\<close>

text \<open>
  \<open>ecn/sdk.py\<close>: the requests each method of \<open>ECNClient\<close> makes and what it returns or raises. What
  lies between the client and a handler is third-party code, the HTTP session and FastAPI, and a
  parameter: \<open>serves\<close> states what it is documented to do with the routes that \<open>ecn/api.py\<close> and
  \<open>ecn/tenant.py\<close> declare. Time-outs and connection errors, which propagate to the caller, are not
  modelled; a detail of an error is any JSON value.

  The lemmas show that each method reaches the route it is meant for, also where several routes
  match, and that its result or exception is the outcome of that route, with its effect on the
  server and no other.
\<close>

datatype http_method = GET | POST | DELETE

record request =
  rq_method :: http_method
  rq_url :: string
  rq_params :: "(string \<times> int) list"
  rq_body :: "json option"
  rq_headers :: "string dict"

text \<open>\<open>rs_json\<close> is what \<open>resp.json()\<close> returns, \<open>None\<close> if it raises.\<close>

record response =
  rs_status_code :: nat
  rs_text :: string
  rs_json :: "json option"

type_synonym 's transport = "request \<Rightarrow> 's \<Rightarrow> response \<times> 's"

datatype ecn_error =
    ECNError nat json
  | ECNNotFoundError nat json
  | ECNTransactionError nat json
  | JSONDecodeError

type_synonym 's api_call = "'s \<Rightarrow> (ecn_error + json option) \<times> 's"

subsection \<open>The client\<close>

record client =
  cl_base_url :: string
  cl_headers :: "string dict"

definition rstrip_slash :: "string \<Rightarrow> string" where
  "rstrip_slash s = rev (dropWhile (\<lambda>c. c = CHR ''/'') (rev s))"

definition client_init :: "string \<Rightarrow> string option \<Rightarrow> client" where
  "client_init base_url api_key =
     \<lparr>cl_base_url = rstrip_slash base_url,
      cl_headers = (''Content-Type'', ''application/json'') #
        (case api_key of None \<Rightarrow> [] | Some k \<Rightarrow> if k = [] then [] else [(''X-API-Key'', k)])\<rparr>"

definition error_detail :: "response \<Rightarrow> json" where
  "error_detail resp =
     (case rs_json resp of
        Some (JObj kvs) \<Rightarrow> (case dget kvs ''detail'' of Some d \<Rightarrow> d | None \<Rightarrow> JStr (rs_text resp))
      | _ \<Rightarrow> JStr (rs_text resp))"

definition handle_response :: "response \<Rightarrow> ecn_error + json option" where
  "handle_response resp =
     (let status = rs_status_code resp in
      if status = 204 then Inr None
      else if status = 404 then Inl (ECNNotFoundError status (error_detail resp))
      else if status = 422 then Inl (ECNTransactionError status (error_detail resp))
      else if \<not> status < 400 then Inl (ECNError status (error_detail resp))
      else if rs_text resp \<noteq> [] then
        (case rs_json resp of None \<Rightarrow> Inl JSONDecodeError | Some j \<Rightarrow> Inr (Some j))
      else Inr None)"

definition client_send :: "'s transport \<Rightarrow> client \<Rightarrow> http_method \<Rightarrow> string \<Rightarrow> (string \<times> int) list \<Rightarrow> json option \<Rightarrow> 's api_call" where
  "client_send T c method path params body s =
     (case T \<lparr>rq_method = method, rq_url = cl_base_url c @ path, rq_params = params, rq_body = body,
              rq_headers = cl_headers c\<rparr> s of
        (resp, s') \<Rightarrow> (handle_response resp, s'))"

definition client_get :: "'s transport \<Rightarrow> client \<Rightarrow> string \<Rightarrow> (string \<times> int) list \<Rightarrow> 's api_call" where
  "client_get T c path params = client_send T c GET path params None"

definition client_post :: "'s transport \<Rightarrow> client \<Rightarrow> string \<Rightarrow> json \<Rightarrow> 's api_call" where
  "client_post T c path body = client_send T c POST path [] (Some body)"

definition client_delete :: "'s transport \<Rightarrow> client \<Rightarrow> string \<Rightarrow> 's api_call" where
  "client_delete T c path = client_send T c DELETE path [] None"

subsection \<open>Its methods\<close>

text \<open>\<open>{"type": tx_type, **fields}\<close>: the keyword arguments are entered after the type.\<close>

definition submit_body :: "string \<Rightarrow> (string \<times> json) list \<Rightarrow> json" where
  "submit_body kind kwargs = JObj (foldl (\<lambda>d (k, v). dset k v d) [(''type'', JStr kind)] kwargs)"

definition client_submit :: "'s transport \<Rightarrow> client \<Rightarrow> string \<Rightarrow> (string \<times> json) list \<Rightarrow> 's api_call" where
  "client_submit T c kind kwargs = client_post T c ''/transactions'' (submit_body kind kwargs)"

definition client_ship :: "'s transport \<Rightarrow> client \<Rightarrow> string \<Rightarrow> string \<Rightarrow> string \<Rightarrow> 's api_call" where
  "client_ship T c product_id destination shipper =
     client_submit T c ''ship'' [(''product_id'', JStr product_id), (''destination'', JStr destination),
       (''shipper'', JStr shipper)]"

definition client_receive :: "'s transport \<Rightarrow> client \<Rightarrow> string \<Rightarrow> string \<Rightarrow> bool \<Rightarrow> 's api_call" where
  "client_receive T c product_id receiver at_customs =
     client_submit T c ''receive'' [(''product_id'', JStr product_id), (''receiver'', JStr receiver),
       (''at_customs'', JBool at_customs)]"

definition client_inspect :: "'s transport \<Rightarrow> client \<Rightarrow> string \<Rightarrow> string \<Rightarrow> string \<Rightarrow> 's api_call" where
  "client_inspect T c product_id check_name inspector =
     client_submit T c ''inspect'' [(''product_id'', JStr product_id), (''check_name'', JStr check_name),
       (''inspector'', JStr inspector)]"

definition client_quarantine :: "'s transport \<Rightarrow> client \<Rightarrow> string \<Rightarrow> string \<Rightarrow> 's api_call" where
  "client_quarantine T c product_id reason =
     client_submit T c ''quarantine'' [(''product_id'', JStr product_id), (''reason'', JStr reason)]"

definition client_release :: "'s transport \<Rightarrow> client \<Rightarrow> string \<Rightarrow> string \<Rightarrow> 's api_call" where
  "client_release T c product_id released_by =
     client_submit T c ''release'' [(''product_id'', JStr product_id), (''released_by'', JStr released_by)]"

definition client_nodes :: "'s transport \<Rightarrow> client \<Rightarrow> 's api_call" where
  "client_nodes T c = client_get T c ''/network/nodes'' []"

definition client_network_state :: "'s transport \<Rightarrow> client \<Rightarrow> 's api_call" where
  "client_network_state T c = client_get T c ''/network/state'' []"

definition client_audit_events :: "'s transport \<Rightarrow> client \<Rightarrow> int \<Rightarrow> int \<Rightarrow> 's api_call" where
  "client_audit_events T c limit offset =
     client_get T c ''/audit/events'' [(''limit'', limit), (''offset'', offset)]"

definition client_fault_events :: "'s transport \<Rightarrow> client \<Rightarrow> 's api_call" where
  "client_fault_events T c = client_get T c ''/audit/events/faults'' []"

definition client_audit_event :: "'s transport \<Rightarrow> client \<Rightarrow> int \<Rightarrow> 's api_call" where
  "client_audit_event T c round_id = client_get T c (''/audit/events/'' @ str_int round_id) []"

definition client_audit_summary :: "'s transport \<Rightarrow> client \<Rightarrow> 's api_call" where
  "client_audit_summary T c = client_get T c ''/audit/summary'' []"

definition client_replay :: "'s transport \<Rightarrow> client \<Rightarrow> 's api_call" where
  "client_replay T c = client_get T c ''/audit/replay'' []"

definition client_subscribe_webhook :: "'s transport \<Rightarrow> client \<Rightarrow> string \<Rightarrow> string list option \<Rightarrow> 's api_call" where
  "client_subscribe_webhook T c url events =
     client_post T c ''/webhooks'' (JObj [(''url'', JStr url),
       (''events'', JList (map JStr (case events of None \<Rightarrow> [] | Some es \<Rightarrow> es)))])"

definition client_list_webhooks :: "'s transport \<Rightarrow> client \<Rightarrow> 's api_call" where
  "client_list_webhooks T c = client_get T c ''/webhooks'' []"

definition client_unsubscribe_webhook :: "'s transport \<Rightarrow> client \<Rightarrow> string \<Rightarrow> 's api_call" where
  "client_unsubscribe_webhook T c webhook_id = client_delete T c (''/webhooks/'' @ webhook_id)"

lemmas client_requests = client_get_def client_post_def client_delete_def client_submit_def
  client_nodes_def client_network_state_def client_audit_events_def client_fault_events_def client_audit_event_def
  client_audit_summary_def client_replay_def client_subscribe_webhook_def client_list_webhooks_def
  client_unsubscribe_webhook_def

subsection \<open>Routing\<close>

text \<open>
  The routes as their decorators declare them throughout \<open>ecn/tenant.py\<close> and \<open>ecn/api.py\<close>, in the order
  in which the application holds them: the tenants' router is included before the routes of the
  application itself are declared.
\<close>

definition tenant_routes :: "(http_method \<times> string \<times> string) list" where
  "tenant_routes = [
     (POST, ''/tenants'', ''create_tenant''),
     (GET, ''/tenants'', ''list_tenants''),
     (DELETE, ''/tenants/{tenant_id}'', ''delete_tenant''),
     (POST, ''/tenants/{tenant_id}/transactions'', ''tenant_submit_transaction''),
     (GET, ''/tenants/{tenant_id}/network/state'', ''tenant_network_state''),
     (GET, ''/tenants/{tenant_id}/audit/events'', ''tenant_audit_events''),
     (GET, ''/tenants/{tenant_id}/audit/summary'', ''tenant_audit_summary''),
     (POST, ''/tenants/{tenant_id}/webhooks'', ''tenant_subscribe_webhook''),
     (GET, ''/tenants/{tenant_id}/webhooks'', ''tenant_list_webhooks''),
     (DELETE, ''/tenants/{tenant_id}/webhooks/{webhook_id}'', ''tenant_unsubscribe_webhook'')]"

definition app_routes :: "(http_method \<times> string \<times> string) list" where
  "app_routes = tenant_routes @ [
     (POST, ''/transactions'', ''submit_transaction''),
     (GET, ''/transactions/{tx_id}'', ''get_transaction_status''),
     (GET, ''/network/nodes'', ''list_nodes''),
     (GET, ''/network/state'', ''network_state''),
     (GET, ''/audit/events'', ''get_audit_events''),
     (GET, ''/audit/events/faults'', ''get_fault_events''),
     (GET, ''/audit/events/{round_id}'', ''get_audit_event''),
     (GET, ''/audit/summary'', ''get_audit_summary''),
     (GET, ''/network/nodes/{node_id}/health'', ''get_node_health''),
     (GET, ''/audit/replay'', ''get_replay''),
     (POST, ''/webhooks'', ''subscribe_webhook''),
     (GET, ''/webhooks'', ''list_webhooks''),
     (DELETE, ''/webhooks/{webhook_id}'', ''unsubscribe_webhook''),
     (GET, ''/stream/topics'', ''list_stream_topics''),
     (GET, ''/stream/topics/{topic}'', ''poll_topic''),
     (GET, ''/stream/events'', ''stream_events''),
     (POST, ''/admin/api-keys'', ''issue_api_key''),
     (GET, ''/admin/api-keys'', ''list_api_keys''),
     (DELETE, ''/admin/api-keys/{key_id}'', ''revoke_api_key''),
     (GET, ''/tenants/{tenant_id}/usage'', ''tenant_usage''),
     (GET, ''/tenants/{tenant_id}/billing-ledger'', ''tenant_billing_ledger''),
     (GET, ''/tenants/{tenant_id}/sla'', ''tenant_sla''),
     (POST, ''/billing/stripe-webhook'', ''stripe_webhook'')]"

text \<open>Matching as FastAPI documents it: segment by segment, a parameter matches any text that is not
  empty, and the first route that matches is taken.\<close>

definition is_param :: "string \<Rightarrow> bool" where
  "is_param seg \<longleftrightarrow> (case seg of [] \<Rightarrow> False | c # _ \<Rightarrow> c = CHR ''{'')"

fun match_segments :: "string list \<Rightarrow> string list \<Rightarrow> string list option" where
  "match_segments [] [] = Some []"
| "match_segments (seg # segs) (p # ps) =
     (if is_param seg then if p = [] then None else map_option (Cons p) (match_segments segs ps)
      else if seg = p then match_segments segs ps else None)"
| "match_segments _ _ = None"

fun resolve :: "(http_method \<times> string \<times> string) list \<Rightarrow> http_method \<Rightarrow> string \<Rightarrow> (string \<times> string list) option" where
  "resolve [] method path = None"
| "resolve ((m, template, handler) # routes) method path =
     (case if m = method then match_segments (split_on (CHR ''/'') template) (split_on (CHR ''/'') path) else None of
        Some args \<Rightarrow> Some (handler, args)
      | None \<Rightarrow> resolve routes method path)"

text \<open>Characters that travel in a URL unchanged.\<close>

definition url_char :: "char \<Rightarrow> bool" where
  "url_char c \<longleftrightarrow> is_digit c \<or> (CHR ''a'' \<le> c \<and> c \<le> CHR ''z'') \<or> (CHR ''A'' \<le> c \<and> c \<le> CHR ''Z'')
     \<or> c \<in> {CHR ''-'', CHR ''_'', CHR ''.'', CHR ''~''}"

definition url_path :: "string \<Rightarrow> bool" where
  "url_path path \<longleftrightarrow> (\<forall>c\<in>set path. url_char c \<or> c = CHR ''/'')"

definition url_segment :: "string \<Rightarrow> bool" where
  "url_segment s \<longleftrightarrow> s \<noteq> [] \<and> (\<forall>c\<in>set s. url_char c)"

lemma url_char_no_slash: "\<not> url_char (CHR ''/'')"
  by (simp add: url_char_def is_digit_def less_eq_char_def)

lemma split_segment:
  "url_segment s \<Longrightarrow> split_on (CHR ''/'') s = [s]"
  using url_char_no_slash by (intro split_on_none) (auto simp: url_segment_def)

lemma url_segment_str_int: "url_segment (str_int i)"
  using hd_str_int [of i] str_int_chars [of _ i] by (auto simp: url_segment_def url_char_def)

lemma str_int_not_faults: "str_int i \<noteq> ''faults''"
  using str_int_chars [of "CHR ''f''" i] by (auto simp: is_digit_def)

lemmas routing = app_routes_def tenant_routes_def is_param_def

lemma resolve_fixed:
  "resolve app_routes POST ''/transactions'' = Some (''submit_transaction'', [])"
  "resolve app_routes GET ''/network/nodes'' = Some (''list_nodes'', [])"
  "resolve app_routes GET ''/network/state'' = Some (''network_state'', [])"
  "resolve app_routes GET ''/audit/events'' = Some (''get_audit_events'', [])"
  "resolve app_routes GET ''/audit/events/faults'' = Some (''get_fault_events'', [])"
  "resolve app_routes GET ''/audit/summary'' = Some (''get_audit_summary'', [])"
  "resolve app_routes GET ''/audit/replay'' = Some (''get_replay'', [])"
  "resolve app_routes POST ''/webhooks'' = Some (''subscribe_webhook'', [])"
  "resolve app_routes GET ''/webhooks'' = Some (''list_webhooks'', [])"
  by (simp_all add: routing)

lemma resolve_round: "resolve app_routes GET (''/audit/events/'' @ str_int i) = Some (''get_audit_event'', [str_int i])"
  using split_segment [OF url_segment_str_int] str_int_not_faults [of i] url_segment_str_int [of i]
  by (simp add: routing url_segment_def)

lemma resolve_webhook:
  "url_segment w \<Longrightarrow> resolve app_routes DELETE (''/webhooks/'' @ w) = Some (''unsubscribe_webhook'', [w])"
  using split_segment [of w] by (simp add: routing url_segment_def)

subsection \<open>What the server answers\<close>

definition response_json :: "(rat \<Rightarrow> json) \<Rightarrow> tx_response \<Rightarrow> json" where
  "response_json num r = JObj
     [(''tx_id'', JStr (rp_tx_id r)), (''lifecycle_state'', JStr (rp_lifecycle_state r)),
      (''round_id'', JInt (rp_round_id r)), (''timestamp'', JStr (rp_timestamp r)),
      (''transaction'', rp_transaction r), (''consensus_reached'', JBool (rp_consensus_reached r)),
      (''agreed_hash'', json_opt_str (rp_agreed_hash r)),
      (''honest_nodes'', JList (map JStr (rp_honest_nodes r))),
      (''faulty_nodes'', JList (map JStr (rp_faulty_nodes r))),
      (''invalid_sig_nodes'', JList (map JStr (rp_invalid_sig_nodes r))),
      (''votes'', JList (map vote_to_dict (rp_votes r))),
      (''billed_amount'', num (rp_billed_amount r)), (''duration_ms'', JInt (rp_duration_ms r))]"

definition node_info_json :: "(string \<Rightarrow> int) \<Rightarrow> node_info \<Rightarrow> json" where
  "node_info_json port i = JObj
     [(''node_id'', JStr (ni_node_id i)), (''port'', JInt (port (ni_node_id i))),
      (''public_key_hex'', JStr (ni_public_key_hex i)), (''malicious'', JBool (ni_malicious i))]"

definition network_state_json :: "(rat \<Rightarrow> json) \<Rightarrow> (string \<Rightarrow> int) \<Rightarrow> network_state_response \<Rightarrow> json" where
  "network_state_json num port r = JObj
     [(''node_count'', JInt (int (ns_node_count r))), (''nodes'', JList (map (node_info_json port) (ns_nodes r))),
      (''total_rounds'', JInt (int (ns_total_rounds r))), (''fault_rounds'', JInt (int (ns_fault_rounds r))),
      (''fault_rate'', num (ns_fault_rate r)),
      (''consensus_failure_rounds'', JInt (int (ns_consensus_failure_rounds r)))]"

definition summary_json :: "(rat \<Rightarrow> json) \<Rightarrow> audit_summary \<Rightarrow> json" where
  "summary_json num s = JObj
     [(''total_rounds'', JInt (int (as_total_rounds s))), (''fault_rounds'', JInt (int (as_fault_rounds s))),
      (''consensus_failure_rounds'', JInt (int (as_consensus_failure_rounds s))),
      (''fault_rate'', num (as_fault_rate s)),
      (''top_faulty_nodes'', JList (map (\<lambda>(n, k). JList [JStr n, JInt k]) (as_top_faulty_nodes s)))]"

definition replay_json :: "replay_entry list \<Rightarrow> json" where
  "replay_json es = JObj [(''total'', JInt (int (length es))),
     (''replay'', JList (map (\<lambda>e. JObj
       [(''round_id'', JInt (re_round_id e)), (''timestamp'', JStr (re_timestamp e)),
        (''transaction'', re_transaction e), (''consensus_reached'', JBool (re_consensus_reached e)),
        (''agreed_hash'', json_opt_str (re_agreed_hash e)), (''fault_detected'', JBool (re_fault_detected e)),
        (''faulty_nodes'', JList (map JStr (re_faulty_nodes e)))]) es))]"

definition events_page_json :: "(rat \<Rightarrow> json) \<Rightarrow> nat \<times> int \<times> tx_response list \<Rightarrow> json" where
  "events_page_json num = (\<lambda>(n, offset, rs). JObj
     [(''total'', JInt (int n)), (''offset'', JInt offset), (''events'', JList (map (response_json num) rs))])"

definition fault_events_json :: "(rat \<Rightarrow> json) \<Rightarrow> nat \<times> tx_response list \<Rightarrow> json" where
  "fault_events_json num = (\<lambda>(n, rs). JObj
     [(''total'', JInt (int n)), (''events'', JList (map (response_json num) rs))])"

definition webhook_info_json :: "string \<times> string \<times> string list \<Rightarrow> json" where
  "webhook_info_json = (\<lambda>(i, url, events). JObj
     [(''webhook_id'', JStr i), (''url'', JStr url), (''events'', JList (map JStr events))])"

definition subscription_json :: "subscription \<Rightarrow> json" where
  "subscription_json s = JObj
     [(''webhook_id'', JStr (wb_webhook_id s)), (''url'', JStr (wb_url s)),
      (''events'', JList (map JStr (wb_events s))),
      (''message'', JStr ''Webhook registered. You will receive POST requests after each consensus round.'')]"

text \<open>
  The models of the request bodies, for bodies whose fields have the declared types: absent and
  null fields are \<open>None\<close>, other keys are ignored. There is no alias, so the key of \<open>from_\<close> is
  its name.
\<close>

definition field_value :: "(json \<Rightarrow> 'a option) \<Rightarrow> json dict \<Rightarrow> string \<Rightarrow> 'a option option" where
  "field_value get kvs k =
     (case dget kvs k of None \<Rightarrow> Some None | Some JNull \<Rightarrow> Some None | Some j \<Rightarrow> map_option Some (get j))"

fun json_str :: "json \<Rightarrow> string option" where
  "json_str (JStr s) = Some s" | "json_str _ = None"

fun json_bool :: "json \<Rightarrow> bool option" where
  "json_bool (JBool b) = Some b" | "json_bool _ = None"

fun json_int :: "json \<Rightarrow> int option" where
  "json_int (JInt i) = Some i" | "json_int _ = None"

definition request_fields :: "json dict \<Rightarrow> tx option" where
  "request_fields kvs =
     (let s = field_value json_str kvs in
      Option.bind (Option.bind (dget kvs ''type'') json_str) (\<lambda>ty.
      Option.bind (s ''product_id'') (\<lambda>product_id. Option.bind (s ''destination'') (\<lambda>destination.
      Option.bind (s ''shipper'') (\<lambda>shipper. Option.bind (s ''receiver'') (\<lambda>receiver.
      Option.bind (field_value json_bool kvs ''at_customs'') (\<lambda>at_customs.
      Option.bind (s ''check_name'') (\<lambda>check_name. Option.bind (s ''inspector'') (\<lambda>inspector.
      Option.bind (s ''reason'') (\<lambda>reason. Option.bind (s ''released_by'') (\<lambda>released_by.
      Option.bind (s ''from_'') (\<lambda>sender. Option.bind (s ''to'') (\<lambda>receiving.
      Option.bind (field_value json_int kvs ''amount'') (\<lambda>amount.
        Some \<lparr>tx_type = Some ty, tx_product_id = product_id, tx_destination = destination, tx_shipper = shipper,
              tx_receiver = receiver, tx_at_customs = at_customs, tx_check_name = check_name,
              tx_inspector = inspector, tx_reason = reason, tx_released_by = released_by,
              tx_from = sender, tx_to = receiving, tx_amount = amount\<rparr>))))))))))))))"

fun json_strs :: "json list \<Rightarrow> string list option" where
  "json_strs [] = Some []"
| "json_strs (j # js) = Option.bind (json_str j) (\<lambda>s. map_option (Cons s) (json_strs js))"

fun json_str_list :: "json \<Rightarrow> string list option" where
  "json_str_list (JList js) = json_strs js" | "json_str_list _ = None"

definition webhook_fields :: "json dict \<Rightarrow> (string \<times> string list) option" where
  "webhook_fields kvs =
     Option.bind (Option.bind (dget kvs ''url'') json_str) (\<lambda>url.
       case dget kvs ''events'' of
         None \<Rightarrow> Some (url, [])
       | Some j \<Rightarrow> map_option (\<lambda>events. (url, events)) (json_str_list j))"

text \<open>
  What a request depends on besides the server's state. The last five are third-party: how a
  float is written, the ports, the validation of the two bodies and of an integer in a path.
\<close>

record ('sk, 'pk) request_env =
  ev_crypto :: "('sk, 'pk) crypto"
  ev_sha256 :: sha256
  ev_submission :: submission
  ev_uuid :: string
  ev_debug :: "string option"
  ev_float :: "rat \<Rightarrow> json"
  ev_port :: "string \<Rightarrow> int"
  ev_validate_tx :: "json \<Rightarrow> tx option"
  ev_validate_webhook :: "json \<Rightarrow> (string \<times> string list) option"
  ev_path_int :: "string \<Rightarrow> int option"

definition validates :: "('sk, 'pk) request_env \<Rightarrow> bool" where
  "validates E \<longleftrightarrow> (\<forall>kvs t. request_fields kvs = Some t \<longrightarrow> ev_validate_tx E (JObj kvs) = Some t)
     \<and> (\<forall>kvs w. webhook_fields kvs = Some w \<longrightarrow> ev_validate_webhook E (JObj kvs) = Some w)
     \<and> (\<forall>i. ev_path_int E (str_int i) = Some i)"

subsection \<open>Requests and outcomes\<close>

datatype outcome = Reply nat "json option" | Refuse http_error

fun reply :: "nat \<Rightarrow> ('a \<Rightarrow> json) \<Rightarrow> http_error + 'a \<Rightarrow> outcome" where
  "reply status f (Inr x) = Reply status (Some (f x))"
| "reply status f (Inl e) = Refuse e"

definition submit_outcome ::
  "('sk, 'pk) request_env \<Rightarrow> json option \<Rightarrow> ('sk, 'pk) app \<Rightarrow> outcome \<times> ('sk, 'pk) app" where
  "submit_outcome E body a =
     (case Option.bind body (ev_validate_tx E) of
        None \<Rightarrow> (Refuse (Http 422), a)
      | Some t \<Rightarrow>
          (case submit_transaction (ev_crypto E) (ev_sha256 E) (ev_submission E) t a of
             Inl (e, a') \<Rightarrow> (Refuse e, a')
           | Inr (r, a') \<Rightarrow> (Reply 200 (Some (response_json (ev_float E) r)), a')))"

definition subscribe_outcome ::
  "('sk, 'pk) request_env \<Rightarrow> json option \<Rightarrow> ('sk, 'pk) app \<Rightarrow> outcome \<times> ('sk, 'pk) app" where
  "subscribe_outcome E body a =
     (case Option.bind body (ev_validate_webhook E) of
        None \<Rightarrow> (Refuse (Http 422), a)
      | Some (url, events) \<Rightarrow>
          (case subscribe_webhook (ev_uuid E) url events (a_webhooks a) of
             Inl e \<Rightarrow> (Refuse e, a)
           | Inr (sub, reg) \<Rightarrow> (Reply 201 (Some (subscription_json sub)), a\<lparr>a_webhooks := reg\<rparr>)))"

definition unsubscribe_outcome :: "string \<Rightarrow> ('sk, 'pk) app \<Rightarrow> outcome \<times> ('sk, 'pk) app" where
  "unsubscribe_outcome webhook_id a =
     (case unsubscribe_webhook webhook_id (a_webhooks a) of
        Inl e \<Rightarrow> (Refuse e, a) | Inr reg \<Rightarrow> (Reply 204 None, a\<lparr>a_webhooks := reg\<rparr>))"

text \<open>The handlers the client addresses, each declared with its route, with the defaults of their query parameters.\<close>

definition route_outcome ::
  "('sk, 'pk) request_env \<Rightarrow> string \<times> string list \<Rightarrow> (string \<times> int) list \<Rightarrow> json option \<Rightarrow> ('sk, 'pk) app
     \<Rightarrow> (outcome \<times> ('sk, 'pk) app) option" where
  "route_outcome E route params body a =
     (let read = (\<lambda>out. Some (out, a)); num = ev_float E; query = (\<lambda>k d. dget_or params k d) in
      if route = (''submit_transaction'', []) then Some (submit_outcome E body a)
      else if route = (''list_nodes'', []) then
        read (reply 200 (\<lambda>ns. JList (map (node_info_json (ev_port E)) ns)) (list_nodes (ev_crypto E) a))
      else if route = (''network_state'', []) then
        read (reply 200 (network_state_json num (ev_port E)) (network_state (ev_crypto E) a))
      else if route = (''get_audit_events'', []) then
        read (reply 200 (events_page_json num) (get_audit_events (query ''offset'' 0) (query ''limit'' 50) a))
      else if route = (''get_fault_events'', []) then
        read (reply 200 (fault_events_json num) (get_fault_events_route a))
      else if route = (''get_audit_summary'', []) then read (reply 200 (summary_json num) (get_audit_summary a))
      else if route = (''get_replay'', []) then read (reply 200 replay_json (get_replay (ev_debug E) a))
      else if route = (''subscribe_webhook'', []) then Some (subscribe_outcome E body a)
      else if route = (''list_webhooks'', []) then
        read (Reply 200 (Some (JList (map webhook_info_json (list_webhooks (a_webhooks a))))))
      else
        (case route of
           (handler, [arg]) \<Rightarrow>
             if handler = ''get_audit_event'' then
               read (case ev_path_int E arg of
                       None \<Rightarrow> Refuse (Http 422)
                     | Some i \<Rightarrow> reply 200 (response_json num) (get_audit_event i a))
             else if handler = ''unsubscribe_webhook'' then Some (unsubscribe_outcome arg a)
             else None
         | _ \<Rightarrow> None))"

text \<open>
  What FastAPI makes of an outcome: a returned value is the JSON body, an \<open>HTTPException\<close> an object
  with its detail, any other exception a plain 500.
\<close>

fun delivers :: "outcome \<Rightarrow> response \<Rightarrow> bool" where
  "delivers (Reply status (Some j)) r \<longleftrightarrow> rs_status_code r = status \<and> rs_text r \<noteq> [] \<and> rs_json r = Some j"
| "delivers (Reply status None) r \<longleftrightarrow> rs_status_code r = status \<and> rs_text r = []"
| "delivers (Refuse (Http status)) r \<longleftrightarrow> rs_status_code r = status \<and> (\<exists>d. rs_json r = Some (JObj [(''detail'', d)]))"
| "delivers (Refuse Crash) r \<longleftrightarrow> rs_status_code r = 500"

text \<open>
  \<open>T\<close> carries a request to the server at \<open>base\<close>: the handler of the first matching route runs
  once, and what it makes of the request comes back. A path that is not plain text is not
  promised anything.
\<close>

definition serves :: "('sk, 'pk) request_env \<Rightarrow> ('sk, 'pk) app transport \<Rightarrow> string \<Rightarrow> bool" where
  "serves E T base \<longleftrightarrow>
     (\<forall>rq a path route out a'. rq_url rq = base @ path \<and> url_path path
        \<and> resolve app_routes (rq_method rq) path = Some route
        \<and> route_outcome E route (rq_params rq) (rq_body rq) a = Some (out, a')
        \<longrightarrow> (\<exists>r. T rq a = (r, a') \<and> delivers out r))"

text \<open>What the caller of the client sees of an outcome.\<close>

fun seen :: "outcome \<Rightarrow> ecn_error + json option \<Rightarrow> bool" where
  "seen (Reply status j) x \<longleftrightarrow> x = Inr (if status = 204 then None else j)"
| "seen (Refuse (Http status)) x \<longleftrightarrow> (\<exists>d. x = Inl
     (if status = 404 then ECNNotFoundError 404 d else if status = 422 then ECNTransactionError 422 d
      else ECNError status d))"
| "seen (Refuse Crash) x \<longleftrightarrow> (\<exists>d. x = Inl (ECNError 500 d))"

fun usual_status :: "outcome \<Rightarrow> bool" where
  "usual_status (Reply status j) \<longleftrightarrow> 200 \<le> status \<and> status < 300"
| "usual_status (Refuse (Http status)) \<longleftrightarrow> 400 \<le> status"
| "usual_status (Refuse Crash) \<longleftrightarrow> True"

lemma handle_delivered:
  assumes "delivers out r" and "usual_status out"
  shows "seen out (handle_response r)"
proof (cases out)
  case (Reply status j)
  then show ?thesis using assms by (cases j) (auto simp: handle_response_def Let_def)
next
  case (Refuse e)
  then show ?thesis using assms by (cases e) (auto simp: handle_response_def Let_def error_detail_def)
qed

lemma client_send_served:
  assumes "serves E T (cl_base_url c)" and "url_path path" and "resolve app_routes method path = Some route"
    and "route_outcome E route params body a = Some (out, a')" and "usual_status out"
  shows "\<exists>x. client_send T c method path params body a = (x, a') \<and> seen out x"
proof -
  let ?rq = "\<lparr>rq_method = method, rq_url = cl_base_url c @ path, rq_params = params, rq_body = body,
      rq_headers = cl_headers c\<rparr>"
  have "\<exists>r. T ?rq a = (r, a') \<and> delivers out r"
    using assms(1) unfolding serves_def
    by (elim allE [where x = ?rq] allE [where x = a] allE [where x = path] allE [where x = route] allE [where x = out]
        allE [where x = a'] impE) (use assms(2-4) in simp_all)
  then show ?thesis using handle_delivered [OF _ assms(5)] by (auto simp: client_send_def)
qed

lemma url_path_append: "url_path (p @ s) \<longleftrightarrow> url_path p \<and> url_path s"
  by (auto simp: url_path_def)

lemma url_path_fixed:
  "url_path ''/transactions''" "url_path ''/network/nodes''" "url_path ''/network/state''" "url_path ''/audit/events''"
  "url_path ''/audit/events/faults''" "url_path ''/audit/summary''" "url_path ''/audit/replay''" "url_path ''/webhooks''"
  "url_path ''/audit/events/''" "url_path ''/webhooks/''"
  by (simp_all add: url_path_def url_char_def less_eq_char_def)

lemma url_segment_path: "url_segment s \<Longrightarrow> url_path s"
  by (auto simp: url_path_def url_segment_def)

lemma url_path_round: "url_path (''/audit/events/'' @ str_int i)"
  by (simp only: url_path_append url_path_fixed url_segment_path [OF url_segment_str_int] simp_thms)

lemma url_path_webhook: "url_segment w \<Longrightarrow> url_path (''/webhooks/'' @ w)"
  by (simp only: url_path_append url_path_fixed url_segment_path simp_thms)

subsection \<open>Submitting\<close>

fun api_error :: "http_error \<Rightarrow> json \<Rightarrow> ecn_error" where
  "api_error (Http status) d =
     (if status = 404 then ECNNotFoundError 404 d else if status = 422 then ECNTransactionError 422 d
      else ECNError status d)"
| "api_error Crash d = ECNError 500 d"

lemma seen_refuse: "seen (Refuse e) x \<longleftrightarrow> (\<exists>d. x = Inl (api_error e d))"
  by (cases e) auto

lemma settle_statuses:
  assumes "settle_transaction sb rs cr (r, a) = Inl (Http n, a')"
  shows "n = 500 \<or> n = 422"
  using assms
  by (auto simp: settle_transaction_def Let_def advance_def stage_def bindE_Inl_iff split: option.splits sum.splits prod.splits)

lemma submit_statuses:
  assumes "submit_transaction C H sb t a = Inl (Http n, a')"
  shows "400 \<le> n"
proof (cases "a_network a")
  case None
  then show ?thesis using assms by (simp add: submit_transaction_def)
next
  case (Some net)
  then show ?thesis
    using assms by (auto simp: submit_pending Let_def dest!: settle_statuses split: prod.splits sum.splits if_splits)
qed

text \<open>The call submits \<open>t\<close>: it returns what the server returns for it, or raises its refusal.\<close>

definition submits :: "('sk, 'pk) request_env \<Rightarrow> ('sk, 'pk) app api_call \<Rightarrow> tx \<Rightarrow> bool" where
  "submits E call t \<longleftrightarrow> (\<forall>a.
     case submit_transaction (ev_crypto E) (ev_sha256 E) (ev_submission E) t a of
       Inr (r, a') \<Rightarrow> call a = (Inr (Some (response_json (ev_float E) r)), a')
     | Inl (e, a') \<Rightarrow> (\<exists>d. call a = (Inl (api_error e d), a')))"

lemma submit_call:
  assumes "serves E T (cl_base_url c)" and "validates E"
    and "request_fields (foldl (\<lambda>d (k, v). dset k v d) [(''type'', JStr kind)] kwargs) = Some t"
  shows "submits E (client_submit T c kind kwargs) t"
  unfolding submits_def
proof
  fix a
  let ?run = "submit_transaction (ev_crypto E) (ev_sha256 E) (ev_submission E) t a"
  have v: "ev_validate_tx E (submit_body kind kwargs) = Some t"
    using assms(2,3) by (simp add: validates_def submit_body_def)
  have call: "\<exists>x. client_submit T c kind kwargs a = (x, a') \<and> seen out x"
    if "submit_outcome E (Some (submit_body kind kwargs)) a = (out, a')" and "usual_status out" for out a'
    using client_send_served [OF assms(1) url_path_fixed(1) resolve_fixed(1) _ that(2)] that(1)
    by (simp add: client_requests route_outcome_def)
  show "case ?run of
      Inr (r, a') \<Rightarrow> client_submit T c kind kwargs a = (Inr (Some (response_json (ev_float E) r)), a')
    | Inl (e, a') \<Rightarrow> (\<exists>d. client_submit T c kind kwargs a = (Inl (api_error e d), a'))"
  proof (cases ?run)
    case (Inl ea)
    obtain e a' where ea: "ea = (e, a')" by (cases ea)
    have "usual_status (Refuse e)" using Inl submit_statuses by (cases e) (auto simp: ea)
    then show ?thesis
      using call [of "Refuse e" a'] Inl by (auto simp: ea submit_outcome_def v seen_refuse simp del: seen.simps)
  next
    case (Inr ra)
    then show ?thesis using call by (cases ra) (fastforce simp: submit_outcome_def v)
  qed
qed

lemmas typed_body = request_fields_def Let_def field_value_def blank_tx_def

text \<open>C12. Each helper of the client submits the transaction it is named after: with its arguments in
  the fields the handlers read, all others empty, it returns the server's response for that
  transaction as a dict, or raises the error class of the server's refusal, and the server is left
  as the submission leaves it. A transfer through \<open>submit\<close> names its sender \<open>from_\<close>; with the key
  \<open>from\<close>, which the execution engine and the audit trail use, the transaction that is submitted
  has no sender.\<close>

theorem client_submission:
  assumes "serves E T (cl_base_url c)" and "validates E"
  shows "submits E (client_ship T c p d s)
        ((blank_tx ''ship'')\<lparr>tx_product_id := Some p, tx_destination := Some d, tx_shipper := Some s\<rparr>)
    \<and> submits E (client_receive T c p r b)
        ((blank_tx ''receive'')\<lparr>tx_product_id := Some p, tx_receiver := Some r, tx_at_customs := Some b\<rparr>)
    \<and> submits E (client_inspect T c p n i)
        ((blank_tx ''inspect'')\<lparr>tx_product_id := Some p, tx_check_name := Some n, tx_inspector := Some i\<rparr>)
    \<and> submits E (client_quarantine T c p w) ((blank_tx ''quarantine'')\<lparr>tx_product_id := Some p, tx_reason := Some w\<rparr>)
    \<and> submits E (client_release T c p b') ((blank_tx ''release'')\<lparr>tx_product_id := Some p, tx_released_by := Some b'\<rparr>)
    \<and> submits E (client_submit T c ''transfer'' [(''from_'', JStr x), (''to'', JStr y), (''amount'', JInt k)])
        ((blank_tx ''transfer'')\<lparr>tx_from := Some x, tx_to := Some y, tx_amount := Some k\<rparr>)
    \<and> submits E (client_submit T c ''transfer'' [(''from'', JStr x), (''to'', JStr y), (''amount'', JInt k)])
        ((blank_tx ''transfer'')\<lparr>tx_from := None, tx_to := Some y, tx_amount := Some k\<rparr>)"
  unfolding client_ship_def client_receive_def client_inspect_def client_quarantine_def client_release_def
  by (intro conjI; rule submit_call [OF assms]) (simp_all add: typed_body)

subsection \<open>Reading\<close>

lemma reply_usual: "e = Inr v \<or> e = Inl (Http n) \<and> 400 \<le> n \<Longrightarrow> usual_status (reply 200 f e)"
  by (cases e) auto

lemma get_call:
  assumes "serves E T (cl_base_url c)" and "url_path path" and "resolve app_routes GET path = Some route"
    and "route_outcome E route params None a = Some (reply 200 f e, a)"
  shows "e = Inr v \<Longrightarrow> client_get T c path params a = (Inr (Some (f v)), a)"
    and "e = Inl (Http n) \<Longrightarrow> 400 \<le> n \<Longrightarrow> \<exists>d. client_get T c path params a = (Inl (api_error (Http n) d), a)"
proof -
  assume "e = Inr v"
  then show "client_get T c path params a = (Inr (Some (f v)), a)"
    using client_send_served [OF assms(1-4) reply_usual] by (fastforce simp: client_get_def)
next
  assume "e = Inl (Http n)" and "400 \<le> n"
  then show "\<exists>d. client_get T c path params a = (Inl (api_error (Http n) d), a)"
    using client_send_served [OF assms(1-4) reply_usual] by (fastforce simp: client_get_def seen_refuse simp del: seen.simps)
qed

lemma audit_events_call:
  assumes "serves E T (cl_base_url c)"
  shows "get_audit_events offset limit a = Inr v \<Longrightarrow>
      client_audit_events T c limit offset a = (Inr (Some (events_page_json (ev_float E) v)), a)"
    and "get_audit_events offset limit a = Inl (Http n) \<Longrightarrow> 400 \<le> n \<Longrightarrow>
      \<exists>d. client_audit_events T c limit offset a = (Inl (api_error (Http n) d), a)"
  unfolding client_audit_events_def
  by (rule get_call [OF assms url_path_fixed(4) resolve_fixed(4), where f = "events_page_json (ev_float E)"];
      simp add: route_outcome_def Let_def dget_or_def)+

lemma audit_event_call:
  assumes "serves E T (cl_base_url c)" and "validates E"
  shows "get_audit_event i a = Inr v \<Longrightarrow> client_audit_event T c i a = (Inr (Some (response_json (ev_float E) v)), a)"
    and "get_audit_event i a = Inl (Http n) \<Longrightarrow> 400 \<le> n \<Longrightarrow>
      \<exists>d. client_audit_event T c i a = (Inl (api_error (Http n) d), a)"
  unfolding client_audit_event_def
  by (rule get_call [OF assms(1) url_path_round resolve_round, where f = "response_json (ev_float E)"];
      use assms(2) in \<open>simp add: route_outcome_def Let_def validates_def\<close>)+

text \<open>A client reads the audit trail of the server as it is: read in pages of a size the server
  accepts, the pages put together are the events from the first on, none twice and none left out;
  a round asked for by its number is that round, and any other number, also one below one, raises
  \<open>ECNNotFoundError\<close>; the faulty rounds are found although their path also matches the route of
  a round. None of these changes the server.\<close>

lemma client_reads_trail:
  assumes "serves E T (cl_base_url c)" and "validates E" and "a_audit_log a = Some al" and "1 \<le> n" and "n \<le> 500"
  shows "(\<exists>pages. length pages = k \<and> concat pages = take (k * n) (al_events al)
        \<and> (\<forall>i<k. client_audit_events T c (int n) (int (i * n)) a =
            (Inr (Some (events_page_json (ev_float E)
              (length (al_events al), int (i * n), map (\<lambda>e. event_to_response e None) (pages ! i)))), a)))
    \<and> client_fault_events T c a = (Inr (Some (fault_events_json (ev_float E)
          (length (filter has_fault (al_events al)),
           map (\<lambda>e. event_to_response e None) (filter has_fault (al_events al))))), a)
    \<and> (if 1 \<le> i \<and> i \<le> int (length (al_events al))
       then client_audit_event T c i a =
         (Inr (Some (response_json (ev_float E) (event_to_response (al_events al ! nat (i - 1)) None))), a)
       else \<exists>d. client_audit_event T c i a = (Inl (ECNNotFoundError 404 d), a))"
proof -
  let ?page = "\<lambda>i. get_events (Some (int n)) (int (i * n)) al"
  have req: "require_audit a = Inr al" using assms(3) by (simp add: require_audit_def)
  have "get_audit_events (int (i * n)) (int n) a =
      Inr (length (al_events al), int (i * n), map (\<lambda>e. event_to_response e None) (?page i))" for i
    using assms(4,5) by (simp add: get_audit_events_def req ensure_def)
  then have "client_audit_events T c (int n) (int (i * n)) a = (Inr (Some (events_page_json (ev_float E)
      (length (al_events al), int (i * n), map (\<lambda>e. event_to_response e None) (?page i)))), a)" for i
    by (rule audit_events_call(1) [OF assms(1)])
  then have pages: "\<exists>pages. length pages = k \<and> concat pages = take (k * n) (al_events al)
        \<and> (\<forall>i<k. client_audit_events T c (int n) (int (i * n)) a =
            (Inr (Some (events_page_json (ev_float E)
              (length (al_events al), int (i * n), map (\<lambda>e. event_to_response e None) (pages ! i)))), a))"
    using pages_append [of n al k] by (intro exI [of _ "map ?page [0..<k]"]) simp
  have faults: "client_fault_events T c a = (Inr (Some (fault_events_json (ev_float E)
          (length (filter has_fault (al_events al)),
           map (\<lambda>e. event_to_response e None) (filter has_fault (al_events al))))), a)"
    unfolding client_fault_events_def
    by (rule get_call(1) [OF assms(1) url_path_fixed(5) resolve_fixed(5)])
      (simp_all add: route_outcome_def Let_def get_fault_events_route_def req get_fault_events_def)
  have "if 1 \<le> i \<and> i \<le> int (length (al_events al))
       then client_audit_event T c i a =
         (Inr (Some (response_json (ev_float E) (event_to_response (al_events al ! nat (i - 1)) None))), a)
       else \<exists>d. client_audit_event T c i a = (Inl (ECNNotFoundError 404 d), a)"
  proof (cases "1 \<le> i \<and> i \<le> int (length (al_events al))")
    case True
    then have "get_audit_event i a = Inr (event_to_response (al_events al ! nat (i - 1)) None)"
      by (simp add: get_audit_event_def req get_event_def Let_def)
    then show ?thesis using True audit_event_call(1) [OF assms(1,2)] by simp
  next
    case False
    then have "get_audit_event i a = Inl (Http 404)"
      by (auto simp: get_audit_event_def req get_event_def Let_def)
    then show ?thesis using False audit_event_call(2) [OF assms(1,2), of i a 404] by auto
  qed
  with pages faults show ?thesis by blast
qed

subsection \<open>Webhooks\<close>

lemma json_strs_map [simp]: "json_strs (map JStr xs) = Some xs"
  by (induction xs) auto

lemma subscribe_call:
  assumes "serves E T (cl_base_url c)" and "validates E"
  shows "subscribe_webhook (ev_uuid E) url events (a_webhooks a) = Inr (sub, reg) \<Longrightarrow>
      client_subscribe_webhook T c url (Some events) a = (Inr (Some (subscription_json sub)), a\<lparr>a_webhooks := reg\<rparr>)"
    and "subscribe_webhook (ev_uuid E) url events (a_webhooks a) = Inl (Http n) \<Longrightarrow> 400 \<le> n \<Longrightarrow>
      \<exists>d. client_subscribe_webhook T c url (Some events) a = (Inl (api_error (Http n) d), a)"
proof -
  let ?kvs = "[(''url'', JStr url), (''events'', JList (map JStr events))]"
  have "webhook_fields ?kvs = Some (url, events)" by (simp add: webhook_fields_def)
  then have "ev_validate_webhook E (JObj ?kvs) = Some (url, events)" using assms(2) unfolding validates_def by blast
  then have out: "route_outcome E (''subscribe_webhook'', []) [] (Some (JObj ?kvs)) a =
      Some (case subscribe_webhook (ev_uuid E) url events (a_webhooks a) of
         Inl e \<Rightarrow> (Refuse e, a) | Inr (sub, reg) \<Rightarrow> (Reply 201 (Some (subscription_json sub)), a\<lparr>a_webhooks := reg\<rparr>))"
    by (simp add: route_outcome_def Let_def subscribe_outcome_def)
  have call: "\<exists>x. client_subscribe_webhook T c url (Some events) a = (x, a') \<and> seen o' x"
    if "route_outcome E (''subscribe_webhook'', []) [] (Some (JObj ?kvs)) a = Some (o', a')" "usual_status o'" for o' a'
    using client_send_served [OF assms(1) url_path_fixed(8) resolve_fixed(8) that] by (simp add: client_requests)
  show "client_subscribe_webhook T c url (Some events) a = (Inr (Some (subscription_json sub)), a\<lparr>a_webhooks := reg\<rparr>)"
    if "subscribe_webhook (ev_uuid E) url events (a_webhooks a) = Inr (sub, reg)"
    using call [unfolded out] that by fastforce
  show "\<exists>d. client_subscribe_webhook T c url (Some events) a = (Inl (api_error (Http n) d), a)"
    if "subscribe_webhook (ev_uuid E) url events (a_webhooks a) = Inl (Http n)" "400 \<le> n"
    using call [unfolded out] that by (fastforce simp: seen_refuse simp del: seen.simps)
qed

lemma list_webhooks_call:
  assumes "serves E T (cl_base_url c)"
  shows "client_list_webhooks T c a = (Inr (Some (JList (map webhook_info_json (list_webhooks (a_webhooks a))))), a)"
  using client_send_served [OF assms url_path_fixed(8) resolve_fixed(9), where params = "[]" and body = None and a = a]
  by (fastforce simp: client_requests route_outcome_def Let_def)

lemma unsubscribe_call:
  assumes "serves E T (cl_base_url c)" and "url_segment w"
  shows "unsubscribe_webhook w (a_webhooks a) = Inr reg \<Longrightarrow>
      client_unsubscribe_webhook T c w a = (Inr None, a\<lparr>a_webhooks := reg\<rparr>)"
    and "unsubscribe_webhook w (a_webhooks a) = Inl (Http 404) \<Longrightarrow>
      \<exists>d. client_unsubscribe_webhook T c w a = (Inl (ECNNotFoundError 404 d), a)"
  using client_send_served [OF assms(1) url_path_webhook [OF assms(2)] resolve_webhook [OF assms(2)], where params = "[]" and body = None
      and a = a]
  by (fastforce simp: client_requests route_outcome_def Let_def unsubscribe_outcome_def)+

text \<open>A webhook through the client and back: a subscription with known event types and a fresh id
  returns a dict with that id, shows once in \<open>list_webhooks\<close>, behind those that were there, with
  its URL and events; unsubscribing the id returned leaves the server as it was before the
  subscription, and unsubscribing it again raises \<open>ECNNotFoundError\<close>.\<close>

lemma client_webhook_roundtrip:
  assumes "serves E T (cl_base_url c)" and "validates E" and "url_segment (ev_uuid E)"
    and "set events \<subseteq> set webhook_events" and "dget (a_webhooks a) (ev_uuid E) = None"
  shows "\<exists>kvs a'. client_subscribe_webhook T c url (Some events) a = (Inr (Some (JObj kvs)), a')
    \<and> dget kvs ''webhook_id'' = Some (JStr (ev_uuid E))
    \<and> client_list_webhooks T c a' = (Inr (Some (JList (map webhook_info_json
          (list_webhooks (a_webhooks a) @ [(ev_uuid E, url, events)])))), a')
    \<and> client_unsubscribe_webhook T c (ev_uuid E) a' = (Inr None, a)
    \<and> (\<exists>d. client_unsubscribe_webhook T c (ev_uuid E) a = (Inl (ECNNotFoundError 404 d), a))"
proof -
  let ?w = "ev_uuid E" and ?reg = "a_webhooks a"
  let ?sub = "\<lparr>wb_webhook_id = ?w, wb_url = url, wb_events = events\<rparr>"
  let ?a = "a\<lparr>a_webhooks := ?reg @ [(?w, ?sub)]\<rparr>"
  have fresh: "?w \<notin> fst ` set ?reg" using assms(5) by (simp add: map_of_eq_None_iff)
  have "subscribe_webhook ?w url events ?reg = Inr (?sub, ?reg @ [(?w, ?sub)])"
    using assms(4) fresh by (auto simp: subscribe_webhook_def validate_events_def ensure_def subscribe_def Let_def dset_append_new)
  note s = subscribe_call(1) [OF assms(1,2) this]
  have "dpop ?w (?reg @ [(?w, ?sub)]) = ?reg"
    using fresh by (force simp: AList.delete_eq intro!: filter_True)
  moreover have "dget (?reg @ [(?w, ?sub)]) ?w = Some ?sub" using fresh by (force simp: map_add_Some_iff map_of_eq_None_iff)
  ultimately have "unsubscribe_webhook ?w (a_webhooks ?a) = Inr ?reg"
    by (simp add: unsubscribe_webhook_def unsubscribe_def)
  note u = unsubscribe_call(1) [OF assms(1,3) this]
  have "unsubscribe_webhook ?w ?reg = Inl (Http 404)" using assms(5) by (simp add: unsubscribe_webhook_def unsubscribe_def)
  note n = unsubscribe_call(2) [OF assms(1,3) this]
  have l: "list_webhooks (a_webhooks ?a) = list_webhooks ?reg @ [(?w, url, events)]"
    by (simp add: list_webhooks_def list_subscriptions_def)
  show ?thesis
    using s u n list_webhooks_call [OF assms(1), of ?a, unfolded l] by (auto simp: subscription_json_def)
qed

text \<open>The client misreports a bad page as a rejected transaction: for a page size or an offset
  outside the bounds of the route, \<open>audit_events\<close> raises \<open>ECNTransactionError\<close>, the class the
  client documents for transactions the nodes reject, and so does \<open>subscribe_webhook\<close> for an
  unknown event type; no transaction was sent, and the server is unchanged.\<close>

lemma client_validation_errors:
  assumes "serves E T (cl_base_url c)" and "validates E"
    and "limit < 1 \<or> 500 < limit \<or> offset < 0" and "e \<in> set events" and "e \<notin> set webhook_events"
  shows "(\<exists>d. client_audit_events T c limit offset a = (Inl (ECNTransactionError 422 d), a))
    \<and> (\<exists>d. client_subscribe_webhook T c url (Some events) a = (Inl (ECNTransactionError 422 d), a))"
proof
  have "get_audit_events offset limit a = Inl (Http 422)" using assms(3) by (auto simp: get_audit_events_def ensure_def)
  from audit_events_call(2) [OF assms(1) this] show "\<exists>d. client_audit_events T c limit offset a = (Inl (ECNTransactionError 422 d), a)"
    by simp
  show "\<exists>d. client_subscribe_webhook T c url (Some events) a = (Inl (ECNTransactionError 422 d), a)"
  proof -
    have "\<not> set events - set webhook_events = {}" using assms(4,5) by blast
    then have "subscribe_webhook (ev_uuid E) url events (a_webhooks a) = Inl (Http 422)"
      by (simp add: subscribe_webhook_def validate_events_def ensure_def)
    from subscribe_call(2) [OF assms(1,2) this] show ?thesis by simp
  qed
qed

subsection \<open>A server that serves\<close>

text \<open>The hypothesis holds of the transport that runs the handlers as the routes are declared.\<close>

fun response_of :: "outcome \<Rightarrow> response" where
  "response_of (Reply status None) = \<lparr>rs_status_code = status, rs_text = [], rs_json = None\<rparr>"
| "response_of (Reply status (Some j)) = \<lparr>rs_status_code = status, rs_text = ''{}'', rs_json = Some j\<rparr>"
| "response_of (Refuse (Http status)) =
     \<lparr>rs_status_code = status, rs_text = ''{}'', rs_json = Some (JObj [(''detail'', JStr ''refused'')])\<rparr>"
| "response_of (Refuse Crash) = \<lparr>rs_status_code = 500, rs_text = ''Internal Server Error'', rs_json = None\<rparr>"

definition direct_transport :: "('sk, 'pk) request_env \<Rightarrow> string \<Rightarrow> ('sk, 'pk) app transport" where
  "direct_transport E base rq a =
     (case Option.bind (resolve app_routes (rq_method rq) (drop (length base) (rq_url rq)))
         (\<lambda>route. route_outcome E route (rq_params rq) (rq_body rq) a) of
        None \<Rightarrow> (response_of (Refuse (Http 404)), a)
      | Some (out, a') \<Rightarrow> (response_of out, a'))"

lemma delivers_response_of: "delivers out (response_of out)"
  by (cases out rule: response_of.cases) auto

lemma serves_direct: "serves E (direct_transport E base) base"
  using delivers_response_of by (auto simp: serves_def direct_transport_def)

definition parse_int :: "string \<Rightarrow> int" where
  "parse_int s = (if s \<noteq> [] \<and> hd s = CHR ''-'' then - int (nat_value (tl s)) else int (nat_value s))"

lemma parse_str_int: "parse_int (str_int i) = i"
  using hd_str_nat [of "nat i"] by (auto simp: parse_int_def str_int_def is_digit_def)

definition example_env :: "(string, string) request_env" where
  "example_env = \<lparr>ev_crypto = example_crypto, ev_sha256 = example_sha256, ev_submission = example_submission (Delivered 5),
     ev_uuid = ''w-1'', ev_debug = None, ev_float = (\<lambda>r. JInt \<lfloor>r\<rfloor>), ev_port = (\<lambda>_. 18000),
     ev_validate_tx = (\<lambda>j. case j of JObj kvs \<Rightarrow> request_fields kvs | _ \<Rightarrow> None),
     ev_validate_webhook = (\<lambda>j. case j of JObj kvs \<Rightarrow> webhook_fields kvs | _ \<Rightarrow> None),
     ev_path_int = (\<lambda>s. Some (parse_int s))\<rparr>"

lemma validates_example: "validates example_env"
  by (simp add: validates_def example_env_def parse_str_int)

definition example_client :: client where
  "example_client = client_init ''http://localhost:8000/'' None"

abbreviation example_transport :: "(string, string) app transport" where
  "example_transport \<equiv> direct_transport example_env ''http://localhost:8000''"

lemma serves_example: "serves example_env example_transport (cl_base_url example_client)"
  using serves_direct [of example_env "''http://localhost:8000''"]
  by (simp add: example_client_def client_init_def rstrip_slash_def)

theorem client_submission_witness:
  "submits example_env (client_ship example_transport example_client ''LAPTOP-001'' ''port'' ''DHL'')
     ((blank_tx ''ship'')\<lparr>tx_product_id := Some ''LAPTOP-001'', tx_destination := Some ''port'', tx_shipper := Some ''DHL''\<rparr>)"
  using client_submission [OF serves_example validates_example, of "''LAPTOP-001''" "''port''" "''DHL''"] by blast

definition example_audit_app :: "(string, string) app" where
  "example_audit_app = example_app\<lparr>a_network := Some (example_app_net\<lparr>p_audit_log := Some example_log\<rparr>)\<rparr>"

lemma client_reads_trail_example:
  "client_audit_event example_transport example_client 1 example_audit_app =
      (Inr (Some (response_json (ev_float example_env) (event_to_response (al_events example_log ! 0) None))), example_audit_app)
    \<and> (\<exists>d. client_audit_event example_transport example_client 0 example_audit_app = (Inl (ECNNotFoundError 404 d), example_audit_app))"
proof -
  have al: "a_audit_log example_audit_app = Some example_log" "length (al_events example_log) = 1"
    by (simp_all add: example_audit_app_def a_audit_log_def example_log_def example_rounds_def tenant_rounds_def)
  show ?thesis
    using client_reads_trail [OF serves_example validates_example al(1), where n = 10 and i = 1 and k = 1]
      client_reads_trail [OF serves_example validates_example al(1), where n = 10 and i = 0 and k = 1] al(2) by simp
qed

lemma client_webhook_roundtrip_example:
  "\<exists>a'. client_unsubscribe_webhook example_transport example_client ''w-1'' a' = (Inr None, example_app)"
proof -
  have w: "ev_uuid example_env = ''w-1''" "dget (a_webhooks example_app) (ev_uuid example_env) = None"
    "url_segment (ev_uuid example_env)"
    by (simp_all add: example_env_def example_app_def url_segment_def url_char_def is_digit_def less_eq_char_def)
  from client_webhook_roundtrip [OF serves_example validates_example w(3) _ w(2), of "[]" "''http://a''"] w(1)
  show ?thesis by auto
qed

lemma client_validation_errors_example:
  "\<exists>d. client_audit_events example_transport example_client 0 0 example_app = (Inl (ECNTransactionError 422 d), example_app)"
  using client_validation_errors [OF serves_example validates_example, of 0 0 "''bogus''" "[''bogus'']" example_app "''http://a''"]
  by (simp add: webhook_events_def)

end
