(* ===== verification/Session.thy ===== *)
theory Session
  imports Tenant
begin

section \<open>A script that broadcasts\<close>

text \<open>
  The demonstrations and the live dashboard have one form: a network is created, a list of
  transactions is broadcast, one after the other, and what each round decided is asserted or
  printed. \<open>p2p_script\<close> is that loop over a TCP network, with what is done after a round as
  \<open>visit\<close>, which yields what is shown or fails an assertion; \<open>network_script\<close> is the loop over the
  in-process network. A failed assertion ends it, as does a broadcast that raises. The \<open>k\<close>-th
  broadcast has the \<open>k\<close>-th exchange with the nodes.

  The lemmas show what such a script does on a network in good order: every round decides for the
  honest nodes, names the malicious ones, is in the audit trail, and leaves the network in good
  order for the next.
\<close>

datatype script_error = BroadcastError broadcast_error | NodeError exec_error | AssertionError tx

fun p2p_script ::
  "('sk, 'pk) crypto \<Rightarrow> sha256 \<Rightarrow> 's audit_ops \<Rightarrow> (nat \<Rightarrow> exchange)
     \<Rightarrow> (consensus_result \<Rightarrow> ('sk, 'pk, 's) p2p \<Rightarrow> 'r option) \<Rightarrow> nat \<Rightarrow> tx list
     \<Rightarrow> ('sk, 'pk, 's) p2p \<Rightarrow> (script_error + 'r list) \<times> ('sk, 'pk, 's) p2p" where
  "p2p_script C H S ev visit k [] net = (Inr [], net)"
| "p2p_script C H S ev visit k (t # ts) net =
     (case p2p_broadcast C H ecn_handlers S (x_now (ev k)) (x_clock (ev k)) (x_delivery (ev k)) t net of
        (Inl e, net') \<Rightarrow> (Inl (BroadcastError e), net')
      | (Inr (results, cr), net') \<Rightarrow>
          (case visit cr net' of
             None \<Rightarrow> (Inl (AssertionError t), net')
           | Some r \<Rightarrow>
               (case p2p_script C H S ev visit (Suc k) ts net' of
                  (rs, net'') \<Rightarrow> (bindE rs (\<lambda>rs. Inr (r # rs)), net''))))"

fun network_script ::
  "('sk, 'pk) crypto \<Rightarrow> sha256 \<Rightarrow> registry \<Rightarrow> 's audit_ops \<Rightarrow> (nat \<Rightarrow> string) \<Rightarrow> (consensus_result \<Rightarrow> bool) \<Rightarrow> nat \<Rightarrow> tx list
     \<Rightarrow> ('sk, 'pk, 's) network \<Rightarrow> (script_error + consensus_result list) \<times> ('sk, 'pk, 's) network" where
  "network_script C H R S now check k [] net = (Inr [], net)"
| "network_script C H R S now check k (t # ts) net =
     (case network_broadcast C H R S (now k) t net of
        (Inl e, net') \<Rightarrow> (Inl (NodeError e), net')
      | (Inr (rs, cr), net') \<Rightarrow>
          if check cr then
            (case network_script C H R S now check (Suc k) ts net' of
               (r, net'') \<Rightarrow> (bindE r (\<lambda>crs. Inr (cr # crs)), net''))
          else (Inl (AssertionError t), net'))"

text \<open>The states a transaction list leads through.\<close>

fun execute_all :: "registry \<Rightarrow> world \<Rightarrow> tx list \<Rightarrow> exec_error + world list" where
  "execute_all R v [] = Inr []"
| "execute_all R v (t # ts) =
     bindE (execute R v t) (\<lambda>w. bindE (execute_all R w ts) (\<lambda>ws. Inr (w # ws)))"

subsection \<open>A network in good order\<close>

definition roster :: "('sk, 'pk, 's) p2p \<Rightarrow> (string \<times> bool) list" where
  "roster net = map (\<lambda>s. (sv_node_id s, n_malicious (sv_node s))) (p_servers net)"

definition culprits :: "(string \<times> bool) list \<Rightarrow> string list" where
  "culprits ros = map fst (filter snd ros)"

text \<open>Honest nodes are in the majority, and enough of them for the quorum and the required responses.\<close>

definition decisive :: "rat \<Rightarrow> int \<Rightarrow> (string \<times> bool) list \<Rightarrow> bool" where
  "decisive threshold required ros \<longleftrightarrow>
     length (filter snd ros) < length (filter (\<lambda>x. \<not> snd x) ros)
     \<and> threshold * of_nat (length ros) \<le> of_nat (length (filter (\<lambda>x. \<not> snd x) ros))
     \<and> required \<le> int (length ros)"

definition ready :: "('sk, 'pk) crypto \<Rightarrow> bool \<Rightarrow> world \<Rightarrow> ('sk, 'pk, 's) p2p \<Rightarrow> bool" where
  "ready C m v net \<longleftrightarrow> p2p_inv C net \<and> p2p_cohort m v net \<and> wf_world v
     \<and> (\<forall>s\<in>set (p_servers net). participates (p_health net) s)
     \<and> decisive (p_quorum_threshold net) (p_min_responses net) (roster net)"

definition delivering :: "(string \<Rightarrow> delivery) \<Rightarrow> bool" where
  "delivering env \<longleftrightarrow> (\<forall>n. \<exists>l. env n = Delivered l)"

lemma settle_succeeded:
  assumes "distinct (map fst raw)" and "(n, Some (r, l)) \<in> set raw"
  shows "health_of (snd (settle clock raw reg)) n =
    health_success l (fst (clock n)) (snd (clock n)) (health_of reg n)"
  using assms
proof (induction clock raw reg rule: settle.induct)
  case (2 clock k rest reg)
  then have "n \<noteq> k" by (auto intro: rev_image_eqI)
  with 2 show ?case by (simp add: snd_settle health_of_failure del: settle.simps)
next
  case (3 clock k r' l' rest reg)
  show ?case
  proof (cases "n = k")
    case True
    then have "r' = r" "l' = l" "k \<notin> fst ` set rest" using 3(2,3) by (auto intro: rev_image_eqI)
    then show ?thesis
      using True settle_frame [of k rest clock "record_success k l' (fst (clock k)) (snd (clock k)) reg"]
      by (simp add: snd_settle health_of_success del: settle.simps)
  next
    case False
    with 3 show ?thesis by (simp add: snd_settle health_of_success del: settle.simps)
  qed
qed simp

lemma success_not_excluded: "h_state h \<noteq> EXCLUDED \<Longrightarrow> h_state (health_success l t t' h) \<noteq> EXCLUDED"
  by (auto simp: health_success_def Let_def split: node_state.splits)

lemma roster_broadcast: "roster (snd (p2p_broadcast C H R S now clock env t net)) = roster net"
  by (auto simp: roster_def p2p_broadcast_servers server_after_send)

lemma roster_nodes:
  "map n_node_id (filter n_malicious (map sv_node (p_servers net))) = culprits (roster net)"
  "honest_count (map sv_node (p_servers net)) = length (filter (\<lambda>x. \<not> snd x) (roster net))"
  "malicious_count (map sv_node (p_servers net)) = length (filter snd (roster net))"
  by (simp_all add: culprits_def roster_def honest_count_def malicious_count_def filter_map comp_def)

lemma responders_ready:
  assumes "ready C m v net" and "delivering env"
  shows "responders env net = map sv_node (p_servers net)"
  using assms by (auto simp: responders_def ready_def delivering_def reaches_def intro!: arg_cong [where f = "map sv_node"] filter_True)

text \<open>How the votes of a round are filed: id, hash, whether it is signed, and status.\<close>

definition filing :: "string \<Rightarrow> (string \<times> bool) list \<Rightarrow> (string \<times> string \<times> bool \<times> string) list" where
  "filing h ros = map (\<lambda>(n, mal). (n, if mal then corrupt_hash h else h, True, if mal then ''hash_fault'' else ''honest'')) ros"

lemma filed_votes:
  assumes "list_all2 (answers C H m w) nds rs" and "cr_invalid_sig_nodes cr = []"
    and "cr_faulty_nodes cr = map n_node_id (filter n_malicious nds)" and "distinct (map n_node_id nds)"
    and "\<forall>nd\<in>set nds. n_signing_key nd \<noteq> None"
  shows "map (\<lambda>r. (nr_node_id r, nr_state_hash r, nr_signature r \<noteq> None, vote_status cr r)) rs =
    filing (state_hash H m w) (map (\<lambda>nd. (n_node_id nd, n_malicious nd)) nds)"
proof -
  have "map (\<lambda>r. (nr_node_id r, nr_state_hash r, nr_signature r \<noteq> None, vote_status cr r)) rs' =
      filing (state_hash H m w) (map (\<lambda>nd. (n_node_id nd, n_malicious nd)) nds')"
    if "list_all2 (answers C H m w) nds' rs'" "set nds' \<subseteq> set nds" for nds' rs'
    using that
  proof (induction rule: list_all2_induct)
    case (Cons nd nds' r rs')
    have "n_node_id nd \<in> set (cr_faulty_nodes cr) \<longleftrightarrow> n_malicious nd"
      using assms(3,4) Cons.prems by (auto simp: inj_on_def distinct_map dest: inj_onD)
    then show ?case using Cons assms(5) by (simp add: answers_def vote_status_def assms(2) filing_def)
  qed (simp add: filing_def)
  from this [OF assms(1)] show ?thesis by simp
qed

text \<open>One round in good order.\<close>

definition good_round :: "bool \<Rightarrow> sha256 \<Rightarrow> (string \<times> bool) list \<Rightarrow> world \<Rightarrow> consensus_result \<Rightarrow> bool" where
  "good_round m H ros w cr \<longleftrightarrow> cr_consensus_reached cr \<and> cr_agreed_hash cr = Some (state_hash H m w)
     \<and> cr_faulty_nodes cr = culprits ros \<and> cr_honest_nodes cr = map fst (filter (\<lambda>x. \<not> snd x) ros)
     \<and> cr_invalid_sig_nodes cr = []"

lemma ready_round:
  assumes "hex_digest H" and "signs_correctly C" and "ready C m v net" and "delivering env"
    and "execute ecn_handlers v t = Inr w"
  obtains rs cr net' where "p2p_broadcast C H ecn_handlers S now clock env t net = (Inr (rs, cr), net')"
    and "good_round m H (roster net) w cr"
    and "map (\<lambda>r. (nr_node_id r, nr_state_hash r, nr_signature r \<noteq> None, vote_status cr r)) rs =
      filing (state_hash H m w) (roster net)"
    and "ready C m w net'" and "roster net' = roster net"
    and "p_audit_log net' = map_option (\<lambda>al. snd (audit_record S now (tx_json t) rs cr al)) (p_audit_log net)"
proof -
  let ?nds = "map sv_node (p_servers net)" and ?rs = "p2p_results C H ecn_handlers env t net"
  let ?cr = "run_consensus C ?rs (Some (p_public_keys net)) (p_quorum_threshold net)"
  let ?B = "p2p_broadcast C H ecn_handlers S now clock env t net"
  note rd = assms(3) [unfolded ready_def]
  note resp = responders_ready [OF assms(3,4)]
  have coh: "\<forall>nd\<in>set (responders env net). in_cohort m v nd" using rd by (auto simp: resp p2p_cohort_def)
  have ans: "list_all2 (answers C H m w) ?nds ?rs"
    using ecn.p2p_results_accepts [OF coh _ assms(5), of C H] rd by (simp add: resp)
  have ver: "\<forall>r\<in>set ?rs. counts_vote C (Some (p_public_keys net)) r"
    using cohort_verified [OF ans assms(2)] responders_keys [of C net env] rd by (simp add: resp)
  have maj: "malicious_count ?nds < honest_count ?nds"
    using rd by (simp add: roster_nodes decisive_def)
  note round = cohort_round [OF ans assms(1) ver maj, of "p_quorum_threshold net"]
  have inv: "cr_invalid_sig_nodes ?cr = []" using ver by (simp add: consensus_invalid)
  have len: "length ?rs = length (p_servers net)" using list_all2_lengthD [OF ans] by simp
  have fst: "fst ?B = Inr (?rs, ?cr)"
    using rd len by (simp add: p2p_broadcast_result Let_def decisive_def roster_def)
  then have B: "?B = (Inr (?rs, ?cr), snd ?B)" by (metis prod.collapse)
  have hon: "map n_node_id (filter (\<lambda>nd. \<not> n_malicious nd) ?nds) = map fst (filter (\<lambda>x. \<not> snd x) (roster net))"
    by (simp add: roster_def filter_map comp_def)
  have good: "good_round m H (roster net) w ?cr"
    using round inv rd hon by (simp add: good_round_def roster_nodes decisive_def roster_def)
  have ids: "distinct (map n_node_id ?nds)" using rd by (simp add: p2p_inv_def comp_def)
  have signed: "\<forall>nd\<in>set ?nds. n_signing_key nd \<noteq> None" using rd by (auto simp: p2p_inv_def keys_match_def)
  have votes: "map (\<lambda>r. (nr_node_id r, nr_state_hash r, nr_signature r \<noteq> None, vote_status ?cr r)) ?rs =
      filing (state_hash H m w) (roster net)"
    using filed_votes [OF ans inv round(3) ids signed] by (simp add: roster_def comp_def)
  have send: "\<exists>r l. fst (send_to_server C H ecn_handlers t (env (sv_node_id s)) s) = Some (r, l)
      \<and> in_cohort m w (sv_node (snd (send_to_server C H ecn_handlers t (env (sv_node_id s)) s)))"
    if s: "s \<in> set (p_servers net)" for s
  proof -
    obtain l where l: "env (sv_node_id s) = Delivered l" using assms(4) by (auto simp: delivering_def)
    have c: "in_cohort m v (sv_node s)" using rd s by (simp add: p2p_cohort_def)
    obtain r nd' where "node_execute C H ecn_handlers (sv_node s) t = (Inr r, nd')" "in_cohort m w nd'"
      by (rule ecn.cohort_accepts [OF c _ assms(5), where C = C and H = H]) (use rd in auto)
    then show ?thesis by (simp add: l send_delivered)
  qed
  have part: "filter (participates (p_health net)) (p_servers net) = p_servers net" using rd by simp
  have "p2p_cohort m w (snd ?B)" using send rd by (auto simp: p2p_cohort_def p2p_broadcast_servers)
  moreover have "participates (p_health (snd ?B)) s" if "s \<in> set (p_servers (snd ?B))" for s
  proof -
    have "map sv_node_id (p_servers (snd ?B)) = map sv_node_id (p_servers net)"
      by (simp add: p2p_broadcast_servers server_after_send)
    then have "set (map sv_node_id (p_servers (snd ?B))) = set (map sv_node_id (p_servers net))" by (simp only:)
    moreover have "sv_node_id s \<in> set (map sv_node_id (p_servers (snd ?B)))" using that by simp
    ultimately have "sv_node_id s \<in> set (map sv_node_id (p_servers net))" by (simp only:)
    then obtain s0 where s0: "s0 \<in> set (p_servers net)" "sv_node_id s = sv_node_id s0" by auto
    obtain r l where rl: "fst (send_to_server C H ecn_handlers t (env (sv_node_id s0)) s0) = Some (r, l)"
      using send [OF s0(1)] by blast
    then have mem: "(sv_node_id s0, Some (r, l)) \<in> set (p2p_raw C H ecn_handlers env t net)"
      using s0(1) by (auto simp: p2p_raw_def part intro!: image_eqI [where x = s0])
    have dist: "distinct (map fst (p2p_raw C H ecn_handlers env t net))"
      using rd by (simp add: p2p_raw_def part comp_def p2p_inv_def)
    show ?thesis
      using settle_succeeded [OF dist mem] success_not_excluded rd s0
      by (auto simp: participates_def p2p_broadcast_health health_of_gets)
  qed
  moreover have "p2p_inv C (snd ?B)" using rd by (simp add: p2p_inv_broadcast)
  moreover have "wf_world w" using ecn.execute_wf [OF _ assms(5)] rd by blast
  ultimately have "ready C m w (snd ?B)"
    using rd by (simp add: ready_def p2p_broadcast_fields roster_broadcast)
  then show ?thesis
    by (rule that [OF B good votes _ roster_broadcast p2p_broadcast_trail(2) [OF B]])
qed

subsection \<open>A script on a network in good order\<close>

definition good_event :: "bool \<Rightarrow> sha256 \<Rightarrow> (string \<times> bool) list \<Rightarrow> world \<Rightarrow> audit_event \<Rightarrow> bool" where
  "good_event m H ros w e \<longleftrightarrow> ae_consensus_reached e \<and> ae_agreed_hash e = Some (state_hash H m w)
     \<and> ae_faulty_nodes e = culprits ros \<and> ae_honest_nodes e = map fst (filter (\<lambda>x. \<not> snd x) ros)
     \<and> map (\<lambda>v. (nv_node_id v, nv_state_hash v, nv_signature v \<noteq> None, nv_status v)) (ae_votes e)
       = filing (state_hash H m w) ros"

text \<open>
  What was seen after each round of a session: its decision and the network, whose audit trail,
  if it keeps one, has grown by the event of the round.
\<close>

fun good_visits ::
  "('sk, 'pk) crypto \<Rightarrow> bool \<Rightarrow> sha256 \<Rightarrow> (string \<times> bool) list \<Rightarrow> audit_event list option \<Rightarrow> tx list \<Rightarrow> world list
     \<Rightarrow> (consensus_result \<times> ('sk, 'pk, 's) p2p) list \<Rightarrow> bool" where
  "good_visits C m H ros trail [] [] vs \<longleftrightarrow> vs = []"
| "good_visits C m H ros trail (t # ts) (w # ws) vs \<longleftrightarrow> (\<exists>cr net vs'. vs = (cr, net) # vs'
     \<and> good_round m H ros w cr \<and> ready C m w net \<and> roster net = ros
     \<and> (case trail of
          None \<Rightarrow> p_audit_log net = None \<and> good_visits C m H ros None ts ws vs'
        | Some es \<Rightarrow> (\<exists>al e. p_audit_log net = Some al \<and> al_events al = es @ [e] \<and> good_event m H ros w e
            \<and> ae_transaction e = tx_json t \<and> ae_round_id e = int (length es) + 1
            \<and> good_visits C m H ros (Some (es @ [e])) ts ws vs')))"
| "good_visits C m H ros trail ts ws vs \<longleftrightarrow> False"

lemma p2p_session:
  assumes "hex_digest H" and "signs_correctly C" and "ready C m v net" and "\<forall>k. delivering (x_delivery (ev k))"
    and "execute_all ecn_handlers v ts = Inr ws"
  shows "\<exists>vs. p2p_script C H S ev (\<lambda>cr net. Some (cr, net)) k ts net = (Inr vs, last (net # map snd vs))
    \<and> good_visits C m H (roster net) (map_option al_events (p_audit_log net)) ts ws vs"
  using assms(3,5)
proof (induction ts arbitrary: v net k ws)
  case Nil
  then show ?case by auto
next
  case (Cons t ts)
  obtain w ws' where w: "execute ecn_handlers v t = Inr w" "execute_all ecn_handlers w ts = Inr ws'" "ws = w # ws'"
    using Cons.prems(2) by (auto simp: bindE_Inr_iff)
  have d: "delivering (x_delivery (ev k))" using assms(4) by blast
  obtain rs cr net1 where r: "p2p_broadcast C H ecn_handlers S (x_now (ev k)) (x_clock (ev k)) (x_delivery (ev k)) t net
      = (Inr (rs, cr), net1)" "good_round m H (roster net) w cr"
    "map (\<lambda>r. (nr_node_id r, nr_state_hash r, nr_signature r \<noteq> None, vote_status cr r)) rs = filing (state_hash H m w) (roster net)"
    "ready C m w net1" "roster net1 = roster net"
    "p_audit_log net1 = map_option (\<lambda>al. snd (audit_record S (x_now (ev k)) (tx_json t) rs cr al)) (p_audit_log net)"
    by (rule ready_round [OF assms(1,2) Cons.prems(1) d w(1)])
  obtain vs where s: "p2p_script C H S ev (\<lambda>cr net. Some (cr, net)) (Suc k) ts net1 = (Inr vs, last (net1 # map snd vs))"
    "good_visits C m H (roster net) (map_option al_events (p_audit_log net1)) ts ws' vs"
    using Cons.IH [OF r(4) w(2), of "Suc k"] unfolding r(5) by blast
  have script: "p2p_script C H S ev (\<lambda>cr net. Some (cr, net)) k (t # ts) net = (Inr ((cr, net1) # vs), last (net1 # map snd vs))"
    by (simp add: r(1) s(1))
  have "good_visits C m H (roster net) (map_option al_events (p_audit_log net)) (t # ts) ws ((cr, net1) # vs)"
  proof (cases "p_audit_log net")
    case None
    then show ?thesis using r(2,4,5,6) s(2) by (simp add: w(3))
  next
    case (Some al)
    let ?e = "make_event (int (length (al_events al)) + 1) (x_now (ev k)) (tx_json t) rs cr"
    have "good_event m H (roster net) w ?e" "ae_transaction ?e = tx_json t" "ae_round_id ?e = int (length (al_events al)) + 1"
      using r(2,3) by (simp_all add: good_event_def good_round_def make_event_def comp_def)
    then show ?thesis using Some r(2,4,5,6) s(2) by (simp add: w(3) audit_record_events)
  qed
  with script show ?case by (intro exI [of _ "(cr, net1) # vs"]) simp
qed

text \<open>A script that shows something of each round shows it of each of these.\<close>

lemma script_visits:
  assumes "p2p_script C H S ev (\<lambda>cr net. Some (cr, net)) k ts net = (Inr vs, net')"
    and "\<forall>(cr, n)\<in>set vs. visit cr n = Some (f cr n)"
  shows "p2p_script C H S ev visit k ts net = (Inr (map (\<lambda>(cr, n). f cr n) vs), net')"
  using assms
proof (induction ts arbitrary: net k vs)
  case (Cons t ts)
  then show ?case
    by (fastforce simp: bindE_Inr_iff split: prod.splits sum.splits)
qed simp

lemma good_visits_rounds:
  assumes "good_visits C m H ros trail ts ws vs" and "ready C m v net"
  shows "list_all2 (good_round m H ros) ws (map fst vs) \<and> ready C m (last (v # ws)) (last (net # map snd vs))"
  using assms
proof (induction ts arbitrary: trail ws vs v net)
  case Nil
  then show ?case by (cases ws) auto
next
  case (Cons t ts)
  obtain w ws' where ws: "ws = w # ws'" using Cons.prems(1) by (cases ws) auto
  obtain cr net1 vs' trail' where vs: "vs = (cr, net1) # vs'" "good_round m H ros w cr" "ready C m w net1"
    "good_visits C m H ros trail' ts ws' vs'"
    using Cons.prems(1) unfolding ws by (cases trail) auto
  then show ?case using Cons.IH [OF vs(4,3)] by (simp add: ws)
qed

text \<open>The event of the round just made, and what the trail is after a session that kept one.\<close>

definition latest_event :: "('sk, 'pk, 's) p2p \<Rightarrow> audit_event option" where
  "latest_event net = Option.bind (p_audit_log net) (\<lambda>al. get_event (int (length (al_events al))) al)"

lemma latest_snoc: "p_audit_log net = Some al \<Longrightarrow> al_events al = es @ [e] \<Longrightarrow> latest_event net = Some e"
  by (simp add: latest_event_def get_event_def Let_def)

lemma good_visits_trail:
  assumes "good_visits C m H ros (Some es) ts ws vs" and "p_audit_log net = Some al" and "al_events al = es"
  shows "\<exists>evs al'. list_all2 (good_event m H ros) ws evs \<and> map ae_transaction evs = map tx_json ts
    \<and> map ae_round_id evs = map int [Suc (length es)..<Suc (length es + length ts)]
    \<and> map (\<lambda>x. latest_event (snd x)) vs = map Some evs
    \<and> map (\<lambda>x. map_option al_events (p_audit_log (snd x))) vs = map (\<lambda>k. Some (es @ take (Suc k) evs)) [0..<length ts]
    \<and> p_audit_log (last (net # map snd vs)) = Some al' \<and> al_events al' = es @ evs"
  using assms
proof (induction ts arbitrary: es ws vs net al)
  case Nil
  then show ?case by (cases ws) auto
next
  case (Cons t ts)
  obtain w ws' where ws: "ws = w # ws'" using Cons.prems(1) by (cases ws) auto
  obtain cr net1 vs' al1 e where vs: "vs = (cr, net1) # vs'" "p_audit_log net1 = Some al1" "al_events al1 = es @ [e]"
    "good_event m H ros w e" "ae_transaction e = tx_json t" "ae_round_id e = int (length es) + 1"
    "good_visits C m H ros (Some (es @ [e])) ts ws' vs'"
    using Cons.prems(1) unfolding ws by auto
  obtain evs al' where e: "list_all2 (good_event m H ros) ws' evs" "map ae_transaction evs = map tx_json ts"
    "map ae_round_id evs = map int [Suc (length (es @ [e]))..<Suc (length (es @ [e]) + length ts)]"
    "map (\<lambda>x. latest_event (snd x)) vs' = map Some evs"
    "map (\<lambda>x. map_option al_events (p_audit_log (snd x))) vs' = map (\<lambda>k. Some ((es @ [e]) @ take (Suc k) evs)) [0..<length ts]"
    "p_audit_log (last (net1 # map snd vs')) = Some al'" "al_events al' = (es @ [e]) @ evs"
    using Cons.IH [OF vs(7,2,3)] by blast
  have ids: "map ae_round_id (e # evs) = map int [Suc (length es)..<Suc (length es + length (t # ts))]"
    using e(3) vs(6) by (simp add: upt_conv_Cons del: upt_Suc)
  have "map (\<lambda>k. Some (es @ take (Suc k) (e # evs))) [0..<length (t # ts)] =
      Some (es @ [e]) # map (\<lambda>k. Some ((es @ [e]) @ take (Suc k) evs)) [0..<length ts]"
    by (simp add: upt_conv_Cons comp_def del: upt_Suc flip: map_Suc_upt)
  then have logs: "map (\<lambda>x. map_option al_events (p_audit_log (snd x))) vs =
      map (\<lambda>k. Some (es @ take (Suc k) (e # evs))) [0..<length (t # ts)]"
    using e(5) vs(1,2,3) by simp
  show ?case
    using e(1,2,4,6,7) vs(1,4,5) latest_snoc [OF vs(2,3)]
    by (intro exI [of _ "e # evs"] exI [of _ al'] conjI ids logs) (simp_all add: ws)
qed

lemma good_visits_roster:
  "good_visits C m H ros trail ts ws vs \<Longrightarrow> roster net = ros \<Longrightarrow>
    roster (last (net # map snd vs)) = ros \<and> (\<forall>x\<in>set vs. roster (snd x) = ros)"
proof (induction ts arbitrary: trail ws vs net)
  case Nil
  then show ?case by (cases ws) auto
next
  case (Cons t ts)
  obtain w ws' where ws: "ws = w # ws'" using Cons.prems(1) by (cases ws) auto
  obtain cr net1 vs' trail' where vs: "vs = (cr, net1) # vs'" "roster net1 = ros" "good_visits C m H ros trail' ts ws' vs'"
    using Cons.prems(1) unfolding ws by (cases trail) auto
  then show ?case using Cons.IH [OF vs(3,2)] by auto
qed

text \<open>A script that shows the event of each round shows the events the session adds to the trail.\<close>

lemma session_rendered:
  assumes "hex_digest H" and "signs_correctly C" and "ready C m v net" and "\<forall>k. delivering (x_delivery (ev k))"
    and "execute_all ecn_handlers v ts = Inr ws" and "p_audit_log net = Some al"
    and "\<forall>w e. good_event m H (roster net) w e \<longrightarrow> render e = Some (f e)"
  shows "\<exists>evs net' al'. p2p_script C H S ev (\<lambda>cr net. Option.bind (latest_event net) render) k ts net = (Inr (map f evs), net')
    \<and> list_all2 (good_event m H (roster net)) ws evs \<and> map ae_transaction evs = map tx_json ts
    \<and> map ae_round_id evs = map int [Suc (length (al_events al))..<Suc (length (al_events al) + length ts)]
    \<and> p_audit_log net' = Some al' \<and> al_events al' = al_events al @ evs
    \<and> ready C m (last (v # ws)) net' \<and> roster net' = roster net"
proof -
  obtain vs where vs: "p2p_script C H S ev (\<lambda>cr net. Some (cr, net)) k ts net = (Inr vs, last (net # map snd vs))"
    "good_visits C m H (roster net) (Some (al_events al)) ts ws vs"
    using p2p_session [OF assms(1-5), of S k] assms(6) by auto
  obtain evs al' where e: "list_all2 (good_event m H (roster net)) ws evs" "map ae_transaction evs = map tx_json ts"
    "map ae_round_id evs = map int [Suc (length (al_events al))..<Suc (length (al_events al) + length ts)]"
    "map (\<lambda>x. latest_event (snd x)) vs = map Some evs"
    "p_audit_log (last (net # map snd vs)) = Some al'" "al_events al' = al_events al @ evs"
    using good_visits_trail [OF vs(2) assms(6) refl] by metis
  have good: "render (evs ! i) = Some (f (evs ! i))" if "i < length evs" for i
    using e(1) assms(7) that by (auto simp: list_all2_conv_all_nth)
  have len: "length vs = length evs" using arg_cong [OF e(4), of length] by simp
  have at: "latest_event (snd (vs ! i)) = Some (evs ! i)" if "i < length evs" for i
    using arg_cong [OF e(4), of "\<lambda>l. l ! i"] that len by simp
  have "\<forall>(cr, n)\<in>set vs. Option.bind (latest_event n) render = Some (f (the (latest_event n)))"
    using at good len by (fastforce simp: in_set_conv_nth)
  note script_visits [OF vs(1) this]
  moreover have "map (\<lambda>(cr, n). f (the (latest_event n))) vs = map f evs"
    using at len by (auto simp: list_eq_iff_nth_eq case_prod_unfold)
  ultimately have "p2p_script C H S ev (\<lambda>cr net. Option.bind (latest_event net) render) k ts net =
      (Inr (map f evs), last (net # map snd vs))" by simp
  moreover note good_visits_rounds [OF vs(2) assms(3)] good_visits_roster [OF vs(2) refl] e(1,2,3,5,6)
  ultimately show ?thesis by blast
qed

text \<open>A script whose assertion holds of every good round runs to its end.\<close>

definition asserting :: "(consensus_result \<Rightarrow> bool) \<Rightarrow> consensus_result \<Rightarrow> ('sk, 'pk, 's) p2p \<Rightarrow> consensus_result option" where
  "asserting check cr net = (if check cr then Some cr else None)"

lemma p2p_asserted:
  assumes "hex_digest H" and "signs_correctly C" and "ready C m v net" and "\<forall>k. delivering (x_delivery (ev k))"
    and "execute_all ecn_handlers v ts = Inr ws" and "\<forall>w cr. good_round m H (roster net) w cr \<longrightarrow> check cr"
  shows "\<exists>crs net'. p2p_script C H S ev (asserting check) k ts net = (Inr crs, net')
    \<and> list_all2 (good_round m H (roster net)) ws crs \<and> ready C m (last (v # ws)) net'"
proof -
  obtain vs where vs: "p2p_script C H S ev (\<lambda>cr net. Some (cr, net)) k ts net = (Inr vs, last (net # map snd vs))"
    "good_visits C m H (roster net) (map_option al_events (p_audit_log net)) ts ws vs"
    using p2p_session [OF assms(1-5), of S k] by blast
  note g = good_visits_rounds [OF vs(2) assms(3)]
  have "\<forall>(cr, n)\<in>set vs. asserting check cr n = Some cr"
    using g assms(6) by (auto simp: asserting_def list_all2_conv_all_nth in_set_conv_nth) (metis fst_conv nth_map)
  from script_visits [OF vs(1) this] g show ?thesis by (auto simp: case_prod_unfold)
qed

subsection \<open>A network as it is created\<close>

lemma roster_create:
  assumes "length sks = length cfgs"
  shows "roster (p2p_create C cfgs sks w audit threshold q r h) = map (\<lambda>(n, mal). (n, mal = Some True)) cfgs"
  using assms
  by (induction cfgs sks rule: list_induct2') (auto simp: roster_def p2p_create_def p2p_init_def server_init_def node_init_def)

lemma ready_create:
  assumes "distinct (map fst cfgs)" and "length sks = length cfgs" and "wf_world w"
    and "decisive threshold 1 (map (\<lambda>(n, mal). (n, mal = Some True)) cfgs)"
  shows "ready C False w (p2p_create C cfgs sks w audit threshold None None None)"
proof -
  have "p2p_cohort False w (p2p_create C cfgs sks w audit threshold None None None)"
    by (auto simp: p2p_cohort_def p2p_create_def p2p_init_def server_init_def in_cohort_init [OF assms(3)])
  moreover have "\<forall>s\<in>set (p_servers (p2p_create C cfgs sks w audit threshold None None None)).
      participates (p_health (p2p_create C cfgs sks w audit threshold None None None)) s"
    by (simp add: participates_def p2p_create_def p2p_init_def health_of_gets new_health_def)
  moreover have "p_quorum_threshold (p2p_create C cfgs sks w audit threshold None None None) = threshold"
    "p_min_responses (p2p_create C cfgs sks w audit threshold None None None) = 1"
    by (simp_all add: p2p_create_def p2p_init_def)
  ultimately show ?thesis
    using p2p_inv_create [OF assms(1,2), where C = C and w = w and audit = audit and env_t = threshold and q = None and m = None]
      assms(3,4) by (simp add: ready_def roster_create [OF assms(2)])
qed

subsection \<open>The in-process network\<close>

definition node_roster :: "'sk node list \<Rightarrow> (string \<times> bool) list" where
  "node_roster nds = map (\<lambda>nd. (n_node_id nd, n_malicious nd)) nds"

definition nodes_ready :: "bool \<Rightarrow> world \<Rightarrow> 'sk node list \<Rightarrow> bool" where
  "nodes_ready m v nds \<longleftrightarrow> (\<forall>nd\<in>set nds. in_cohort m v nd) \<and> wf_world v
     \<and> decisive default_quorum_threshold 0 (node_roster nds)"

lemma node_roster_counts:
  "map n_node_id (filter n_malicious nds) = culprits (node_roster nds)"
  "map n_node_id (filter (\<lambda>nd. \<not> n_malicious nd) nds) = map fst (filter (\<lambda>x. \<not> snd x) (node_roster nds))"
  "honest_count nds = length (filter (\<lambda>x. \<not> snd x) (node_roster nds))"
  "malicious_count nds = length (filter snd (node_roster nds))" "length (node_roster nds) = length nds"
  by (simp_all add: culprits_def node_roster_def honest_count_def malicious_count_def filter_map comp_def)

lemma node_roster_cong:
  "map n_node_id nds' = map n_node_id nds \<Longrightarrow> map n_malicious nds' = map n_malicious nds \<Longrightarrow> node_roster nds' = node_roster nds"
  unfolding node_roster_def by (simp add: list_eq_iff_nth_eq)

context handler_registry
begin

lemma network_round:
  assumes "hex_digest H" and "nodes_ready m v (nw_nodes net)" and "nw_public_keys net = []" and "execute R v t = Inr w"
  obtains rs cr net' where "network_broadcast C H R S now t net = (Inr (rs, cr), net')"
    and "good_round m H (node_roster (nw_nodes net)) w cr" and "nodes_ready m w (nw_nodes net')"
    and "nw_public_keys net' = []" and "node_roster (nw_nodes net') = node_roster (nw_nodes net)"
proof -
  let ?nds = "nw_nodes net"
  note rd = assms(2) [unfolded nodes_ready_def]
  obtain rs nds' where run: "run_nodes C H R t ?nds = (Inr rs, nds')" "list_all2 (answers C H m w) ?nds rs"
    "\<forall>nd\<in>set nds'. in_cohort m w nd" "map n_node_id nds' = map n_node_id ?nds" "map n_malicious nds' = map n_malicious ?nds"
    using run_nodes_accepts [OF conjunct1 [OF rd] conjunct1 [OF conjunct2 [OF rd]] assms(4), of C H] by blast
  let ?cr = "run_consensus C rs None default_quorum_threshold"
  have all: "\<forall>r\<in>set rs. counts_vote C None r" by (simp add: counts_vote_def)
  have "malicious_count ?nds < honest_count ?nds" using rd by (simp add: node_roster_counts decisive_def)
  note round = cohort_round [OF run(2) assms(1) all this, of default_quorum_threshold]
  have "good_round m H (node_roster ?nds) w ?cr"
    using round rd all by (simp add: good_round_def node_roster_counts decisive_def consensus_invalid)
  moreover have same: "node_roster nds' = node_roster ?nds" by (rule node_roster_cong [OF run(4,5)])
  moreover have "wf_world w" using execute_wf [OF _ assms(4)] rd by blast
  then have "nodes_ready m w nds'" using run(3) rd same by (simp add: nodes_ready_def)
  ultimately show ?thesis
    using that [of rs ?cr "snd (network_broadcast C H R S now t net)"] run(1) assms(3)
    by (simp add: network_broadcast_def Let_def)
qed

lemma network_session:
  assumes "hex_digest H" and "nodes_ready m v (nw_nodes net)" and "nw_public_keys net = []"
    and "execute_all R v ts = Inr ws" and "\<forall>w cr. good_round m H (node_roster (nw_nodes net)) w cr \<longrightarrow> check cr"
  shows "\<exists>crs net'. network_script C H R S now check k ts net = (Inr crs, net')
    \<and> list_all2 (good_round m H (node_roster (nw_nodes net))) ws crs \<and> nodes_ready m (last (v # ws)) (nw_nodes net')"
  using assms(2-)
proof (induction ts arbitrary: v net k ws)
  case Nil
  then show ?case by auto
next
  case (Cons t ts)
  obtain w ws' where w: "execute R v t = Inr w" "execute_all R w ts = Inr ws'" "ws = w # ws'"
    using Cons.prems(3) by (auto simp: bindE_Inr_iff)
  obtain rs cr net1 where r: "network_broadcast C H R S (now k) t net = (Inr (rs, cr), net1)"
    "good_round m H (node_roster (nw_nodes net)) w cr" "nodes_ready m w (nw_nodes net1)" "nw_public_keys net1 = []"
    "node_roster (nw_nodes net1) = node_roster (nw_nodes net)"
    by (rule network_round [OF assms(1) Cons.prems(1,2) w(1)])
  obtain crs net' where s: "network_script C H R S now check (Suc k) ts net1 = (Inr crs, net')"
    "list_all2 (good_round m H (node_roster (nw_nodes net))) ws' crs" "nodes_ready m (last (w # ws')) (nw_nodes net')"
    using Cons.IH [OF r(3,4) w(2), of "Suc k"] Cons.prems(4) unfolding r(5) by blast
  have "check cr" using Cons.prems(4) r(2) by blast
  then have "network_script C H R S now check k (t # ts) net = (Inr (cr # crs), net')" by (simp add: r(1) s(1))
  then show ?case using s(2,3) r(2) by (simp add: w(3) del: network_script.simps)
qed

end

end
