(* ===== verification/Demos.thy ===== *)
theory Demos
  imports Session
begin

section \<open>The demonstrations\<close>

text \<open>
  The scenarios of \<open>ecn/main.py\<close> (in-process network, built-in handlers) and \<open>ecn/demo_p2p.py\<close>
  (TCP network, supply chain), as scripts of \<open>Session\<close>. The parameters are the keys generated, the
  environment's threshold and what the network does; printing is left out.

  The lemmas show that the assertions of the scenarios hold on every run in which messages arrive
  in time and the threshold is not above what the scenario can meet.
\<close>

subsection \<open>main.py\<close>

definition demo_state :: world where
  "demo_state = \<lparr>w_balances = Some [(''A'', 1000), (''B'', 500), (''C'', 250)], w_products = None\<rparr>"

definition make_nodes :: "nat \<Rightarrow> nat list \<Rightarrow> bool \<Rightarrow> 'sk node list" where
  "make_nodes n malicious_ids use_merkle =
     map (\<lambda>i. node_init (''Node-'' @ str_nat (i + 1)) demo_state (i \<in> set malicious_ids) use_merkle None) [0..<n]"

definition money_tx :: "string \<Rightarrow> string option \<Rightarrow> string option \<Rightarrow> int \<Rightarrow> tx" where
  "money_tx kind sender receiver amount =
     (blank_tx kind)\<lparr>tx_from := sender, tx_to := receiver, tx_amount := Some amount\<rparr>"

definition scenario_1 ::
  "('sk, 'pk) crypto \<Rightarrow> sha256 \<Rightarrow> (nat \<Rightarrow> string)
     \<Rightarrow> (script_error + consensus_result list) \<times> ('sk, 'pk, audit_table) network" where
  "scenario_1 C H now =
     network_script C H handlers0 sqlite_audit now (\<lambda>cr. cr_consensus_reached cr \<and> length (cr_faulty_nodes cr) = 0) 0
       [money_tx ''transfer'' (Some ''A'') (Some ''B'') 100] (network_init (make_nodes 5 [] False) None None)"

definition scenario_2 ::
  "('sk, 'pk) crypto \<Rightarrow> sha256 \<Rightarrow> (nat \<Rightarrow> string)
     \<Rightarrow> (script_error + consensus_result list) \<times> ('sk, 'pk, audit_table) network" where
  "scenario_2 C H now =
     network_script C H handlers0 sqlite_audit now (\<lambda>cr. cr_consensus_reached cr \<and> ''Node-5'' \<in> set (cr_faulty_nodes cr)) 0
       [money_tx ''transfer'' (Some ''A'') (Some ''B'') 200] (network_init (make_nodes 5 [4] False) None None)"

definition scenario_3 ::
  "('sk, 'pk) crypto \<Rightarrow> sha256 \<Rightarrow> (nat \<Rightarrow> string)
     \<Rightarrow> (script_error + consensus_result list) \<times> ('sk, 'pk, audit_table) network" where
  "scenario_3 C H now =
     network_script C H handlers0 sqlite_audit now (\<lambda>cr. cr_consensus_reached cr \<and> length (cr_faulty_nodes cr) = 0) 0
       [money_tx ''mint'' None (Some ''A'') 500, money_tx ''transfer'' (Some ''A'') (Some ''C'') 300,
        money_tx ''burn'' (Some ''B'') None 100]
       (network_init (make_nodes 3 [] True) None None)"

lemma wf_demo_state: "wf_world demo_state"
  by (simp add: wf_world_def demo_state_def)

lemma make_nodes_ready:
  "decisive default_quorum_threshold 0 (node_roster (make_nodes n mals m :: 'sk node list)) \<Longrightarrow>
    nodes_ready m demo_state (make_nodes n mals m :: 'sk node list)"
  by (auto simp: nodes_ready_def make_nodes_def wf_demo_state intro: in_cohort_init)

lemma make_nodes_roster:
  "node_roster (make_nodes n mals m) = map (\<lambda>i. (''Node-'' @ str_nat (i + 1), i \<in> set mals)) [0..<n]"
  by (simp add: node_roster_def make_nodes_def node_init_def comp_def)

lemmas money = money_tx_def blank_tx_def execute_def handlers0_def handle_transfer_def handle_mint_def handle_burn_def
  demo_state_def dadd_def

lemma small_lists: "[0..<3::nat] = [0, 1, 2]" "[0..<5::nat] = [0, 1, 2, 3, 4]"
  by code_simp+

lemma str_nat_5: "str_nat 5 = ''5''"
  by code_simp

lemma demo_rosters:
  "decisive default_quorum_threshold 0 (node_roster (make_nodes 5 [] m :: 'sk node list))"
  "decisive default_quorum_threshold 0 (node_roster (make_nodes 5 [4] m :: 'sk node list))"
  "decisive default_quorum_threshold 0 (node_roster (make_nodes 3 [] m :: 'sk node list))"
  by (simp_all add: make_nodes_roster decisive_def default_quorum_threshold_def small_lists comp_def)

lemma demo_culprits:
  "culprits (node_roster (make_nodes n [] m)) = []"
  "culprits (node_roster (make_nodes 5 [4] m)) = [''Node-5'']"
  by (simp_all add: make_nodes_roster culprits_def small_lists str_nat_5 comp_def filter_map)

text \<open>The scenarios of \<open>main.py\<close> pass: whatever the hash function, as long as its values are hex
  digests, five honest nodes agree on the transfer with no fault; four against one that corrupts
  its hash reach consensus and name exactly that one; and mint, transfer and burn pass one after
  the other on nodes with Merkle hashing. Each round agrees on the hash of the state the
  transactions lead to.\<close>

lemma main_scenarios_pass:
  assumes "hex_digest H"
  shows "(\<exists>cr net w. scenario_1 C H now = (Inr [cr], net) \<and> cr_agreed_hash cr = Some (state_hash H False w)
        \<and> w_balances w = Some [(''A'', 900), (''B'', 600), (''C'', 250)])
    \<and> (\<exists>cr net w. scenario_2 C H now = (Inr [cr], net) \<and> cr_faulty_nodes cr = [''Node-5'']
        \<and> cr_agreed_hash cr = Some (state_hash H False w)
        \<and> w_balances w = Some [(''A'', 800), (''B'', 700), (''C'', 250)])
    \<and> (\<exists>cr1 cr2 cr3 net w. scenario_3 C H now = (Inr [cr1, cr2, cr3], net)
        \<and> cr_agreed_hash cr3 = Some (state_hash H True w)
        \<and> w_balances w = Some [(''A'', 1200), (''B'', 400), (''C'', 550)])"
proof (intro conjI)
  note session = builtin.network_session [OF assms, where S = sqlite_audit and now = now and k = 0 and C = C]
  note ready = make_nodes_ready [OF demo_rosters(1), of False] make_nodes_ready [OF demo_rosters(2), of False]
    make_nodes_ready [OF demo_rosters(3), of True]
  show "\<exists>cr net w. scenario_1 C H now = (Inr [cr], net) \<and> cr_agreed_hash cr = Some (state_hash H False w)
      \<and> w_balances w = Some [(''A'', 900), (''B'', 600), (''C'', 250)]"
    using session [where m = False and v = demo_state and net = "network_init (make_nodes 5 [] False) None None"
        and ts = "[money_tx ''transfer'' (Some ''A'') (Some ''B'') 100]"
        and check = "\<lambda>cr. cr_consensus_reached cr \<and> length (cr_faulty_nodes cr) = 0"] ready(1)
    by (fastforce simp: network_init_def money scenario_1_def list_all2_Cons1 good_round_def demo_culprits)
  show "\<exists>cr net w. scenario_2 C H now = (Inr [cr], net) \<and> cr_faulty_nodes cr = [''Node-5'']
      \<and> cr_agreed_hash cr = Some (state_hash H False w)
      \<and> w_balances w = Some [(''A'', 800), (''B'', 700), (''C'', 250)]"
    using session [where m = False and v = demo_state and net = "network_init (make_nodes 5 [4] False) None None"
        and ts = "[money_tx ''transfer'' (Some ''A'') (Some ''B'') 200]"
        and check = "\<lambda>cr. cr_consensus_reached cr \<and> ''Node-5'' \<in> set (cr_faulty_nodes cr)"] ready(2)
    by (fastforce simp: network_init_def money scenario_2_def list_all2_Cons1 good_round_def demo_culprits)
  show "\<exists>cr1 cr2 cr3 net w. scenario_3 C H now = (Inr [cr1, cr2, cr3], net)
      \<and> cr_agreed_hash cr3 = Some (state_hash H True w)
      \<and> w_balances w = Some [(''A'', 1200), (''B'', 400), (''C'', 550)]"
    using session [where m = True and v = demo_state and net = "network_init (make_nodes 3 [] True) None None"
        and ts = "[money_tx ''mint'' None (Some ''A'') 500, money_tx ''transfer'' (Some ''A'') (Some ''C'') 300,
          money_tx ''burn'' (Some ''B'') None 100]"
        and check = "\<lambda>cr. cr_consensus_reached cr \<and> length (cr_faulty_nodes cr) = 0"] ready(3)
    by (fastforce simp: network_init_def money scenario_3_def list_all2_Cons1 good_round_def demo_culprits)
qed

subsection \<open>demo_p2p.py\<close>

definition demo_products :: "string list" where
  "demo_products = [''LAPTOP-001'', ''PHONE-002'']"

definition ship_tx :: "string \<Rightarrow> string \<Rightarrow> string \<Rightarrow> tx" where
  "ship_tx pid destination shipper = (blank_tx ''ship'')\<lparr>tx_product_id := Some pid,
     tx_destination := Some destination, tx_shipper := Some shipper\<rparr>"

definition receive_tx :: "string \<Rightarrow> string \<Rightarrow> bool \<Rightarrow> tx" where
  "receive_tx pid receiver at_customs = (blank_tx ''receive'')\<lparr>tx_product_id := Some pid,
     tx_receiver := Some receiver, tx_at_customs := Some at_customs\<rparr>"

definition inspect_tx :: "string \<Rightarrow> string \<Rightarrow> string \<Rightarrow> tx" where
  "inspect_tx pid check_name inspector = (blank_tx ''inspect'')\<lparr>tx_product_id := Some pid,
     tx_check_name := Some check_name, tx_inspector := Some inspector\<rparr>"

definition quarantine_tx :: "string \<Rightarrow> string \<Rightarrow> tx" where
  "quarantine_tx pid reason = (blank_tx ''quarantine'')\<lparr>tx_product_id := Some pid, tx_reason := Some reason\<rparr>"

definition release_tx :: "string \<Rightarrow> string \<Rightarrow> tx" where
  "release_tx pid released_by = (blank_tx ''release'')\<lparr>tx_product_id := Some pid, tx_released_by := Some released_by\<rparr>"

text \<open>A network of honest nodes with these names, and one with a malicious node at the end.\<close>

definition honest_config :: "string list \<Rightarrow> (string \<times> bool option) list" where
  "honest_config names = map (\<lambda>n. (n, None)) names"

definition scenario_a_txs :: "tx list" where
  "scenario_a_txs =
     [ship_tx ''LAPTOP-001'' ''port_warehouse'' ''DHL'',
      inspect_tx ''LAPTOP-001'' ''physical_integrity'' ''QA-Lab'',
      receive_tx ''LAPTOP-001'' ''customs_agent'' True,
      ship_tx ''LAPTOP-001'' ''retailer_depot'' ''FedEx'',
      receive_tx ''LAPTOP-001'' ''retailer'' False]"

definition scenario_a ::
  "('sk, 'pk) crypto \<Rightarrow> sha256 \<Rightarrow> (nat \<Rightarrow> exchange) \<Rightarrow> rat \<Rightarrow> 'sk list
     \<Rightarrow> (script_error + consensus_result list) \<times> ('sk, 'pk, audit_table) p2p" where
  "scenario_a C H ev threshold private_keys =
     p2p_script C H sqlite_audit ev (asserting (\<lambda>cr. cr_consensus_reached cr \<and> length (cr_faulty_nodes cr) = 0)) 0
       scenario_a_txs
       (p2p_create C (honest_config [''Warehouse'', ''Shipper'', ''Customs'', ''Insurer'', ''Retailer'']) private_keys
          (make_initial_state demo_products) None threshold None None None)"

definition scenario_b ::
  "('sk, 'pk) crypto \<Rightarrow> sha256 \<Rightarrow> (nat \<Rightarrow> exchange) \<Rightarrow> rat \<Rightarrow> 'sk list
     \<Rightarrow> (script_error + consensus_result list) \<times> ('sk, 'pk, audit_table) p2p" where
  "scenario_b C H ev threshold private_keys =
     p2p_script C H sqlite_audit ev (asserting (\<lambda>cr. cr_consensus_reached cr \<and> ''Auditor'' \<in> set (cr_faulty_nodes cr))) 0
       [ship_tx ''PHONE-002'' ''airport'' ''AirFreight'']
       (p2p_create C (honest_config [''Warehouse'', ''Shipper'', ''Customs'', ''Insurer''] @ [(''Auditor'', Some True)])
          private_keys (make_initial_state demo_products) None threshold None None None)"

text \<open>The third node has no key and is not in the registry.\<close>

definition scenario_c ::
  "('sk, 'pk) crypto \<Rightarrow> sha256 \<Rightarrow> (nat \<Rightarrow> string) \<Rightarrow> 'sk \<Rightarrow> 'sk
     \<Rightarrow> (script_error + consensus_result list) \<times> ('sk, 'pk, audit_table) network" where
  "scenario_c C H now key1 key2 =
     (let initial = make_initial_state demo_products;
          nodes = [node_init ''Node-1'' initial False False (Some key1), node_init ''Node-2'' initial False False (Some key2),
            node_init ''Node-3'' initial False False None]
      in network_script C H ecn_handlers sqlite_audit now (\<lambda>cr. ''Node-3'' \<in> set (cr_invalid_sig_nodes cr)) 0
           [inspect_tx ''LAPTOP-001'' ''label_check'' ''Compliance'']
           (network_init nodes (Some [(''Node-1'', c_public_key C key1), (''Node-2'', c_public_key C key2)]) None))"

definition scenario_d_txs :: "tx list" where
  "scenario_d_txs = [ship_tx ''GOODS-X'' ''port'' ''Ocean'', quarantine_tx ''GOODS-X'' ''damaged_packaging'',
     release_tx ''GOODS-X'' ''inspector'']"

definition scenario_d ::
  "('sk, 'pk) crypto \<Rightarrow> sha256 \<Rightarrow> (nat \<Rightarrow> exchange) \<Rightarrow> rat \<Rightarrow> 'sk list
     \<Rightarrow> (script_error + consensus_result list) \<times> ('sk, 'pk, audit_table) p2p" where
  "scenario_d C H ev threshold private_keys =
     p2p_script C H sqlite_audit ev (asserting cr_consensus_reached) 0 scenario_d_txs
       (p2p_create C (honest_config [''Node-1'', ''Node-2'', ''Node-3'']) private_keys
          (make_initial_state [''GOODS-X'']) None threshold None None None)"

lemmas demo_txs = ship_tx_def receive_tx_def inspect_tx_def quarantine_tx_def release_tx_def blank_tx_def

lemmas supply_run = demo_txs execute_def ecn_handlers_eq handle_ship_def handle_receive_def handle_inspect_def
  handle_quarantine_def handle_release_def get_product_def put_product_def products_of_def make_initial_state_def
  fresh_product_def Let_def

lemma scenario_a_states:
  "\<exists>ws. execute_all ecn_handlers (make_initial_state demo_products) scenario_a_txs = Inr ws \<and> length ws = 5
    \<and> map_option p_status (dget (products_of (last ws)) ''LAPTOP-001'') = Some pstatus.Delivered
    \<and> map_option p_owner (dget (products_of (last ws)) ''LAPTOP-001'') = Some ''retailer''"
  by (simp add: scenario_a_txs_def demo_products_def supply_run)

lemma scenario_b_states:
  "\<exists>w. execute_all ecn_handlers (make_initial_state demo_products) [ship_tx ''PHONE-002'' ''airport'' ''AirFreight''] = Inr [w]"
  by (simp add: demo_products_def supply_run)

lemma scenario_d_states:
  "\<exists>ws. execute_all ecn_handlers (make_initial_state [''GOODS-X'']) scenario_d_txs = Inr ws \<and> length ws = 3
    \<and> map_option p_status (dget (products_of (last ws)) ''GOODS-X'') = Some At_customs"
  by (simp add: scenario_d_txs_def supply_run)

text \<open>The networks of the scenarios are in good order.\<close>

lemma honest_config_simps:
  "map fst (honest_config names) = names" "length (honest_config names) = length names"
  "map (\<lambda>(n, mal). (n, mal = Some True)) (honest_config names) = map (\<lambda>n. (n, False)) names"
  by (simp_all add: honest_config_def comp_def)

lemma culprits_append [simp]: "culprits (xs @ ys) = culprits xs @ culprits ys"
  by (simp add: culprits_def)

lemma culprits_honest [simp]: "culprits (map (\<lambda>n. (n, False)) names) = []" "culprits [(n, True)] = [n]"
  by (simp_all add: culprits_def)

lemma honest_network:
  assumes "distinct names" and "length sks = length names" and "names \<noteq> []" and "threshold \<le> 1" and "wf_world w"
  shows "ready C False w (p2p_create C (honest_config names) sks w audit threshold None None None)"
    and "roster (p2p_create C (honest_config names) sks w audit threshold None None None) = map (\<lambda>n. (n, False)) names"
proof -
  have "threshold * rat_of_nat (length names) \<le> rat_of_nat (length names)"
    using assms(4) mult_right_mono [of threshold 1 "rat_of_nat (length names)"] by simp
  then have d: "decisive threshold 1 (map (\<lambda>n. (n, False)) names)"
    using assms(3) by (cases names) (simp_all add: decisive_def comp_def)
  show "ready C False w (p2p_create C (honest_config names) sks w audit threshold None None None)"
    by (rule ready_create) (use assms(1,2,5) d in \<open>simp_all add: honest_config_simps\<close>)
  show "roster (p2p_create C (honest_config names) sks w audit threshold None None None) = map (\<lambda>n. (n, False)) names"
    using assms(2) by (simp add: roster_create honest_config_simps)
qed

lemma one_attacker_network:
  assumes "distinct (names @ [bad])" and "length sks = Suc (length names)" and "2 \<le> length names"
    and "threshold * of_nat (Suc (length names)) \<le> of_nat (length names)" and "wf_world w"
  shows "ready C False w (p2p_create C (honest_config names @ [(bad, Some True)]) sks w audit threshold None None None)"
    and "roster (p2p_create C (honest_config names @ [(bad, Some True)]) sks w audit threshold None None None) =
      map (\<lambda>n. (n, False)) names @ [(bad, True)]"
proof -
  have d: "decisive threshold 1 (map (\<lambda>n. (n, False)) names @ [(bad, True)])"
    using assms(3,4) by (simp add: decisive_def comp_def)
  show "ready C False w (p2p_create C (honest_config names @ [(bad, Some True)]) sks w audit threshold None None None)"
    by (rule ready_create) (use assms(1,2,5) d in \<open>simp_all add: honest_config_simps\<close>)
  show "roster (p2p_create C (honest_config names @ [(bad, Some True)]) sks w audit threshold None None None) =
      map (\<lambda>n. (n, False)) names @ [(bad, True)]"
    using assms(2) by (simp add: roster_create honest_config_simps)
qed

lemma scenario_c_round:
  assumes "hex_digest H"
  shows "\<exists>cr net. scenario_c C H now key1 key2 = (Inr [cr], net) \<and> ''Node-3'' \<in> set (cr_invalid_sig_nodes cr)"
proof -
  let ?w = "make_initial_state demo_products" and ?t = "inspect_tx ''LAPTOP-001'' ''label_check'' ''Compliance''"
  let ?pks = "[(''Node-1'', c_public_key C key1), (''Node-2'', c_public_key C key2)]"
  let ?nds = "[node_init ''Node-1'' ?w False False (Some key1), node_init ''Node-2'' ?w False False (Some key2),
    node_init ''Node-3'' ?w False False None]"
  have wf: "wf_world ?w" by (rule wf_world_initial)
  obtain w where w: "execute ecn_handlers ?w ?t = Inr w" by (simp add: demo_products_def supply_run)
  have "\<forall>nd\<in>set ?nds. in_cohort False ?w nd" by (simp add: in_cohort_init [OF wf])
  from ecn.run_nodes_accepts [OF this wf w, of C H] obtain rs nds' where
    run: "run_nodes C H ecn_handlers ?t ?nds = (Inr rs, nds')" "list_all2 (answers C H False w) ?nds rs" by blast
  then obtain r1 r2 r3 where rs: "rs = [r1, r2, r3]" "nr_node_id r3 = ''Node-3''"
    by (auto simp: list_all2_Cons1 answers_def node_init_def)
  have "\<not> counts_vote C (Some ?pks) r3" by (simp add: counts_vote_def result_verified_def rs(2))
  then have "''Node-3'' \<in> set (cr_invalid_sig_nodes (run_consensus C rs (Some ?pks) default_quorum_threshold))"
    by (auto simp: consensus_invalid rs)
  then show ?thesis
    by (simp add: scenario_c_def Let_def network_init_def network_broadcast_def run(1) del: run_nodes.simps)
qed

lemma scenario_a_passes:
  assumes "hex_digest H" and "signs_correctly C" and "\<forall>k. delivering (x_delivery (ev k))"
    and "length keys5 = 5" and "threshold \<le> 4 / 5"
  shows "\<exists>crs net w. scenario_a C H ev threshold keys5 = (Inr crs, net) \<and> length crs = 5
      \<and> p2p_cohort False w net \<and> map_option p_status (dget (products_of w) ''LAPTOP-001'') = Some pstatus.Delivered
      \<and> map_option p_owner (dget (products_of w) ''LAPTOP-001'') = Some ''retailer''"
proof -
  note wf = wf_world_initial
  note asserted = p2p_asserted [OF assms(1,2) _ assms(3), where S = sqlite_audit and k = 0]
  have one: "threshold \<le> 1" using assms(5) by simp
  let ?names = "[''Warehouse'', ''Shipper'', ''Customs'', ''Insurer'', ''Retailer'']"
  let ?net = "p2p_create C (honest_config ?names) keys5 (make_initial_state demo_products)
    (None :: audit_table audit_log option) threshold None None None"
  let ?check = "\<lambda>cr. cr_consensus_reached cr \<and> length (cr_faulty_nodes cr) = 0"
  have net: "ready C False (make_initial_state demo_products) ?net" "roster ?net = map (\<lambda>n. (n, False)) ?names"
    using assms(4) one wf by (intro honest_network; simp)+
  obtain ws where ws: "execute_all ecn_handlers (make_initial_state demo_products) scenario_a_txs = Inr ws" "length ws = 5"
    "map_option p_status (dget (products_of (last ws)) ''LAPTOP-001'') = Some pstatus.Delivered"
    "map_option p_owner (dget (products_of (last ws)) ''LAPTOP-001'') = Some ''retailer''"
    using scenario_a_states by blast
  have "\<forall>w cr. good_round False H (roster ?net) w cr \<longrightarrow> ?check cr"
    unfolding net(2) by (simp only: good_round_def culprits_honest list.size simp_thms) simp
  from asserted [OF net(1) ws(1) this] obtain crs net' where
    r: "p2p_script C H sqlite_audit ev (asserting ?check) 0 scenario_a_txs ?net = (Inr crs, net')"
    "list_all2 (good_round False H (roster ?net)) ws crs" "ready C False (last (make_initial_state demo_products # ws)) net'"
    by blast
  have "length crs = 5" using list_all2_lengthD [OF r(2)] ws(2) by simp
  moreover have "last (make_initial_state demo_products # ws) = last ws" using ws(2) by auto
  ultimately show ?thesis
    using r(1,3) ws(3,4) unfolding scenario_a_def ready_def
    by (intro exI [of _ crs] exI [of _ net'] exI [of _ "last ws"]) simp
qed

lemma scenario_b_passes:
  assumes "hex_digest H" and "signs_correctly C" and "\<forall>k. delivering (x_delivery (ev k))"
    and "length keys5 = 5" and "threshold \<le> 4 / 5"
  shows "\<exists>cr net. scenario_b C H ev threshold keys5 = (Inr [cr], net) \<and> cr_faulty_nodes cr = [''Auditor'']"
proof -
  note wf = wf_world_initial
  note asserted = p2p_asserted [OF assms(1,2) _ assms(3), where S = sqlite_audit and k = 0]
  have one: "threshold \<le> 1" using assms(5) by simp
  let ?names = "[''Warehouse'', ''Shipper'', ''Customs'', ''Insurer'']"
  let ?net = "p2p_create C (honest_config ?names @ [(''Auditor'', Some True)]) keys5 (make_initial_state demo_products)
    (None :: audit_table audit_log option) threshold None None None"
  let ?check = "\<lambda>cr. cr_consensus_reached cr \<and> ''Auditor'' \<in> set (cr_faulty_nodes cr)"
  have net: "ready C False (make_initial_state demo_products) ?net"
    "roster ?net = map (\<lambda>n. (n, False)) ?names @ [(''Auditor'', True)]"
    using assms(4,5) wf by (intro one_attacker_network; simp)+
  obtain w where w: "execute_all ecn_handlers (make_initial_state demo_products) [ship_tx ''PHONE-002'' ''airport'' ''AirFreight''] = Inr [w]"
    using scenario_b_states by blast
  have c: "culprits (roster ?net) = [''Auditor'']" unfolding net(2) by (simp only: culprits_append culprits_honest append_Nil)
  have "\<forall>w cr. good_round False H (roster ?net) w cr \<longrightarrow> ?check cr" by (simp add: good_round_def c)
  from asserted [OF net(1) w this] obtain crs net' where
    r: "p2p_script C H sqlite_audit ev (asserting ?check) 0 [ship_tx ''PHONE-002'' ''airport'' ''AirFreight''] ?net = (Inr crs, net')"
    "list_all2 (good_round False H (roster ?net)) [w] crs" by blast
  then obtain cr where "crs = [cr]" "cr_faulty_nodes cr = [''Auditor'']"
    by (auto simp: list_all2_Cons1 good_round_def c)
  with r(1) show ?thesis unfolding scenario_b_def by blast
qed

lemma scenario_d_passes:
  assumes "hex_digest H" and "signs_correctly C" and "\<forall>k. delivering (x_delivery (ev k))"
    and "length keys3 = 3" and "threshold \<le> 4 / 5"
  shows "\<exists>crs net w. scenario_d C H ev threshold keys3 = (Inr crs, net) \<and> length crs = 3
      \<and> p2p_cohort False w net \<and> map_option p_status (dget (products_of w) ''GOODS-X'') = Some At_customs"
proof -
  note wf = wf_world_initial
  note asserted = p2p_asserted [OF assms(1,2) _ assms(3), where S = sqlite_audit and k = 0]
  have one: "threshold \<le> 1" using assms(5) by simp
  let ?names = "[''Node-1'', ''Node-2'', ''Node-3'']"
  let ?net = "p2p_create C (honest_config ?names) keys3 (make_initial_state [''GOODS-X''])
    (None :: audit_table audit_log option) threshold None None None"
  have net: "ready C False (make_initial_state [''GOODS-X'']) ?net"
    using assms(4) one wf by (intro honest_network; simp)
  obtain ws where ws: "execute_all ecn_handlers (make_initial_state [''GOODS-X'']) scenario_d_txs = Inr ws" "length ws = 3"
    "map_option p_status (dget (products_of (last ws)) ''GOODS-X'') = Some At_customs"
    using scenario_d_states by blast
  have "\<forall>w cr. good_round False H (roster ?net) w cr \<longrightarrow> cr_consensus_reached cr" by (simp add: good_round_def)
  from asserted [OF net ws(1) this] obtain crs net' where
    r: "p2p_script C H sqlite_audit ev (asserting cr_consensus_reached) 0 scenario_d_txs ?net = (Inr crs, net')"
    "list_all2 (good_round False H (roster ?net)) ws crs" "ready C False (last (make_initial_state [''GOODS-X''] # ws)) net'"
    by blast
  have "length crs = 3" using list_all2_lengthD [OF r(2)] ws(2) by simp
  moreover have "last (make_initial_state [''GOODS-X''] # ws) = last ws" using ws(2) by auto
  ultimately show ?thesis
    using r(1,3) ws(3) unfolding scenario_d_def ready_def
    by (intro exI [of _ crs] exI [of _ net'] exI [of _ "last ws"]) simp
qed

text \<open>The scenarios of \<open>demo_p2p.py\<close> pass on every run in which each message arrives in time and
  the threshold is at most four fifths: the supply chain flow ends with the product delivered to the
  retailer after five rounds without a fault; the malicious auditor is the one node named; the node
  without a key is among those whose signature is invalid; and the quarantined product is released
  to customs.\<close>

lemma p2p_scenarios_pass:
  assumes "hex_digest H" and "signs_correctly C" and "\<forall>k. delivering (x_delivery (ev k))"
    and "length keys5 = 5" and "length keys3 = 3" and "threshold \<le> 4 / 5"
  shows "(\<exists>crs net w. scenario_a C H ev threshold keys5 = (Inr crs, net) \<and> length crs = 5
        \<and> p2p_cohort False w net \<and> map_option p_status (dget (products_of w) ''LAPTOP-001'') = Some pstatus.Delivered
        \<and> map_option p_owner (dget (products_of w) ''LAPTOP-001'') = Some ''retailer'')
    \<and> (\<exists>cr net. scenario_b C H ev threshold keys5 = (Inr [cr], net) \<and> cr_faulty_nodes cr = [''Auditor''])
    \<and> (\<exists>cr net. scenario_c C H now key1 key2 = (Inr [cr], net) \<and> ''Node-3'' \<in> set (cr_invalid_sig_nodes cr))
    \<and> (\<exists>crs net w. scenario_d C H ev threshold keys3 = (Inr crs, net) \<and> length crs = 3
        \<and> p2p_cohort False w net \<and> map_option p_status (dget (products_of w) ''GOODS-X'') = Some At_customs)"
  by (intro conjI scenario_a_passes [OF assms(1-4,6)] scenario_b_passes [OF assms(1-4,6)]
      scenario_c_round [OF assms(1)] scenario_d_passes [OF assms(1-3,5,6)])

subsection \<open>Witnesses\<close>

lemma main_scenarios_pass_example:
  "\<exists>cr net. scenario_2 example_crypto example_sha256 (\<lambda>_. ''now'') = (Inr [cr], net) \<and> cr_faulty_nodes cr = [''Node-5'']"
  using main_scenarios_pass [OF hex_digest_example, of example_crypto "\<lambda>_. ''now''"] by blast

definition prompt_exchange :: "nat \<Rightarrow> exchange" where
  "prompt_exchange k = \<lparr>x_now = ''now'', x_clock = (\<lambda>_. (0, 0)), x_delivery = (\<lambda>_. delivery.Delivered 5)\<rparr>"

lemma prompt_delivering: "\<forall>k. delivering (x_delivery (prompt_exchange k))"
  by (simp add: delivering_def prompt_exchange_def)

lemma p2p_scenarios_pass_example:
  "\<exists>cr net. scenario_b example_crypto example_sha256 prompt_exchange default_quorum_threshold
      [''k1'', ''k2'', ''k3'', ''k4'', ''k5''] = (Inr [cr], net) \<and> cr_faulty_nodes cr = [''Auditor'']"
  using p2p_scenarios_pass [OF hex_digest_example example_crypto_ok(1) prompt_delivering,
      of "[''k1'', ''k2'', ''k3'', ''k4'', ''k5'']" "[''k1'', ''k2'', ''k3'']" default_quorum_threshold]
  by (simp add: default_quorum_threshold_def)

end
