(* ===== verification/TrustDemo.thy ===== *)
theory TrustDemo
  imports Demos
begin

section \<open>The trust failure demonstration\<close>

text \<open>
  \<open>ecn/trust_failure_demo.py\<close>: three rounds of four honest nodes, then three rounds in which a
  fifth node corrupts its hash, all in one audit trail; each round is shown from its audit event,
  and the report and the export are taken from the trail. What is shown is kept as values: a row of
  the table of a round, its title, the two lines below it, the fault lines of the report. Colours and
  box drawing are left out. A round with a fault and no agreed hash cannot be shown (the code
  slices \<open>None\<close>).
\<close>

record vote_row =
  vr_node :: string
  vr_hash :: string
  vr_signed :: bool
  vr_status :: string

record round_view =
  rv_round :: int
  rv_fault :: bool
  rv_rows :: "vote_row list"
  rv_detail :: "(string \<times> string list) option"

definition render_vote :: "node_vote \<Rightarrow> vote_row" where
  "render_vote v = \<lparr>vr_node = nv_node_id v, vr_hash = take 20 (nv_state_hash v) @ ''...'',
     vr_signed = (nv_signature v \<notin> {None, Some []}),
     vr_status = (if nv_status v = ''honest'' then ''honest''
       else if nv_status v = ''hash_fault'' then ''HASH FAULT'' else ''SIG FAULT'')\<rparr>"

definition render_round :: "audit_event \<Rightarrow> round_view option" where
  "render_round event =
     (let view = \<lparr>rv_round = ae_round_id event, rv_fault = has_fault event, rv_rows = map render_vote (ae_votes event),
            rv_detail = None\<rparr>
      in if has_fault event then
           map_option (\<lambda>h. view\<lparr>rv_detail := Some (take 32 h @ ''...'', ae_faulty_nodes event)\<rparr>) (ae_agreed_hash event)
         else Some view)"

definition show_round :: "consensus_result \<Rightarrow> ('sk, 'pk, 's) p2p \<Rightarrow> round_view option" where
  "show_round cr net = Option.bind (latest_event net) render_round"

definition honest_hash :: "audit_event \<Rightarrow> string" where
  "honest_hash event =
     (case ae_agreed_hash event of None \<Rightarrow> ''N/A'' | Some h \<Rightarrow> if h \<noteq> [] then take 24 h else ''N/A'')"

text \<open>A fault event of the report: the reported and the expected hash of each vote that is not honest.\<close>

record fault_entry =
  fe_round :: int
  fe_timestamp :: string
  fe_transaction :: json
  fe_faulty :: "string list"
  fe_lines :: "(string \<times> string \<times> string) list"

definition fault_entry_of :: "audit_event \<Rightarrow> fault_entry" where
  "fault_entry_of event = \<lparr>fe_round = ae_round_id event, fe_timestamp = ae_timestamp event,
     fe_transaction = ae_transaction event, fe_faulty = ae_faulty_nodes event,
     fe_lines = map (\<lambda>v. (nv_node_id v, take 24 (nv_state_hash v) @ ''...'', honest_hash event @ ''...''))
       (filter (\<lambda>v. nv_status v \<noteq> ''honest'') (ae_votes event))\<rparr>"

record trust_run =
  tr_baseline :: "round_view list"
  tr_attack :: "round_view list"
  tr_attack_round :: "int option"
  tr_summary :: audit_summary
  tr_faults :: "fault_entry list"
  tr_export :: "json list"

definition vaccine :: string where
  "vaccine = ''VACCINE-BATCH-001''"

definition baseline_txs :: "tx list" where
  "baseline_txs = [ship_tx vaccine ''cold_storage'' ''ColdChain'', inspect_tx vaccine ''temperature_integrity'' ''QA-Lab'',
     receive_tx vaccine ''distributor'' False]"

definition attack_txs :: "tx list" where
  "attack_txs = [ship_tx vaccine ''hospital_depot'' ''MedFreight'', inspect_tx vaccine ''authenticity_check'' ''Auditor'',
     quarantine_tx vaccine ''unverified_source'']"

definition honest_names :: "string list" where
  "honest_names = [''Factory'', ''Distributor'', ''Hospital'', ''Regulator'']"

definition baseline_network ::
  "('sk, 'pk) crypto \<Rightarrow> rat \<Rightarrow> 'sk list \<Rightarrow> 's audit_log option \<Rightarrow> ('sk, 'pk, 's) p2p" where
  "baseline_network C threshold private_keys audit =
     p2p_create C (honest_config honest_names) private_keys (make_initial_state [vaccine]) audit threshold None None None"

definition attack_network ::
  "('sk, 'pk) crypto \<Rightarrow> rat \<Rightarrow> 'sk list \<Rightarrow> 's audit_log option \<Rightarrow> ('sk, 'pk, 's) p2p" where
  "attack_network C threshold private_keys audit =
     p2p_create C (honest_config honest_names @ [(''Auditor'', Some True)]) private_keys (make_initial_state [vaccine])
       audit threshold None None None"

definition trust_report :: "round_view list \<Rightarrow> round_view list \<Rightarrow> 's audit_log \<Rightarrow> trust_run" where
  "trust_report baseline attack audit =
     \<lparr>tr_baseline = baseline, tr_attack = attack, tr_attack_round = map_option rv_round (List.find rv_fault attack),
      tr_summary = audit_summary_of audit, tr_faults = map fault_entry_of (get_fault_events audit),
      tr_export = map event_to_dict (get_fault_events audit)\<rparr>"

definition trust_demo ::
  "('sk, 'pk) crypto \<Rightarrow> sha256 \<Rightarrow> 's audit_ops \<Rightarrow> (nat \<Rightarrow> exchange) \<Rightarrow> rat \<Rightarrow> 'sk list \<Rightarrow> 'sk list
     \<Rightarrow> (script_error + trust_run) \<times> ('sk, 'pk, 's) p2p" where
  "trust_demo C H S ev threshold keys1 keys2 =
     (let audit = \<lparr>al_store = None, al_tenant_id = [], al_events = []\<rparr> in
      case p2p_script C H S ev show_round 0 baseline_txs (baseline_network C threshold keys1 (Some audit)) of
        (Inl e, net) \<Rightarrow> (Inl e, net)
      | (Inr baseline, net) \<Rightarrow>
          (case p2p_script C H S ev show_round (length baseline_txs) attack_txs
             (attack_network C threshold keys2 (p_audit_log net)) of
             (Inl e, net2) \<Rightarrow> (Inl e, net2)
           | (Inr attack, net2) \<Rightarrow> (Inr (trust_report baseline attack (the (p_audit_log net2))), net2)))"

subsection \<open>What a round shows\<close>

definition shown :: "audit_event \<Rightarrow> round_view" where
  "shown e = \<lparr>rv_round = ae_round_id e, rv_fault = has_fault e, rv_rows = map render_vote (ae_votes e),
     rv_detail = (if has_fault e then Some (take 32 (the (ae_agreed_hash e)) @ ''...'', ae_faulty_nodes e) else None)\<rparr>"

lemma good_event_shown: "good_event m H ros w e \<Longrightarrow> render_round e = Some (shown e)"
  by (simp add: good_event_def render_round_def shown_def Let_def)

lemma good_event_fault: "good_event m H ros w e \<Longrightarrow> has_fault e \<longleftrightarrow> culprits ros \<noteq> []"
  by (simp add: good_event_def has_fault_def)

lemma good_event_status:
  assumes "good_event m H ros w e"
  shows "map (\<lambda>v. (nv_node_id v, nv_status v)) (ae_votes e) =
    map (\<lambda>(n, mal). (n, if mal then ''hash_fault'' else ''honest'')) ros"
proof -
  have "map (\<lambda>v. (nv_node_id v, nv_state_hash v, nv_signature v \<noteq> None, nv_status v)) (ae_votes e) = filing (state_hash H m w) ros"
    using assms by (simp add: good_event_def)
  from arg_cong [OF this, of "map (\<lambda>(n, h, s, st). (n, st))"] show ?thesis
    by (simp add: filing_def comp_def case_prod_unfold)
qed

lemma good_event_rows:
  assumes "good_event m H ros w e"
  shows "map (\<lambda>r. (vr_node r, vr_status r)) (rv_rows (shown e)) =
    map (\<lambda>(n, mal). (n, if mal then ''HASH FAULT'' else ''honest'')) ros"
proof -
  let ?f = "\<lambda>(n, st). (n :: string, if st = ''honest'' then ''honest'' else if st = ''hash_fault'' then ''HASH FAULT'' else ''SIG FAULT'')"
  have "map (\<lambda>r. (vr_node r, vr_status r)) (rv_rows (shown e)) = map ?f (map (\<lambda>v. (nv_node_id v, nv_status v)) (ae_votes e))"
    by (simp add: shown_def render_vote_def)
  then show ?thesis unfolding good_event_status [OF assms] by (auto simp: case_prod_unfold)
qed

lemma good_event_lines:
  assumes "good_event m H ros w e"
  shows "map fst (fe_lines (fault_entry_of e)) = culprits ros \<and> fe_faulty (fault_entry_of e) = culprits ros"
proof -
  have "map fst (fe_lines (fault_entry_of e)) = map fst (filter (\<lambda>(n, st). st \<noteq> ''honest'') (map (\<lambda>v. (nv_node_id v, nv_status v)) (ae_votes e)))"
    by (simp add: fault_entry_of_def filter_map comp_def)
  also have "\<dots> = culprits ros"
    unfolding good_event_status [OF assms] by (simp add: culprits_def filter_map comp_def case_prod_unfold)
  finally show ?thesis using assms by (simp add: fault_entry_of_def good_event_def)
qed

subsection \<open>The report\<close>

lemma show_round_eq: "show_round = (\<lambda>cr net. Option.bind (latest_event net) render_round)"
  by (simp add: show_round_def fun_eq_iff)

lemma baseline_states:
  "\<exists>w1 w2 w3. execute_all ecn_handlers (make_initial_state [vaccine]) baseline_txs = Inr [w1, w2, w3]"
  by (simp add: baseline_txs_def vaccine_def supply_run)

lemma attack_states:
  "\<exists>w1 w2 w3. execute_all ecn_handlers (make_initial_state [vaccine]) attack_txs = Inr [w1, w2, w3]
    \<and> map_option p_status (dget (products_of w3) vaccine) = Some Quarantined"
  by (simp add: attack_txs_def vaccine_def supply_run)

lemma attack_culprits: "culprits (map (\<lambda>n. (n, False)) names @ [(bad, True)]) = [bad]"
  by (simp add: culprits_def)

lemma baseline_rounds:
  fixes ev :: "nat \<Rightarrow> exchange" and audit :: "'s audit_log"
  assumes "hex_digest H" and "signs_correctly C" and "\<forall>k. delivering (x_delivery (ev k))"
    and "length keys1 = 4" and "threshold \<le> 4 / 5" and "al_events audit = []"
  shows "\<exists>e1 e2 e3 net al. p2p_script C H S ev show_round k baseline_txs (baseline_network C threshold keys1 (Some audit))
      = (Inr [shown e1, shown e2, shown e3], net) \<and> p_audit_log net = Some al \<and> al_events al = [e1, e2, e3]
    \<and> map ae_round_id [e1, e2, e3] = [1, 2, 3]
    \<and> (\<forall>e\<in>{e1, e2, e3}. \<not> has_fault e \<and> ae_consensus_reached e \<and> ae_faulty_nodes e = [])"
proof -
  let ?net = "baseline_network C threshold keys1 (Some audit)"
  have net: "ready C False (make_initial_state [vaccine]) ?net" "roster ?net = map (\<lambda>n. (n, False)) honest_names"
    unfolding baseline_network_def
    by (rule honest_network; use assms(4,5) wf_world_initial in \<open>simp add: honest_names_def\<close>)+
  have audit: "p_audit_log ?net = Some audit" by (simp add: baseline_network_def p2p_create_def p2p_init_def)
  obtain w1 w2 w3 where w: "execute_all ecn_handlers (make_initial_state [vaccine]) baseline_txs = Inr [w1, w2, w3]"
    using baseline_states by blast
  have r: "\<forall>w e. good_event False H (roster ?net) w e \<longrightarrow> render_round e = Some (shown e)" by (blast intro: good_event_shown)
  from session_rendered [OF assms(1,2) net(1) assms(3) w audit r, of S k]
  obtain evs net' al where *: "p2p_script C H S ev (\<lambda>cr net. Option.bind (latest_event net) render_round) k baseline_txs ?net
      = (Inr (map shown evs), net')" "list_all2 (good_event False H (roster ?net)) [w1, w2, w3] evs"
    "map ae_round_id evs = map int [Suc 0..<Suc (length baseline_txs)]" "p_audit_log net' = Some al" "al_events al = evs"
    by (auto simp: assms(6))
  obtain e1 e2 e3 where evs: "evs = [e1, e2, e3]" using *(2) by (auto simp: list_all2_Cons1)
  have "culprits (roster ?net) = []" unfolding net(2) by simp
  then have "\<forall>e\<in>{e1, e2, e3}. \<not> has_fault e \<and> ae_consensus_reached e \<and> ae_faulty_nodes e = []"
    using *(2) evs by (auto simp: good_event_def has_fault_def)
  moreover have "map ae_round_id [e1, e2, e3] = [1, 2, 3]"
    using *(3) by (simp add: evs baseline_txs_def numeral_3_eq_3)
  ultimately show ?thesis using *(1,4,5) evs unfolding show_round_eq by auto
qed

definition attack_event :: "audit_event \<Rightarrow> bool" where
  "attack_event e \<longleftrightarrow> has_fault e \<and> ae_consensus_reached e \<and> ae_faulty_nodes e = [''Auditor'']
     \<and> map fst (fe_lines (fault_entry_of e)) = [''Auditor'']
     \<and> map (\<lambda>r. (vr_node r, vr_status r)) (rv_rows (shown e)) =
         map (\<lambda>n. (n, ''honest'')) honest_names @ [(''Auditor'', ''HASH FAULT'')]"

lemma attack_rounds:
  fixes ev :: "nat \<Rightarrow> exchange" and audit :: "'s audit_log"
  assumes "hex_digest H" and "signs_correctly C" and "\<forall>k. delivering (x_delivery (ev k))"
    and "length keys2 = 5" and "threshold \<le> 4 / 5" and "length (al_events audit) = 3"
  obtains e4 e5 e6 net al w where "p2p_script C H S ev show_round k attack_txs (attack_network C threshold keys2 (Some audit))
      = (Inr [shown e4, shown e5, shown e6], net)"
    and "p_audit_log net = Some al" and "al_events al = al_events audit @ [e4, e5, e6]"
    and "map ae_round_id [e4, e5, e6] = [4, 5, 6]"
    and "\<forall>e\<in>{e4, e5, e6}. attack_event e"
    and "ready C False w net" and "roster net = map (\<lambda>n. (n, False)) honest_names @ [(''Auditor'', True)]"
    and "map_option p_status (dget (products_of w) vaccine) = Some Quarantined"
proof -
  let ?net = "attack_network C threshold keys2 (Some audit)"
  have net: "ready C False (make_initial_state [vaccine]) ?net"
    "roster ?net = map (\<lambda>n. (n, False)) honest_names @ [(''Auditor'', True)]"
    unfolding attack_network_def
    by (rule one_attacker_network; use assms(4,5) wf_world_initial in \<open>simp add: honest_names_def\<close>)+
  have audit: "p_audit_log ?net = Some audit" by (simp add: attack_network_def p2p_create_def p2p_init_def)
  obtain w1 w2 w3 where w: "execute_all ecn_handlers (make_initial_state [vaccine]) attack_txs = Inr [w1, w2, w3]"
    "map_option p_status (dget (products_of w3) vaccine) = Some Quarantined"
    using attack_states by blast
  have r: "\<forall>w e. good_event False H (roster ?net) w e \<longrightarrow> render_round e = Some (shown e)" by (blast intro: good_event_shown)
  from session_rendered [OF assms(1,2) net(1) assms(3) w(1) audit r, of S k]
  obtain evs net' al where *: "p2p_script C H S ev (\<lambda>cr net. Option.bind (latest_event net) render_round) k attack_txs ?net
      = (Inr (map shown evs), net')" "list_all2 (good_event False H (roster ?net)) [w1, w2, w3] evs"
    "map ae_round_id evs = map int [Suc 3..<Suc (3 + length attack_txs)]" "p_audit_log net' = Some al"
    "al_events al = al_events audit @ evs" "ready C False w3 net'" "roster net' = roster ?net"
    by (auto simp: assms(6) simp del: upt_Suc)
  obtain e4 e5 e6 where evs: "evs = [e4, e5, e6]" using *(2) by (auto simp: list_all2_Cons1)
  have good: "\<exists>w. good_event False H (roster ?net) w e" if "e \<in> {e4, e5, e6}" for e using *(2) that by (auto simp: evs)
  have cul: "culprits (roster ?net) = [''Auditor'']" unfolding net(2) by (rule attack_culprits)
  have rows: "map (\<lambda>(n, mal). (n, if mal then ''HASH FAULT'' else ''honest'')) (roster ?net) =
      map (\<lambda>n. (n, ''honest'')) honest_names @ [(''Auditor'', ''HASH FAULT'')]" unfolding net(2) by simp
  have each: "attack_event e" if e: "e \<in> {e4, e5, e6}" for e
  proof -
    obtain w where g: "good_event False H (roster ?net) w e" using good [OF e] by blast
    show ?thesis
      using good_event_fault [OF g] good_event_lines [OF g] good_event_rows [OF g] g
      unfolding cul rows attack_event_def by (simp add: good_event_def cul)
  qed
  then have all: "\<forall>e\<in>{e4, e5, e6}. attack_event e" by blast
  have ids: "map ae_round_id [e4, e5, e6] = [4, 5, 6]"
    using *(3) by (simp add: evs attack_txs_def upt_rec)
  have run: "p2p_script C H S ev show_round k attack_txs ?net = (Inr [shown e4, shown e5, shown e6], net')"
    using *(1) evs unfolding show_round_eq by simp
  have "al_events al = al_events audit @ [e4, e5, e6]" using *(5) by (simp add: evs)
  then show ?thesis by (rule that [OF run *(4) _ ids all *(6) *(7) [unfolded net(2)] w(2)])
qed

text \<open>C17. The trust failure demonstration runs to its end whenever every message arrives in time and the
  threshold is at most four fifths, and shows what it claims: the three baseline rounds have no fault,
  each of the three rounds of the attack reaches consensus and shows the auditor, and no other node, as
  a hash fault, the attack is dated to round 4, and the report counts six rounds, three with a fault and
  none without consensus, a fault rate of one half and three faults of the auditor. Its last claim,
  that the attacker's vote is excluded from future consensus, does not hold: the auditor still
  participates in the next round, like every other node.\<close>

theorem trust_demo_report:
  fixes S :: "'s audit_ops"
  assumes "hex_digest H" and "signs_correctly C" and "\<forall>k. delivering (x_delivery (ev k))"
    and "length keys1 = 4" and "length keys2 = 5" and "threshold \<le> 4 / 5"
  shows "\<exists>run net. trust_demo C H S ev threshold keys1 keys2 = (Inr run, net)
    \<and> map (\<lambda>v. (rv_round v, rv_fault v)) (tr_baseline run) = [(1, False), (2, False), (3, False)]
    \<and> map (\<lambda>v. (rv_round v, rv_fault v)) (tr_attack run) = [(4, True), (5, True), (6, True)]
    \<and> (\<forall>v\<in>set (tr_attack run). map (\<lambda>r. (vr_node r, vr_status r)) (rv_rows v) =
        map (\<lambda>n. (n, ''honest'')) honest_names @ [(''Auditor'', ''HASH FAULT'')])
    \<and> tr_attack_round run = Some 4
    \<and> tr_summary run = \<lparr>as_total_rounds = 6, as_fault_rounds = 3, as_consensus_failure_rounds = 0, as_fault_rate = 1 / 2,
        as_top_faulty_nodes = [(''Auditor'', 3)]\<rparr>
    \<and> map (\<lambda>f. (fe_round f, map fst (fe_lines f))) (tr_faults run) = [(4, [''Auditor'']), (5, [''Auditor'']), (6, [''Auditor''])]
    \<and> map sv_node_id (filter (participates (p_health net)) (p_servers net)) = honest_names @ [''Auditor'']"
proof -
  let ?audit = "\<lparr>al_store = None, al_tenant_id = [], al_events = []\<rparr> :: 's audit_log"
  obtain e1 e2 e3 net al where b: "p2p_script C H S ev show_round 0 baseline_txs (baseline_network C threshold keys1 (Some ?audit))
      = (Inr [shown e1, shown e2, shown e3], net)" "p_audit_log net = Some al" "al_events al = [e1, e2, e3]"
    "map ae_round_id [e1, e2, e3] = [1, 2, 3]"
    "\<forall>e\<in>{e1, e2, e3}. \<not> has_fault e \<and> ae_consensus_reached e \<and> ae_faulty_nodes e = []"
    using baseline_rounds [OF assms(1-4,6), of ?audit S 0] by auto
  have "length (al_events al) = 3" using b(3) by simp
  then obtain e4 e5 e6 net2 al2 w where a: "p2p_script C H S ev show_round (length baseline_txs) attack_txs
      (attack_network C threshold keys2 (Some al)) = (Inr [shown e4, shown e5, shown e6], net2)"
    "p_audit_log net2 = Some al2" "al_events al2 = al_events al @ [e4, e5, e6]" "map ae_round_id [e4, e5, e6] = [4, 5, 6]"
    "\<forall>e\<in>{e4, e5, e6}. attack_event e"
    "ready C False w net2" "roster net2 = map (\<lambda>n. (n, False)) honest_names @ [(''Auditor'', True)]"
    "map_option p_status (dget (products_of w) vaccine) = Some Quarantined"
    by (rule attack_rounds [OF assms(1-3,5,6)])
  let ?run = "trust_report [shown e1, shown e2, shown e3] [shown e4, shown e5, shown e6] al2"
  have run: "trust_demo C H S ev threshold keys1 keys2 = (Inr ?run, net2)"
    using b(1,2) a(1,2) by (simp add: trust_demo_def)
  have "map sv_node_id (filter (participates (p_health net2)) (p_servers net2)) = map fst (roster net2)"
    using a(6) by (simp add: ready_def roster_def comp_def)
  then have part: "map sv_node_id (filter (participates (p_health net2)) (p_servers net2)) = honest_names @ [''Auditor'']"
    by (simp add: a(7) comp_def)
  have half: "round4 (double_quotient 3 6) = 1 / 2" by code_simp
  have events: "al_events al2 = [e1, e2, e3, e4, e5, e6]" using a(3) b(3) by simp
  have sum: "tr_summary ?run = \<lparr>as_total_rounds = 6, as_fault_rounds = 3, as_consensus_failure_rounds = 0, as_fault_rate = 1 / 2,
      as_top_faulty_nodes = [(''Auditor'', 3)]\<rparr>"
    using a(5) b(5) half by (simp add: attack_event_def trust_report_def audit_summary_of_def events Let_def dget_or_def)
  have faults: "get_fault_events al2 = [e4, e5, e6]" using a(5) b(5) by (simp add: attack_event_def get_fault_events_def events)
  have ids: "rv_round (shown e) = ae_round_id e" "rv_fault (shown e) = has_fault e" "fe_round (fault_entry_of e) = ae_round_id e" for e
    by (simp_all add: shown_def fault_entry_of_def)
  have views: "tr_baseline ?run = [shown e1, shown e2, shown e3]" "tr_attack ?run = [shown e4, shown e5, shown e6]"
    "tr_faults ?run = [fault_entry_of e4, fault_entry_of e5, fault_entry_of e6]"
    "tr_attack_round ?run = Some 4"
    using a(4,5) by (simp_all add: trust_report_def faults ids attack_event_def)
  have "map (\<lambda>v. (rv_round v, rv_fault v)) (tr_baseline ?run) = [(1, False), (2, False), (3, False)]"
    "map (\<lambda>v. (rv_round v, rv_fault v)) (tr_attack ?run) = [(4, True), (5, True), (6, True)]"
    "map (\<lambda>f. (fe_round f, map fst (fe_lines f))) (tr_faults ?run) = [(4, [''Auditor'']), (5, [''Auditor'']), (6, [''Auditor''])]"
    "\<forall>v\<in>set (tr_attack ?run). map (\<lambda>r. (vr_node r, vr_status r)) (rv_rows v) =
        map (\<lambda>n. (n, ''honest'')) honest_names @ [(''Auditor'', ''HASH FAULT'')]"
    using a(4,5) b(4,5) unfolding views by (simp_all add: ids attack_event_def)
  note goals = this
  show ?thesis by (rule exI [of _ ?run], rule exI [of _ net2], intro conjI, fact run, fact goals(1), fact goals(2), fact goals(4), fact views(4), fact sum, fact goals(3), fact part)
qed

theorem trust_demo_report_witness:
  "\<exists>run net. trust_demo example_crypto example_sha256 sqlite_audit prompt_exchange default_quorum_threshold
      [''k1'', ''k2'', ''k3'', ''k4''] [''k1'', ''k2'', ''k3'', ''k4'', ''k5''] = (Inr run, net)
    \<and> tr_attack_round run = Some 4 \<and> ''Auditor'' \<in> set (map sv_node_id (filter (participates (p_health net)) (p_servers net)))"
proof -
  have "length [''k1'', ''k2'', ''k3'', ''k4''] = 4" "length [''k1'', ''k2'', ''k3'', ''k4'', ''k5''] = 5"
    "default_quorum_threshold \<le> 4 / 5"
    by (simp_all add: default_quorum_threshold_def)
  from trust_demo_report [OF hex_digest_example example_crypto_ok(1) prompt_delivering this, of sqlite_audit]
  obtain run net where "trust_demo example_crypto example_sha256 sqlite_audit prompt_exchange default_quorum_threshold
      [''k1'', ''k2'', ''k3'', ''k4''] [''k1'', ''k2'', ''k3'', ''k4'', ''k5''] = (Inr run, net)"
    "tr_attack_round run = Some 4"
    "map sv_node_id (filter (participates (p_health net)) (p_servers net)) = honest_names @ [''Auditor'']"
    by (elim exE conjE) (rule that)
  then show ?thesis by (intro exI [of _ run] exI [of _ net] conjI) simp_all
qed

end
