(* ===== verification/Dashboard.thy ===== *)
theory Dashboard
  imports Demos BearerToken
begin

section \<open>The dashboard\<close>

text \<open>
  \<open>ecn/dashboard.py\<close>: the tables and panels built from an audit log and the servers of a network,
  the static page and the live run, which rebuilds the page after every broadcast. A table is the
  list of its rows and a panel the values it shows, with the colour of the bar where the code
  chooses one; borders, titles, widths and the ports are left out. The rate has four decimals, so
  the number of filled cells of the bar is exact.
\<close>

definition tx_item :: "string \<Rightarrow> json \<Rightarrow> json option" where
  "tx_item k transaction = (case transaction of JObj kvs \<Rightarrow> dget kvs k | _ \<Rightarrow> None)"

definition tx_type_shown :: "json \<Rightarrow> json" where
  "tx_type_shown transaction = (case tx_item ''type'' transaction of None \<Rightarrow> JStr ''?'' | Some v \<Rightarrow> v)"

definition time_shown :: "string \<Rightarrow> string" where
  "time_shown timestamp = take 11 (drop 11 timestamp)"

record node_row =
  dn_node_id :: string
  dn_malicious :: bool
  dn_key :: string

definition node_table :: "('sk, 'pk) crypto \<Rightarrow> 'sk server list \<Rightarrow> node_row list" where
  "node_table C servers = map (\<lambda>s. \<lparr>dn_node_id = sv_node_id s, dn_malicious = n_malicious (sv_node s),
     dn_key = take 16 (public_key_to_hex C (c_public_key C (sv_private_key s))) @ ''...''\<rparr>) servers"

text \<open>A subject of \<open>None\<close> is shown as a dash, an empty list of faults as \<open>none\<close>.\<close>

record round_row =
  dr_round :: int
  dr_time :: string
  dr_type :: json
  dr_subject :: "json option"
  dr_reached :: bool
  dr_faults :: "string list"

definition round_row_of :: "audit_event \<Rightarrow> round_row" where
  "round_row_of event =
     (let get = (\<lambda>k. case tx_item k (ae_transaction event) of None \<Rightarrow> JNull | Some v \<Rightarrow> v)
      in \<lparr>dr_round = ae_round_id event, dr_time = time_shown (ae_timestamp event),
          dr_type = tx_type_shown (ae_transaction event),
          dr_subject = List.find truthy [get ''product_id'', get ''to'', get ''from''],
          dr_reached = ae_consensus_reached event, dr_faults = ae_faulty_nodes event\<rparr>)"

definition round_table :: "audit_event list \<Rightarrow> int \<Rightarrow> round_row list" where
  "round_table events max_rows = map round_row_of (rev (slice_from (- max_rows) events))"

datatype colour = Green | Yellow | Red

record rate_bar =
  rb_colour :: colour
  rb_filled :: int
  rb_empty :: int
  rb_percent :: rat

record health_view =
  hv_total_rounds :: nat
  hv_fault_rounds :: nat
  hv_consensus_failures :: nat
  hv_bar :: "rate_bar option"
  hv_top :: "(string \<times> int) list"

definition health_panel :: "audit_summary \<Rightarrow> health_view" where
  "health_panel summary =
     (let total = as_total_rounds summary; rate = as_fault_rate summary; filled = \<lfloor>rate * 20\<rfloor>
      in \<lparr>hv_total_rounds = total, hv_fault_rounds = as_fault_rounds summary,
          hv_consensus_failures = as_consensus_failure_rounds summary,
          hv_bar = (if total = 0 then None
            else Some \<lparr>rb_colour = (if rate < 1 / 10 then Green else if rate < 3 / 10 then Yellow else Red),
              rb_filled = filled, rb_empty = 20 - filled, rb_percent = rate * 100\<rparr>),
          hv_top = slice_to 3 (as_top_faulty_nodes summary)\<rparr>)"

record fault_line =
  fl_round :: int
  fl_time :: string
  fl_type :: json
  fl_faulty :: "string list"

record fault_view =
  fv_lines :: "fault_line list"
  fv_total :: nat

definition fault_panel :: "audit_event list \<Rightarrow> fault_view option" where
  "fault_panel fault_events =
     (if fault_events = [] then None
      else Some \<lparr>fv_lines = map (\<lambda>event. \<lparr>fl_round = ae_round_id event, fl_time = time_shown (ae_timestamp event),
             fl_type = tx_type_shown (ae_transaction event), fl_faulty = ae_faulty_nodes event\<rparr>)
           (rev (slice_from (- 5) fault_events)),
         fv_total = length fault_events\<rparr>)"

record static_page =
  sp_nodes :: "node_row list option"
  sp_health :: health_view
  sp_faults :: "fault_view option"
  sp_rounds :: "round_row list option"

definition render_static_dashboard :: "('sk, 'pk) crypto \<Rightarrow> 's audit_log \<Rightarrow> 'sk server list option \<Rightarrow> static_page" where
  "render_static_dashboard C audit_log servers =
     (let events = get_events None 0 audit_log
      in \<lparr>sp_nodes = (case servers of None \<Rightarrow> None | Some ss \<Rightarrow> if ss \<noteq> [] then Some (node_table C ss) else None),
          sp_health = health_panel (audit_summary_of audit_log),
          sp_faults = fault_panel (get_fault_events audit_log),
          sp_rounds = (if events \<noteq> [] then Some (round_table events 15) else None)\<rparr>)"

record page =
  pg_rounds :: "round_row list"
  pg_health :: health_view
  pg_faults :: "fault_view option"
  pg_footer :: "(string \<times> bool) list option"

definition build_layout :: "'s audit_log \<Rightarrow> 'sk server list \<Rightarrow> page" where
  "build_layout audit_log servers =
     \<lparr>pg_rounds = round_table (get_events None 0 audit_log) 12, pg_health = health_panel (audit_summary_of audit_log),
      pg_faults = fault_panel (get_fault_events audit_log),
      pg_footer = (if servers \<noteq> [] then Some (map (\<lambda>s. (sv_node_id s, n_malicious (sv_node s))) servers) else None)\<rparr>"

text \<open>The pages shown, and the log and the network at the end; an exception of a broadcast leaves it.\<close>

definition show_page :: "consensus_result \<Rightarrow> ('sk, 'pk, 's) p2p \<Rightarrow> page option" where
  "show_page cr net = map_option (\<lambda>audit. build_layout audit (p_servers net)) (p_audit_log net)"

definition run_live_dashboard ::
  "('sk, 'pk) crypto \<Rightarrow> sha256 \<Rightarrow> 's audit_ops \<Rightarrow> (nat \<Rightarrow> exchange) \<Rightarrow> rat \<Rightarrow> (string \<times> bool option) list \<Rightarrow> 'sk list
     \<Rightarrow> tx list \<Rightarrow> world \<Rightarrow> (script_error + page list) \<times> ('sk, 'pk, 's) p2p" where
  "run_live_dashboard C H S ev threshold node_configs private_keys transactions initial_state =
     (let audit = \<lparr>al_store = None, al_tenant_id = [], al_events = []\<rparr>;
          net = p2p_create C node_configs private_keys initial_state (Some audit) threshold None None None
      in case p2p_script C H S ev show_page 0 transactions net of
           (r, net') \<Rightarrow> (bindE r (\<lambda>pages. Inr (build_layout audit (p_servers net) # pages)), net'))"

text \<open>The command line entry: six nodes, one of them malicious, nine transactions, and a last static page.\<close>

definition dashboard_configs :: "(string \<times> bool option) list" where
  "dashboard_configs = honest_config [''Warehouse'', ''Shipper'', ''Customs'', ''Insurer'', ''Retailer''] @ [(''BadActor'', Some True)]"

definition dashboard_txs :: "tx list" where
  "dashboard_txs =
     [ship_tx ''LAPTOP-001'' ''port'' ''DHL'', inspect_tx ''LAPTOP-001'' ''physical_check'' ''Lab'',
      receive_tx ''LAPTOP-001'' ''customs'' True, ship_tx ''PHONE-002'' ''airport'' ''FedEx'',
      quarantine_tx ''PHONE-002'' ''suspicious_label'', release_tx ''PHONE-002'' ''inspector'',
      ship_tx ''TABLET-003'' ''retailer_depot'' ''UPS'', receive_tx ''TABLET-003'' ''retailer'' False,
      inspect_tx ''TABLET-003'' ''label_check'' ''QA'']"

definition dashboard_main ::
  "('sk, 'pk) crypto \<Rightarrow> sha256 \<Rightarrow> 's audit_ops \<Rightarrow> (nat \<Rightarrow> exchange) \<Rightarrow> rat \<Rightarrow> 'sk list
     \<Rightarrow> (script_error + page list \<times> static_page option) \<times> ('sk, 'pk, 's) p2p" where
  "dashboard_main C H S ev threshold private_keys =
     (case run_live_dashboard C H S ev threshold dashboard_configs private_keys dashboard_txs
        (make_initial_state [''LAPTOP-001'', ''PHONE-002'', ''TABLET-003'']) of
        (r, net) \<Rightarrow>
          (bindE r (\<lambda>pages. Inr (pages, map_option (\<lambda>audit. render_static_dashboard C audit None) (p_audit_log net))), net))"

subsection \<open>What a page shows\<close>

lemma build_layout_cong:
  "al_events al = al_events al' \<Longrightarrow> roster net = roster net' \<Longrightarrow> build_layout al (p_servers net) = build_layout al' (p_servers net')"
  by (auto simp: build_layout_def get_events_def get_fault_events_def audit_summary_of_def roster_def)

lemma round_table_last:
  "0 < n \<Longrightarrow> round_table events (int n) = map round_row_of (rev (drop (length events - n) events))"
  by (simp add: round_table_def slice_from_def slice_index_def nat_diff_distrib' add.commute flip: of_nat_diff)

text \<open>The bar has twenty cells, and as many are filled as twentieths of the rate.\<close>

lemma health_bar:
  assumes "hv_bar (health_panel (audit_summary_of al)) = Some b"
  shows "0 \<le> rb_filled b \<and> rb_filled b \<le> 20 \<and> rb_filled b + rb_empty b = 20
    \<and> (rb_colour b = Green \<longleftrightarrow> as_fault_rate (audit_summary_of al) < 1 / 10)
    \<and> (rb_filled b = 20 \<longleftrightarrow> as_fault_rate (audit_summary_of al) = 1)"
proof -
  let ?r = "as_fault_rate (audit_summary_of al)"
  have r: "0 \<le> ?r" "?r \<le> 1" using audit_summary_counts [of al] by blast+
  then have "0 \<le> \<lfloor>?r * 20\<rfloor>" "\<lfloor>?r * 20\<rfloor> \<le> 20" "\<lfloor>?r * 20\<rfloor> = 20 \<longleftrightarrow> ?r = 1" by linarith+
  then show ?thesis using assms by (auto simp: health_panel_def Let_def split: if_splits)
qed

text \<open>The page of a trail whose rounds all reached consensus and all named the same nodes.\<close>

definition page_shows :: "string list \<Rightarrow> tx list \<Rightarrow> page \<Rightarrow> bool" where
  "page_shows bad ts pg \<longleftrightarrow>
     map (\<lambda>r. (dr_round r, dr_type r, dr_reached r, dr_faults r)) (pg_rounds pg) =
       map (\<lambda>i. (int i + 1, tx_type_shown (tx_json (ts ! i)), True, bad)) (rev [length ts - 12..<length ts])
     \<and> hv_total_rounds (pg_health pg) = length ts \<and> hv_consensus_failures (pg_health pg) = 0
     \<and> hv_fault_rounds (pg_health pg) = (if bad = [] then 0 else length ts)
     \<and> map_option rb_filled (hv_bar (pg_health pg)) = (if ts = [] then None else Some (if bad = [] then 0 else 20))
     \<and> map_option (\<lambda>fv. map (\<lambda>l. (fl_round l, fl_faulty l)) (fv_lines fv)) (pg_faults pg) =
         (if bad = [] \<or> ts = [] then None else Some (map (\<lambda>i. (int i + 1, bad)) (rev [length ts - 5..<length ts])))"

lemma drop_as_map: "drop k xs = map ((!) xs) [k..<length xs]"
  by (simp add: list_eq_iff_nth_eq)

lemma page_of_rounds:
  assumes "\<forall>e\<in>set (al_events al). ae_consensus_reached e \<and> ae_faulty_nodes e = bad"
    and "map ae_round_id (al_events al) = map int [1..<Suc (length ts)]"
    and "map ae_transaction (al_events al) = map tx_json ts"
  shows "page_shows bad ts (build_layout al servers)"
proof -
  let ?es = "al_events al"
  have len: "length ?es = length ts" using arg_cong [OF assms(3), of length] by simp
  have at: "ae_round_id (?es ! i) = int i + 1" "ae_transaction (?es ! i) = tx_json (ts ! i)" "?es ! i \<in> set ?es"
    if "i < length ts" for i
    using arg_cong [OF assms(2), of "\<lambda>l. l ! i"] arg_cong [OF assms(3), of "\<lambda>l. l ! i"] that len
    by (simp_all del: upt_Suc)
  have faults: "filter has_fault ?es = (if bad = [] then [] else ?es)"
    using assms(1) by (auto simp: has_fault_def)
  have failures: "filter (\<lambda>e. \<not> ae_consensus_reached e) ?es = []" using assms(1) by auto
  have rows: "map (\<lambda>r. (dr_round r, dr_type r, dr_reached r, dr_faults r)) (round_table ?es 12) =
      map (\<lambda>i. (int i + 1, tx_type_shown (tx_json (ts ! i)), True, bad)) (rev [length ts - 12..<length ts])"
    using round_table_last [of 12 ?es] at assms(1)
    by (auto simp: drop_as_map len rev_map round_row_of_def Let_def)
  have lines: "map (\<lambda>e. (ae_round_id e, ae_faulty_nodes e)) (rev (slice_from (- 5) ?es)) =
      map (\<lambda>i. (int i + 1, bad)) (rev [length ts - 5..<length ts])"
    using at assms(1) by (auto simp: slice_from_def slice_index_def drop_as_map len rev_map nat_diff_distrib')
  have events: "get_events None 0 al = ?es" by (simp add: get_events_def slice_from_def slice_index_def)
  have sum: "as_total_rounds (audit_summary_of al) = length ts" "as_consensus_failure_rounds (audit_summary_of al) = 0"
    "as_fault_rounds (audit_summary_of al) = (if bad = [] then 0 else length ts)"
    "ts \<noteq> [] \<Longrightarrow> as_fault_rate (audit_summary_of al) = (if bad = [] then 0 else 1)"
    using len by (auto simp: audit_summary_of_def Let_def faults failures)
  have empty: "?es = [] \<longleftrightarrow> ts = []" using len by (metis length_0_conv)
  show ?thesis
    using sum rows lines
    by (auto simp: page_shows_def build_layout_def events health_panel_def Let_def fault_panel_def get_fault_events_def
        faults empty comp_def)
qed

text \<open>C18. The live dashboard: on a network created in good order, with every message delivered in time and
  transactions that execute one after the other, the run ends with one page per transaction and one
  before the first, and the page after the k-th transaction shows exactly the rounds made so far: the
  last twelve, newest first, each with its number and the type of its transaction, as reached and with
  the malicious nodes as its faults; the number of rounds and of those with a fault; a bar that is
  full when there is a malicious node and empty otherwise; and the last five alerts.\<close>

theorem live_dashboard_feed:
  fixes S :: "'s audit_ops"
  assumes "hex_digest H" and "signs_correctly C" and "\<forall>k. delivering (x_delivery (ev k))"
    and "distinct (map fst cfgs)" and "length keys = length cfgs" and "wf_world v"
    and "decisive threshold 1 (map (\<lambda>(n, mal). (n, mal = Some True)) cfgs)"
    and "execute_all ecn_handlers v ts = Inr ws"
  shows "\<exists>pages net. run_live_dashboard C H S ev threshold cfgs keys ts v = (Inr pages, net)
    \<and> length pages = Suc (length ts)
    \<and> (\<forall>k\<le>length ts. page_shows (map fst (filter (\<lambda>(n, mal). mal = Some True) cfgs)) (take k ts) (pages ! k))"
proof -
  let ?audit = "\<lparr>al_store = None, al_tenant_id = [], al_events = []\<rparr> :: 's audit_log"
  let ?net = "p2p_create C cfgs keys v (Some ?audit) threshold None None None"
  let ?bad = "map fst (filter (\<lambda>(n, mal). mal = Some True) cfgs)"
  note ready = ready_create [OF assms(4-7), of C "Some ?audit"]
  have ros: "culprits (roster ?net) = ?bad"
    by (simp add: roster_create [OF assms(5)] culprits_def filter_map comp_def case_prod_unfold)
  have audit: "p_audit_log ?net = Some ?audit" by (simp add: p2p_create_def p2p_init_def)
  obtain vs where vs: "p2p_script C H S ev (\<lambda>cr net. Some (cr, net)) 0 ts ?net = (Inr vs, last (?net # map snd vs))"
    "good_visits C False H (roster ?net) (Some []) ts ws vs"
    using p2p_session [OF assms(1,2) ready assms(3,8), of S 0] audit by auto
  obtain evs where e: "list_all2 (good_event False H (roster ?net)) ws evs" "map ae_transaction evs = map tx_json ts"
    "map ae_round_id evs = map int [1..<Suc (length ts)]"
    "map (\<lambda>x. map_option al_events (p_audit_log (snd x))) vs = map (\<lambda>k. Some (take (Suc k) evs)) [0..<length ts]"
    using good_visits_trail [OF vs(2) audit] by (auto simp del: upt_Suc)
  have len: "length vs = length ts" using arg_cong [OF e(4), of length] by simp
  have rounds: "\<forall>e\<in>set evs. ae_consensus_reached e \<and> ae_faulty_nodes e = ?bad"
    using e(1) ros by (auto simp: list_all2_conv_all_nth in_set_conv_nth good_event_def)
  have show_evs: "page_shows ?bad (take k ts) (build_layout al servers)" if "al_events al = take k evs" "k \<le> length ts" for k al and servers :: "'a server list"
  proof (rule page_of_rounds)
    show "\<forall>e\<in>set (al_events al). ae_consensus_reached e \<and> ae_faulty_nodes e = ?bad"
      using rounds that by (auto dest: in_set_takeD)
    show "map ae_round_id (al_events al) = map int [1..<Suc (length (take k ts))]"
      using arg_cong [OF e(3), of "take k"] that by (simp add: take_map take_upt min_def del: upt_Suc)
    show "map ae_transaction (al_events al) = map tx_json (take k ts)"
      using arg_cong [OF e(2), of "take k"] that by (simp add: take_map)
  qed
  have at: "\<exists>al. p_audit_log (snd (vs ! k)) = Some al \<and> al_events al = take (Suc k) evs" if "k < length ts" for k
    using arg_cong [OF e(4), of "\<lambda>l. l ! k"] that len by auto
  let ?f = "\<lambda>cr n. build_layout (the (p_audit_log n)) (p_servers n)"
  have "\<forall>(cr, n)\<in>set vs. show_page cr n = Some (?f cr n)"
    using at len by (fastforce simp: in_set_conv_nth show_page_def)
  note script = script_visits [OF vs(1) this]
  let ?pages = "build_layout ?audit (p_servers ?net) # map (\<lambda>(cr, n). ?f cr n) vs"
  have "run_live_dashboard C H S ev threshold cfgs keys ts v = (Inr ?pages, last (?net # map snd vs))"
    by (simp add: run_live_dashboard_def Let_def script)
  moreover have "page_shows ?bad (take k ts) (?pages ! k)" if kle: "k \<le> length ts" for k
  proof (cases k)
    case 0
    then show ?thesis using show_evs [of ?audit 0] by simp
  next
    case (Suc j)
    then obtain al where "p_audit_log (snd (vs ! j)) = Some al" "al_events al = take k evs" using at [of j] kle by auto
    then show ?thesis using show_evs [of al k] kle Suc len by (simp add: case_prod_unfold)
  qed
  ultimately show ?thesis using len by (intro exI [of _ ?pages] exI [of _ "last (?net # map snd vs)"]) simp
qed

lemma dashboard_states:
  "\<exists>ws. execute_all ecn_handlers (make_initial_state [''LAPTOP-001'', ''PHONE-002'', ''TABLET-003'']) dashboard_txs = Inr ws"
  by (simp add: dashboard_txs_def supply_run)

theorem live_dashboard_feed_witness:
  "\<exists>pages net. dashboard_main example_crypto example_sha256 sqlite_audit prompt_exchange default_quorum_threshold
      [''k1'', ''k2'', ''k3'', ''k4'', ''k5'', ''k6''] = (Inr pages, net)
    \<and> length (fst pages) = 10 \<and> page_shows [''BadActor''] dashboard_txs (last (fst pages))"
proof -
  let ?w = "make_initial_state [''LAPTOP-001'', ''PHONE-002'', ''TABLET-003'']"
  let ?keys = "[''k1'', ''k2'', ''k3'', ''k4'', ''k5'', ''k6'']"
  obtain ws where ws: "execute_all ecn_handlers ?w dashboard_txs = Inr ws" using dashboard_states by blast
  have cfg: "distinct (map fst dashboard_configs)" "length ?keys = length dashboard_configs"
    "decisive default_quorum_threshold 1 (map (\<lambda>(n, mal). (n, mal = Some True)) dashboard_configs)"
    "map fst (filter (\<lambda>(n, mal). mal = Some True) dashboard_configs) = [''BadActor'']" "length dashboard_txs = 9"
    by (simp_all add: dashboard_configs_def honest_config_def decisive_def default_quorum_threshold_def dashboard_txs_def)
  obtain pages net where p: "run_live_dashboard example_crypto example_sha256 sqlite_audit prompt_exchange
      default_quorum_threshold dashboard_configs ?keys dashboard_txs ?w = (Inr pages, net)"
    "length pages = 10" "\<forall>k\<le>9. page_shows [''BadActor''] (take k dashboard_txs) (pages ! k)"
    using live_dashboard_feed [OF hex_digest_example example_crypto_ok(1) prompt_delivering cfg(1,2) wf_world_initial cfg(3) ws,
        of sqlite_audit] unfolding cfg(4,5) by auto
  have "last pages = pages ! 9" using p(2) by (cases pages rule: rev_cases) (simp_all add: nth_append)
  moreover have "take 9 dashboard_txs = dashboard_txs" using cfg(5) by simp
  ultimately have "page_shows [''BadActor''] dashboard_txs (last pages)" using p(3) by (metis order_refl)
  then show ?thesis using p(1,2) by (simp add: dashboard_main_def)
qed

end
