(* ===== verification/JsonText.thy ===== *)
theory JsonText
  imports Json
begin

section \<open>The text of JSON values\<close>

text \<open>
  \<open>json.dumps\<close> with its default separators, which is what the program sends, and a reader for this
  text. The lemmas show that the text is printable ASCII without a line break, and that the reader
  gives back the value, whatever follows: so what is asked of \<open>json.loads\<close> elsewhere can be had.
\<close>

abbreviation newline :: char where "newline \<equiv> CHR 0x0A"

fun dumps :: "json \<Rightarrow> string"
  and dumps_elems :: "json list \<Rightarrow> string"
  and dumps_items :: "(string \<times> json) list \<Rightarrow> string"
where
  "dumps JNull = ''null''"
| "dumps (JBool b) = (if b then ''true'' else ''false'')"
| "dumps (JInt i) = str_int i"
| "dumps (JStr s) = json_string s"
| "dumps (JList xs) = ''['' @ dumps_elems xs @ '']''"
| "dumps (JObj kvs) = ''{'' @ dumps_items kvs @ ''}''"
| "dumps_elems [] = []"
| "dumps_elems (x # xs) = dumps x @ (if xs = [] then [] else '', '' @ dumps_elems xs)"
| "dumps_items [] = []"
| "dumps_items ((k, v) # kvs) =
     json_string k @ '': '' @ dumps v @ (if kvs = [] then [] else '', '' @ dumps_items kvs)"

text \<open>The text is printable ASCII, in particular without a line break.\<close>

definition printable :: "char \<Rightarrow> bool" where
  "printable c \<longleftrightarrow> 32 \<le> code c \<and> code c \<le> 126"

lemma hex_char_printable: "d < 16 \<Longrightarrow> printable (hex_char d)"
  by (auto simp: printable_def hex_char_def)

lemma json_escape_printable: "d \<in> set (json_escape c) \<Longrightarrow> printable d"
proof -
  assume d: "d \<in> set (json_escape c)"
  have "code c div 16 < 16" "code c mod 16 < 16" using code_div_less by simp_all
  then have "printable (hex_char (code c div 16))" "printable (hex_char (code c mod 16))" by (simp_all add: hex_char_printable)
  with d show ?thesis by (auto simp: json_escape_def printable_def split: if_splits)
qed

lemma json_string_printable: "d \<in> set (json_string s) \<Longrightarrow> printable d"
  by (auto simp: json_string_def dest: json_escape_printable) (simp_all add: printable_def)

lemma str_int_printable: "d \<in> set (str_int i) \<Longrightarrow> printable d"
  using str_int_chars [of d i] by (auto simp: is_digit_def printable_def)

lemma dumps_printable_all:
  "\<forall>c\<in>set (dumps a). printable c"
  "\<forall>c\<in>set (dumps_elems xs). printable c"
  "\<forall>c\<in>set (dumps_items kvs). printable c"
  by (induction a and xs and kvs rule: dumps_dumps_elems_dumps_items.induct)
     (auto dest: json_string_printable str_int_printable simp: printable_def)

lemma newline_not_printable [simp]: "\<not> printable newline"
  by (simp add: printable_def)

lemma newline_notin_dumps [simp]: "newline \<notin> set (dumps j)"
  using dumps_printable_all(1) [of j] by auto

subsection \<open>A reader\<close>

fun read_string :: "nat \<Rightarrow> string \<Rightarrow> (string \<times> string) option" where
  "read_string 0 s = None"
| "read_string (Suc n) s =
     (case s of
        [] \<Rightarrow> None
      | c # r \<Rightarrow>
          if c = quote then Some ([], r)
          else case json_unescape s of
            None \<Rightarrow> None
          | Some (d, r) \<Rightarrow> map_option (\<lambda>(t, r). (d # t, r)) (read_string n r))"

definition read_number :: "string \<Rightarrow> json \<times> string" where
  "read_number s =
     (let (neg, s) = (case s of c # r \<Rightarrow> if c = CHR ''-'' then (True, r) else (False, s) | [] \<Rightarrow> (False, s));
          n = int (nat_value (takeWhile is_digit s))
      in (JInt (if neg then - n else n), dropWhile is_digit s))"

fun read_value :: "nat \<Rightarrow> string \<Rightarrow> (json \<times> string) option"
  and read_elems :: "nat \<Rightarrow> string \<Rightarrow> (json list \<times> string) option"
  and read_items :: "nat \<Rightarrow> string \<Rightarrow> (json dict \<times> string) option"
where
  "read_value 0 s = None"
| "read_value (Suc n) s =
     (case s of
        [] \<Rightarrow> None
      | c # r \<Rightarrow>
          if c = quote then map_option (\<lambda>(t, r). (JStr t, r)) (read_string n r)
          else if c = CHR ''['' then
            (if r \<noteq> [] \<and> hd r = CHR '']'' then Some (JList [], tl r)
             else map_option (\<lambda>(xs, r). (JList xs, r)) (read_elems n r))
          else if c = CHR ''{'' then
            (if r \<noteq> [] \<and> hd r = CHR ''}'' then Some (JObj [], tl r)
             else map_option (\<lambda>(kvs, r). (JObj kvs, r)) (read_items n r))
          else if c = CHR ''n'' then Some (JNull, drop 3 r)
          else if c = CHR ''t'' then Some (JBool True, drop 3 r)
          else if c = CHR ''f'' then Some (JBool False, drop 4 r)
          else Some (read_number s))"
| "read_elems 0 s = None"
| "read_elems (Suc n) s =
     (case read_value n s of
        None \<Rightarrow> None
      | Some (x, r) \<Rightarrow>
          if r \<noteq> [] \<and> hd r = CHR '']'' then Some ([x], tl r)
          else map_option (\<lambda>(xs, r). (x # xs, r)) (read_elems n (drop 2 r)))"
| "read_items 0 s = None"
| "read_items (Suc n) s =
     (case read_string n (tl s) of
        None \<Rightarrow> None
      | Some (k, r) \<Rightarrow>
          (case read_value n (drop 2 r) of
             None \<Rightarrow> None
           | Some (v, r) \<Rightarrow>
               if r \<noteq> [] \<and> hd r = CHR ''}'' then Some ([(k, v)], tl r)
               else map_option (\<lambda>(kvs, r). ((k, v) # kvs, r)) (read_items n (drop 2 r))))"

definition read_json :: "string \<Rightarrow> json option" where
  "read_json s = map_option fst (read_value (Suc (length s)) s)"

lemma read_string_escapes:
  "length t < n \<Longrightarrow> read_string n (concat (map json_escape t) @ quote # r) = Some (t, r)"
proof (induction t arbitrary: n)
  case Nil
  then show ?case by (cases n) auto
next
  case (Cons c t)
  then obtain n' where n: "n = Suc n'" "length t < n'" by (cases n) auto
  obtain d e where e: "json_escape c = d # e" by (cases "json_escape c") (simp_all add: json_escape_nonempty)
  have "d \<noteq> quote" using json_escape_no_quote [of c "[]" e] e by auto
  then show ?case
    using Cons.IH [OF n(2)] json_unescape_escape [of c "concat (map json_escape t) @ quote # r"] by (simp add: n(1) e)
qed

lemma escape_length: "length t \<le> length (concat (map json_escape t))"
proof (induction t)
  case (Cons c t)
  moreover have "1 \<le> length (json_escape c)" by (cases "json_escape c") (simp_all add: json_escape_nonempty)
  ultimately show ?case by simp
qed simp

lemma takeWhile_digits: "(\<forall>c\<in>set ds. is_digit c) \<Longrightarrow> no_digit_head r \<Longrightarrow> takeWhile is_digit (ds @ r) = ds \<and> dropWhile is_digit (ds @ r) = r"
  by (cases r) (auto simp: takeWhile_append2 dropWhile_append2)

lemma read_number_str_int: "no_digit_head r \<Longrightarrow> read_number (str_int i @ r) = (JInt i, r)"
proof -
  assume r: "no_digit_head r"
  have d: "takeWhile is_digit (str_nat n @ r) = str_nat n \<and> dropWhile is_digit (str_nat n @ r) = r" for n
    by (rule takeWhile_digits) (use r in \<open>auto intro: str_nat_digits\<close>)
  obtain c s where "str_nat (nat i) = c # s" "is_digit c" using hd_str_nat by blast
  moreover from this have "c \<noteq> CHR ''-''" by auto
  ultimately show ?thesis using d [of "nat i"] d [of "nat (- i)"] nat_value_str_nat [of "nat i"]
    by (auto simp: read_number_def str_int_def Let_def)
qed

lemma dumps_head: "\<exists>c r. dumps j = c # r \<and> json_head j c"
  by (cases j) (use hd_str_int in \<open>auto simp: json_string_def\<close>)

lemma dumps_not_closing: "dumps j @ r \<noteq> [] \<and> hd (dumps j @ r) \<noteq> CHR '']'' \<and> hd (dumps j @ r) \<noteq> CHR ''}''"
  using dumps_head [of j] json_head_not_closing by fastforce

lemma read_literals:
  "0 < n \<Longrightarrow> read_value n (''null'' @ r) = Some (JNull, r)" "0 < n \<Longrightarrow> read_value n (''true'' @ r) = Some (JBool True, r)"
  "0 < n \<Longrightarrow> read_value n (''false'' @ r) = Some (JBool False, r)"
  by (cases n; simp)+

lemma read_dumps_all:
  "\<forall>r n. no_digit_head r \<longrightarrow> length (dumps a) < n \<longrightarrow> read_value n (dumps a @ r) = Some (a, r)"
  "\<forall>r n. xs \<noteq> [] \<longrightarrow> length (dumps_elems xs) + 1 < n \<longrightarrow> read_elems n (dumps_elems xs @ CHR '']'' # r) = Some (xs, r)"
  "\<forall>r n. kvs \<noteq> [] \<longrightarrow> length (dumps_items kvs) + 1 < n \<longrightarrow> read_items n (dumps_items kvs @ CHR ''}'' # r) = Some (kvs, r)"
proof (induction a and xs and kvs rule: dumps_dumps_elems_dumps_items.induct)
  case (3 i)
  show ?case
  proof (intro allI impI)
    fix r n assume a: "no_digit_head r" "length (dumps (JInt i)) < n"
    then obtain n' where "n = Suc n'" by (cases n) auto
    moreover obtain c s where cs: "str_int i = c # s" "c = CHR ''-'' \<or> is_digit c" using hd_str_int by blast
    from cs(2) have "c \<noteq> quote \<and> c \<noteq> CHR ''['' \<and> c \<noteq> CHR ''{'' \<and> c \<noteq> CHR ''n'' \<and> c \<noteq> CHR ''t'' \<and> c \<noteq> CHR ''f''"
      by (elim disjE) simp_all
    ultimately show "read_value n (dumps (JInt i) @ r) = Some (JInt i, r)"
      using read_number_str_int [OF a(1), of i] unfolding dumps.simps cs(1) by simp
  qed
next
  case (4 s)
  show ?case
  proof (intro allI impI)
    fix r n assume a: "no_digit_head r" "length (dumps (JStr s)) < n"
    then obtain n' where n: "n = Suc n'" by (cases n) auto
    then have "length s < n'" using a(2) escape_length [of s] by (simp add: json_string_def)
    from read_string_escapes [OF this] show "read_value n (dumps (JStr s) @ r) = Some (JStr s, r)"
      by (simp add: n json_string_def)
  qed
next
  case (5 xs)
  show ?case
  proof (intro allI impI)
    fix r n assume a: "no_digit_head r" "length (dumps (JList xs)) < n"
    then obtain n' where n: "n = Suc n'" "length (dumps_elems xs) + 1 < n'" by (cases n) auto
    show "read_value n (dumps (JList xs) @ r) = Some (JList xs, r)"
    proof (cases xs)
      case Nil
      then show ?thesis by (simp add: n)
    next
      case (Cons x xs')
      have "hd (dumps_elems xs @ CHR '']'' # r) \<noteq> CHR '']''"
        using dumps_not_closing [of x "(if xs' = [] then [] else '', '' @ dumps_elems xs') @ CHR '']'' # r"] by (simp add: Cons)
      then show ?thesis using 5 n Cons by (auto simp del: dumps_elems.simps)
    qed
  qed
next
  case (6 kvs)
  show ?case
  proof (intro allI impI)
    fix r n assume a: "no_digit_head r" "length (dumps (JObj kvs)) < n"
    then obtain n' where n: "n = Suc n'" "length (dumps_items kvs) + 1 < n'" by (cases n) auto
    show "read_value n (dumps (JObj kvs) @ r) = Some (JObj kvs, r)"
    proof (cases kvs)
      case Nil
      then show ?thesis by (simp add: n)
    next
      case (Cons kv kvs')
      have "hd (dumps_items kvs @ CHR ''}'' # r) \<noteq> CHR ''}''" by (cases kv) (simp add: Cons json_string_def)
      then show ?thesis using 6 n Cons by (auto simp del: dumps_items.simps)
    qed
  qed
next
  case (8 x xs)
  show ?case
  proof (intro allI impI)
    fix r n assume a: "x # xs \<noteq> []" "length (dumps_elems (x # xs)) + 1 < n"
    then obtain n' where n: "n = Suc n'" by (cases n) auto
    let ?rest = "(if xs = [] then [] else '', '' @ dumps_elems xs) @ CHR '']'' # r"
    have "read_value n' (dumps x @ ?rest) = Some (x, ?rest)" using 8 a n by auto
    then show "read_elems n (dumps_elems (x # xs) @ CHR '']'' # r) = Some (x # xs, r)"
      using 8 a by (auto simp: n)
  qed
next
  case (10 k v kvs)
  show ?case
  proof (intro allI impI)
    fix r n assume a: "(k, v) # kvs \<noteq> []" "length (dumps_items ((k, v) # kvs)) + 1 < n"
    then obtain n' where n: "n = Suc n'" by (cases n) auto
    let ?rest = "(if kvs = [] then [] else '', '' @ dumps_items kvs) @ CHR ''}'' # r"
    have "read_value n' (dumps v @ ?rest) = Some (v, ?rest)" using 10 a n by auto
    moreover have "length k < n'" using a(2) escape_length [of k] by (simp add: n json_string_def)
    ultimately show "read_items n (dumps_items ((k, v) # kvs) @ CHR ''}'' # r) = Some ((k, v) # kvs, r)"
      using 10 a by (auto simp: n json_string_def read_string_escapes)
  qed
qed (use read_literals in auto)

lemma read_json_dumps: "read_json (dumps j @ [newline]) = Some j"
  using read_dumps_all(1) [of j] by (simp add: read_json_def is_digit_def del: read_value.simps)

end
