(* ===== verification/Wire.thy ===== *)
theory Wire
  imports P2PNetwork Sse JsonText
begin

section \<open>Text on the wire\<close>

text \<open>
  The line protocol between \<open>ecn/p2p_network.py\<close> and \<open>ecn/node_server.py\<close>, byte by byte: a
  transaction is one line of JSON, and so is the answer; and the frames of the event stream of
  \<open>ecn/stream.py\<close>. \<open>dumps\<close> is \<open>json.dumps\<close> with its default separators and \<open>read_line\<close> is
  \<open>StreamReader.readline\<close> with its default limit of 64 KiB, beyond which it raises. Reading a line as
  JSON (\<open>json.loads(line.decode().strip())\<close>) is the parameter \<open>loads\<close>, of which \<open>reads_json\<close> asks that
  it reads what \<open>dumps\<close> wrote; \<open>say\<close> is the text of an exception.

  The lemmas show that a line is what was written, that a broadcast over the text is the broadcast of
  \<open>P2PNetwork\<close>, up to the limit, and that a reader of the event stream sees the chunks.
\<close>

subsection \<open>Lines of JSON\<close>

definition encode_line :: "json \<Rightarrow> string" where
  "encode_line j = utf8 (dumps j @ [newline])"

definition stream_limit :: nat where
  "stream_limit = 65536"

text \<open>\<open>None\<close> is the \<open>ValueError\<close> for a line that is too long; at the end of the input, what is left.\<close>

definition read_line :: "string \<Rightarrow> string option" where
  "read_line bytes =
     (let line = takeWhile (\<lambda>c. c \<noteq> newline) bytes
      in if stream_limit < length line then None
         else Some (if length line < length bytes then line @ [newline] else line))"

lemma encode_line_text: "encode_line j = dumps j @ [newline]"
proof -
  have "\<forall>c\<in>set (dumps j @ [newline]). code c < 128"
    using dumps_printable_all(1) [of j] by (auto simp: printable_def)
  then show ?thesis by (simp add: encode_line_def utf8_ascii del: utf8_simps)
qed

text \<open>A line is read back, whatever follows it, if it is not too long.\<close>

lemma takeWhile_line: "newline \<notin> set xs \<Longrightarrow> takeWhile (\<lambda>c. c \<noteq> newline) (xs @ newline # ys) = xs"
  by (induction xs) auto

lemma read_encoded_line:
  "read_line (encode_line j @ rest) = (if length (dumps j) \<le> stream_limit then Some (encode_line j) else None)"
  by (auto simp: read_line_def encode_line_text takeWhile_line Let_def)

subsection \<open>The line protocol\<close>

definition json_text :: "json option \<Rightarrow> string option" where
  "json_text j = (case j of Some (JStr s) \<Rightarrow> Some s | _ \<Rightarrow> None)"

definition json_flag :: "json option \<Rightarrow> bool option" where
  "json_flag j = (case j of Some (JBool b) \<Rightarrow> Some b | _ \<Rightarrow> None)"

definition json_number :: "json option \<Rightarrow> int option" where
  "json_number j = (case j of Some (JInt i) \<Rightarrow> Some i | _ \<Rightarrow> None)"

text \<open>
  The dict a request holds, as the transaction the handlers take: a field of another type than the one
  the network writes, which the handlers would coerce, counts as missing.
\<close>

definition dict_tx :: "json dict \<Rightarrow> tx" where
  "dict_tx d = \<lparr>tx_type = json_text (dget d ''type''), tx_product_id = json_text (dget d ''product_id''),
     tx_destination = json_text (dget d ''destination''), tx_shipper = json_text (dget d ''shipper''),
     tx_receiver = json_text (dget d ''receiver''), tx_at_customs = json_flag (dget d ''at_customs''),
     tx_check_name = json_text (dget d ''check_name''), tx_inspector = json_text (dget d ''inspector''),
     tx_reason = json_text (dget d ''reason''), tx_released_by = json_text (dget d ''released_by''),
     tx_from = json_text (dget d ''from''), tx_to = json_text (dget d ''to''), tx_amount = json_number (dget d ''amount'')\<rparr>"

datatype request_error = NotExecuted exec_error | LineTooLong | BadJson

definition error_line :: "(request_error \<Rightarrow> string) \<Rightarrow> request_error \<Rightarrow> string" where
  "error_line say e = encode_line (JObj [(''error'', JStr (say e))])"

definition answer_json :: "node_result \<Rightarrow> json" where
  "answer_json r = JObj [(''node_id'', JStr (nr_node_id r)), (''state_hash'', JStr (nr_state_hash r)),
     (''signature'', json_opt_str (nr_signature r))]"

text \<open>
  One connection: what the server writes for the bytes it is sent, and the server after it. A request
  that is not a dict fails at the first access to it, as \<open>BadJson\<close>.
\<close>

definition handle_bytes ::
  "('sk, 'pk) crypto \<Rightarrow> sha256 \<Rightarrow> registry \<Rightarrow> (string \<Rightarrow> json option) \<Rightarrow> (request_error \<Rightarrow> string)
     \<Rightarrow> string \<Rightarrow> 'sk server \<Rightarrow> string \<times> 'sk server" where
  "handle_bytes C H R loads say bytes s =
     (case read_line bytes of
        None \<Rightarrow> (error_line say LineTooLong, s)
      | Some line \<Rightarrow>
          if line = [] then ([], s)
          else case loads line of
            Some (JObj d) \<Rightarrow>
              (case node_execute C H R (sv_node s) (dict_tx d) of
                 (Inl e, nd) \<Rightarrow> (error_line say (NotExecuted e), s\<lparr>sv_node := nd\<rparr>)
               | (Inr r, nd) \<Rightarrow>
                   (encode_line (answer_json r), s\<lparr>sv_node := nd\<rparr>))
          | _ \<Rightarrow> (error_line say BadJson, s))"

text \<open>What the network makes of the answer; \<open>None\<close> is any exception.\<close>

definition read_answer :: "(string \<Rightarrow> json option) \<Rightarrow> string \<Rightarrow> node_result option" where
  "read_answer loads bytes =
     Option.bind (read_line bytes) (\<lambda>line. Option.bind (loads line) (\<lambda>data. case data of
       JObj d \<Rightarrow>
         if dget d ''error'' \<noteq> None then None
         else Option.bind (json_text (dget d ''node_id'')) (\<lambda>node_id.
           Option.bind (json_text (dget d ''state_hash'')) (\<lambda>hash.
             Some \<lparr>nr_node_id = node_id, nr_state_hash = hash, nr_result_state = None, nr_trace_entry = None,
               nr_signature = json_text (dget d ''signature'')\<rparr>))
     | _ \<Rightarrow> None))"

definition send_over_wire ::
  "('sk, 'pk) crypto \<Rightarrow> sha256 \<Rightarrow> registry \<Rightarrow> (string \<Rightarrow> json option) \<Rightarrow> (request_error \<Rightarrow> string)
     \<Rightarrow> tx \<Rightarrow> delivery \<Rightarrow> 'sk server \<Rightarrow> (node_result \<times> rat) option \<times> 'sk server" where
  "send_over_wire C H R loads say t d s =
     (case d of
        Lost_before \<Rightarrow> (None, s)
      | Lost_after \<Rightarrow> (None, snd (handle_bytes C H R loads say (encode_line (tx_json t)) s))
      | Delivered latency_ms \<Rightarrow>
          (case handle_bytes C H R loads say (encode_line (tx_json t)) s of
             (answer, s') \<Rightarrow> (map_option (\<lambda>r. (r, latency_ms)) (read_answer loads answer), s')))"

text \<open>JSON that a Python dict can hold: no key twice.\<close>

fun unique_keys :: "json \<Rightarrow> bool" where
  "unique_keys (JList xs) \<longleftrightarrow> list_all unique_keys xs"
| "unique_keys (JObj kvs) \<longleftrightarrow> distinct (map fst kvs) \<and> list_all (\<lambda>(k, v). unique_keys v) kvs"
| "unique_keys j \<longleftrightarrow> True"

definition reads_json :: "(string \<Rightarrow> json option) \<Rightarrow> bool" where
  "reads_json loads \<longleftrightarrow> (\<forall>j. unique_keys j \<longrightarrow> loads (encode_line j) = Some j)"

text \<open>The dict of a transaction.\<close>

lemma opt_item_key: "k' \<in> fst ` set (opt_item k f v) \<longleftrightarrow> v \<noteq> None \<and> k' = k"
  by (auto simp: opt_item_def split: option.split)

lemma opt_item_distinct:
  "distinct (map fst (opt_item k f v))"
  "distinct (map fst (opt_item k f v @ rest)) \<longleftrightarrow> (v = None \<or> k \<notin> fst ` set rest) \<and> distinct (map fst rest)"
  by (auto simp: opt_item_def split: option.split)

lemma opt_item_plain:
  "list_all (\<lambda>(k, v). unique_keys v) (opt_item k JStr s)" "list_all (\<lambda>(k, v). unique_keys v) (opt_item k JBool b)"
  "list_all (\<lambda>(k, v). unique_keys v) (opt_item k JInt i)"
  by (simp_all add: opt_item_def split: option.split)

lemma unique_keys_obj: "distinct (map fst d) \<Longrightarrow> list_all (\<lambda>(k, v). unique_keys v) d \<Longrightarrow> unique_keys (JObj d)"
  by simp

lemma unique_keys_tx: "unique_keys (tx_json t)"
  unfolding tx_json_def
  by (rule unique_keys_obj; simp only: opt_item_distinct set_append image_Un Un_iff opt_item_key list_all_append opt_item_plain) simp

lemma dget_opt_item:
  "dget (opt_item k f v) k = map_option f v" "k \<noteq> k' \<Longrightarrow> dget (opt_item k f v) k' = None"
  "k \<notin> fst ` set rest \<Longrightarrow> dget (opt_item k f v @ rest) k = map_option f v"
  "k \<noteq> k' \<Longrightarrow> dget (opt_item k f v @ rest) k' = dget rest k'"
  by (auto simp: opt_item_def map_of_eq_None_iff split: option.split)

lemma json_readers [simp]:
  "json_text (map_option JStr v) = v" "json_flag (map_option JBool b) = b" "json_number (map_option JInt i) = i"
  by (simp_all add: json_text_def json_flag_def json_number_def split: option.split)

lemma dict_tx_json: "\<exists>d. tx_json t = JObj d \<and> dict_tx d = t"
  by (simp add: tx_json_def dict_tx_def dget_opt_item opt_item_key image_Un del: map_of_append)

text \<open>The answers read back.\<close>

lemma read_error_line: "reads_json loads \<Longrightarrow> read_answer loads (error_line say e) = None"
  using read_encoded_line [of "JObj [(''error'', JStr (say e))]" "[]"]
  by (simp add: read_answer_def error_line_def reads_json_def)

lemma read_answer_line:
  assumes "reads_json loads" and "length (dumps (answer_json r)) \<le> stream_limit"
  shows "read_answer loads (encode_line (answer_json r)) = Some \<lparr>nr_node_id = nr_node_id r, nr_state_hash = nr_state_hash r,
    nr_result_state = None, nr_trace_entry = None, nr_signature = nr_signature r\<rparr>"
proof -
  have "loads (encode_line (answer_json r)) = Some (answer_json r)"
    using assms(1) by (simp add: reads_json_def answer_json_def json_opt_str_def split: option.split)
  then show ?thesis
    using read_encoded_line [of "answer_json r" "[]"] assms(2)
    by (simp add: read_answer_def answer_json_def json_text_def json_opt_str_def split: option.split)
qed

lemma handle_request_line:
  assumes "reads_json loads"
  shows "handle_bytes C H R loads say (encode_line (tx_json t)) s =
    (if stream_limit < length (dumps (tx_json t)) then (error_line say LineTooLong, s)
     else case node_execute C H R (sv_node s) t of
       (Inl e, nd) \<Rightarrow> (error_line say (NotExecuted e), s\<lparr>sv_node := nd\<rparr>)
     | (Inr r, nd) \<Rightarrow> (encode_line (answer_json r), s\<lparr>sv_node := nd\<rparr>))"
proof -
  obtain d where d: "tx_json t = JObj d" "dict_tx d = t" using dict_tx_json by blast
  have "loads (encode_line (tx_json t)) = Some (tx_json t)" using assms unique_keys_tx by (simp add: reads_json_def)
  moreover have "encode_line (tx_json t) \<noteq> []" by (simp add: encode_line_text)
  ultimately show ?thesis
    using read_encoded_line [of "tx_json t" "[]"] by (simp add: handle_bytes_def d)
qed

text \<open>Answers fit into a line: hashes are hex digests, and Ed25519 signatures have 64 bytes.\<close>

definition short_signatures :: "('sk, 'pk) crypto \<Rightarrow> bool" where
  "short_signatures C \<longleftrightarrow> (\<forall>sk m. length (c_sign C sk m) = 64)"

lemma json_string_length: "length (json_string s) \<le> 6 * length s + 2"
proof -
  have "length (json_escape c) \<le> 6" for c by (simp add: json_escape_def)
  then have "length (concat (map json_escape s)) \<le> 6 * length s"
    by (induction s) (auto simp: add_le_mono)
  then show ?thesis by (simp add: json_string_def)
qed

lemma hex_encode_length: "length (hex_encode bs) = 2 * length bs"
  by (induction bs) (simp_all add: hex_encode_def)

lemma node_answer_sizes:
  assumes "hex_digest H" and "short_signatures C" and "node_execute C H R nd t = (Inr r, nd')"
  shows "nr_node_id r = n_node_id nd \<and> length (nr_state_hash r) = 64
    \<and> (case nr_signature r of None \<Rightarrow> True | Some sg \<Rightarrow> length sg = 128)"
proof -
  have "length (compute_state_hash H sm) = 64" for sm
    using state_hash_digest hex_digestD(1) [OF assms(1)] by (metis compute_state_hash_def)
  moreover from this have "length (corrupt_hash (compute_state_hash H sm)) = 64" for sm by (simp add: corrupt_hash_def)
  ultimately show ?thesis
    using assms(2,3)
    by (auto simp: node_execute_def Let_def sign_result_def hex_encode_length short_signatures_def split: sum.splits option.splits)
qed

lemma answer_fits:
  assumes "hex_digest H" and "short_signatures C" and "length (n_node_id nd) \<le> 5000"
    and "node_execute C H R nd t = (Inr r, nd')"
  shows "length (dumps (answer_json r)) \<le> stream_limit"
proof -
  note sizes = node_answer_sizes [OF assms(1,2,4)]
  have "length (json_string (nr_node_id r)) \<le> 30002" "length (json_string (nr_state_hash r)) \<le> 386"
    using json_string_length [of "nr_node_id r"] json_string_length [of "nr_state_hash r"] sizes assms(3) by auto
  moreover have "length (dumps (json_opt_str (nr_signature r))) \<le> 770"
    using json_string_length [of "the (nr_signature r)"] sizes by (auto simp: json_opt_str_def split: option.splits)
  moreover have "length (json_string ''node_id'') \<le> 44" "length (json_string ''state_hash'') \<le> 62" "length (json_string ''signature'') \<le> 56"
    using json_string_length [of "''node_id''"] json_string_length [of "''state_hash''"] json_string_length [of "''signature''"] by simp_all
  ultimately show ?thesis by (simp add: answer_json_def stream_limit_def)
qed

text \<open>
  Sending over the wire is what the model of the network takes it to be, up to the limit; a transaction
  whose line is longer is executed by no server and counts as a failure of each.
\<close>

lemma wire_transport:
  assumes "reads_json loads" and "hex_digest H" and "short_signatures C" and "length (sv_node_id s) \<le> 5000"
  shows "send_over_wire C H R loads say t d s =
    (if length (dumps (tx_json t)) \<le> stream_limit then send_to_server C H R t d s else (None, s))"
proof (cases "node_execute C H R (sv_node s) t")
  case (Pair x nd)
  then show ?thesis
    using answer_fits [OF assms(2,3,4)]
    by (auto simp: send_over_wire_def handle_request_line [OF assms(1)] send_to_server_def handle_client_def
        read_error_line [OF assms(1)] read_answer_line [OF assms(1)] split: delivery.split sum.split)
qed

subsection \<open>A broadcast over the wire\<close>

text \<open>\<open>broadcast\<close> as \<open>P2PNetwork\<close> has it, each server being sent the line and answering with one.\<close>

definition wire_broadcast ::
  "('sk, 'pk) crypto \<Rightarrow> sha256 \<Rightarrow> registry \<Rightarrow> (string \<Rightarrow> json option) \<Rightarrow> (request_error \<Rightarrow> string)
     \<Rightarrow> 's audit_ops \<Rightarrow> string \<Rightarrow> (string \<Rightarrow> int \<times> int) \<Rightarrow> (string \<Rightarrow> delivery) \<Rightarrow> tx \<Rightarrow> ('sk, 'pk, 's) p2p
     \<Rightarrow> (broadcast_error + node_result list \<times> consensus_result) \<times> ('sk, 'pk, 's) p2p" where
  "wire_broadcast C H R loads say S now clock env t net =
     (let send = (\<lambda>s. send_over_wire C H R loads say t (env (sv_node_id s)) s);
          health = foldl (\<lambda>reg s. snd (get_or_create (sv_node_id s) reg)) (p_health net) (p_servers net);
          participating = filter (participates (p_health net)) (p_servers net);
          raw = map (\<lambda>s. (sv_node_id s, fst (send s))) participating;
          servers = map (\<lambda>s. if participates (p_health net) s then snd (send s) else s) (p_servers net);
          (results, health) = settle clock raw health;
          net = net\<lparr>p_servers := servers, p_health := health\<rparr>
      in if int (length results) < p_min_responses net then
           (Inl (InsufficientQuorum (length results) (length (p_servers net)) (p_min_responses net)), net)
         else
           let cr = run_consensus C results (Some (p_public_keys net)) (p_quorum_threshold net)
           in (Inr (results, cr),
               net\<lparr>p_history := p_history net @ [(t, results, cr)],
                 p_audit_log := map_option (\<lambda>al. snd (audit_record S now (tx_json t) results cr al))
                   (p_audit_log net)\<rparr>))"

text \<open>What reaches the servers of a transaction: nothing of one that does not fit into a line.\<close>

definition line_delivery :: "tx \<Rightarrow> (string \<Rightarrow> delivery) \<Rightarrow> string \<Rightarrow> delivery" where
  "line_delivery t env = (if length (dumps (tx_json t)) \<le> stream_limit then env else (\<lambda>_. Lost_before))"

lemma send_over_wire_delivery:
  assumes "reads_json loads" and "hex_digest H" and "short_signatures C" and "length (sv_node_id s) \<le> 5000"
  shows "send_over_wire C H R loads say t (env (sv_node_id s)) s = send_to_server C H R t (line_delivery t env (sv_node_id s)) s"
  by (simp add: wire_transport [OF assms] line_delivery_def send_to_server_def)

text \<open>C5. A broadcast over the wire is the broadcast the other theories reason about: for every network
  whose node ids are of reasonable length, every transaction and whatever becomes of the messages, the
  lines that the network writes, the answer lines of the servers and what the network reads from them
  give the same result, the same servers, health, history and audit trail as \<open>p2p_broadcast\<close>, if the
  line of the transaction fits into the limit of the stream. A transaction whose line is longer than
  64 KiB is a broadcast in which no message arrives: no node executes it and it counts as a failure of
  every node that takes part.\<close>

theorem wire_broadcast_refines:
  assumes "reads_json loads" and "hex_digest H" and "short_signatures C"
    and "\<And>s. s \<in> set (p_servers net) \<Longrightarrow> length (sv_node_id s) \<le> 5000"
  shows "wire_broadcast C H R loads say S now clock env t net =
    p2p_broadcast C H R S now clock (if length (dumps (tx_json t)) \<le> stream_limit then env else (\<lambda>_. Lost_before)) t net"
proof -
  note send = send_over_wire_delivery [OF assms(1-3) assms(4)]
  have "map (\<lambda>s. (sv_node_id s, fst (send_over_wire C H R loads say t (env (sv_node_id s)) s)))
        (filter (participates (p_health net)) (p_servers net)) =
      map (\<lambda>s. (sv_node_id s, fst (send_to_server C H R t (line_delivery t env (sv_node_id s)) s)))
        (filter (participates (p_health net)) (p_servers net))"
    and "map (\<lambda>s. if participates (p_health net) s then snd (send_over_wire C H R loads say t (env (sv_node_id s)) s) else s)
        (p_servers net) =
      map (\<lambda>s. if participates (p_health net) s then snd (send_to_server C H R t (line_delivery t env (sv_node_id s)) s) else s)
        (p_servers net)"
    by (auto simp: send)
  then show ?thesis by (simp only: wire_broadcast_def p2p_broadcast_def line_delivery_def Let_def)
qed

text \<open>The reader of \<open>JsonText\<close> is as required.\<close>

lemma reads_json_reader: "reads_json read_json"
  by (simp add: reads_json_def encode_line_text read_json_dumps)

definition padded_crypto :: "(string, string) crypto" where
  "padded_crypto = example_crypto\<lparr>c_sign := \<lambda>sk m. take 64 (sk @ m @ replicate 64 (CHR ''0''))\<rparr>"

lemma padded_signatures: "short_signatures padded_crypto"
  by (auto simp: short_signatures_def padded_crypto_def min_def)

theorem wire_broadcast_refines_witness:
  "wire_broadcast padded_crypto example_sha256 ecn_handlers read_json (\<lambda>_. ''error'') sqlite_audit ''now'' (\<lambda>_. (0, 0))
      (\<lambda>_. Delivered 5) (example_transfer 100) example_p2p =
    p2p_broadcast padded_crypto example_sha256 ecn_handlers sqlite_audit ''now'' (\<lambda>_. (0, 0))
      (\<lambda>_. Delivered 5) (example_transfer 100) example_p2p"
proof -
  have "str_int 100 = ''100''" by code_simp
  then have "length (dumps (tx_json (example_transfer 100))) \<le> stream_limit"
    by (simp add: tx_json_def opt_item_def example_transfer_def blank_tx_def json_string_def json_escape_def stream_limit_def)
  moreover have "\<And>s. s \<in> set (p_servers example_p2p) \<Longrightarrow> length (sv_node_id s) \<le> 5000"
    by (auto simp: example_p2p_servers server_init_def node_init_def)
  ultimately show ?thesis
    by (simp add: wire_broadcast_refines [OF reads_json_reader hex_digest_example padded_signatures])
qed

subsection \<open>The event stream\<close>

definition chunk_json :: "int \<Rightarrow> json \<Rightarrow> json" where
  "chunk_json seq payload = JObj [(''seq'', JInt seq), (''payload'', payload)]"

text \<open>What the generator yields for a chunk; its end and an exception yield nothing.\<close>

definition sse_text :: "json chunk \<Rightarrow> string" where
  "sse_text c =
     (case c of
        Data seq payload \<Rightarrow> ''data: '' @ dumps (chunk_json seq payload) @ [newline, newline]
      | Heartbeat \<Rightarrow> '': heartbeat'' @ [newline, newline]
      | _ \<Rightarrow> [])"

text \<open>
  What an event source makes of the lines of a stream, with the data lines of the event it has begun: a
  blank line dispatches them, a line that begins with a colon is a comment, other fields are ignored.
\<close>

fun join_lines :: "string list \<Rightarrow> string" where
  "join_lines [] = []"
| "join_lines [l] = l"
| "join_lines (l # ls) = l @ newline # join_lines ls"

fun dispatched :: "string list \<Rightarrow> string list \<Rightarrow> string list" where
  "dispatched buffer [] = []"
| "dispatched buffer (l # ls) =
     (if l = [] then (if buffer = [] then dispatched [] ls else join_lines buffer # dispatched [] ls)
      else if take 6 l = ''data: '' then dispatched (buffer @ [drop 6 l]) ls
      else if take 5 l = ''data:'' then dispatched (buffer @ [drop 5 l]) ls
      else dispatched buffer ls)"

definition received :: "string \<Rightarrow> json list" where
  "received text = map (\<lambda>d. the (read_json (d @ [newline]))) (dispatched [] (split_on newline text))"

lemma split_line: "newline \<notin> set l \<Longrightarrow> split_on newline (l @ newline # newline # rest) = l # [] # split_on newline rest"
  using split_on_cons [of newline l "newline # rest"] split_on_cons [of newline "[]" rest] by simp

text \<open>C16. A reader of the event stream sees the chunks: whatever the generator yields, heartbeats and payloads
  with any text in them included, splitting the bytes into lines and taking the data of each event
  gives the sequence numbers and payloads that were sent, one event each, in order.\<close>

theorem event_stream_readable:
  "received (concat (map sse_text cs)) = map (\<lambda>(seq, payload). chunk_json seq payload) (sent cs)"
proof -
  have "dispatched [] (split_on newline (concat (map sse_text cs))) = map (\<lambda>(seq, payload). dumps (chunk_json seq payload)) (sent cs)"
  proof (induction cs)
    case Nil
    then show ?case by simp
  next
    case (Cons c cs)
    have none: "sse_text End = []" "sse_text (Raise e) = []" for e by (simp_all add: sse_text_def)
    have sent: "sent (c # cs) = (case c of Data s x \<Rightarrow> [(s, x)] | _ \<Rightarrow> []) @ sent cs" for c :: "json chunk"
      by (simp add: sent_def map_filter_def split: chunk.split)
    show ?case
    proof (cases c)
      case (Data s x)
      have "newline \<notin> set (''data: '' @ dumps (chunk_json s x))" by simp
      from split_line [OF this, of "concat (map sse_text cs)"] show ?thesis
        using Cons by (simp add: Data sse_text_def [of "Data s x"] sent del: split_on.simps)
    next
      case Heartbeat
      have "newline \<notin> set '': heartbeat''" by simp
      from split_line [OF this, of "concat (map sse_text cs)"] show ?thesis
        using Cons by (simp add: Heartbeat sse_text_def [of Heartbeat] sent del: split_on.simps)
    qed (use Cons in \<open>simp_all add: none sent del: split_on.simps\<close>)
  qed
  then show ?thesis by (auto simp: received_def read_json_dumps case_prod_unfold comp_def)
qed

end
