(* ===== verification/Lifecycle.thy ===== *)
theory Lifecycle
  imports Wire
begin

section \<open>Starting and stopping servers\<close>

text \<open>
  The listeners of \<open>ecn/node_server.py\<close> and what \<open>P2PNetwork.create\<close>, \<open>P2PNetwork.shutdown\<close> and the end
  of \<open>lifespan\<close> do with them, and the health endpoint. The state is the list of endpoints the process
  listens on. What the operating system grants is a parameter: \<open>may_bind\<close> says whether an endpoint can
  be bound next to those in use and \<open>pick\<close> which port it assigns for port 0; \<open>grants_once\<close> states
  what is used of it. A refused endpoint is the \<open>OSError\<close> of \<open>start_server\<close>. A server has one
  endpoint: a host name that resolves to several addresses is taken as one.

  The lemmas show that creating and shutting down leaves no listener behind, that a creation that
  fails leaves those already started, and that the health endpoint gives a well-framed answer.
\<close>

type_synonym endpoint = "string \<times> int"

record os_ops =
  may_bind :: "endpoint list \<Rightarrow> endpoint \<Rightarrow> bool"
  pick :: "endpoint list \<Rightarrow> string \<Rightarrow> int option"

definition grants_once :: "os_ops \<Rightarrow> bool" where
  "grants_once os \<longleftrightarrow> (\<forall>bound e. may_bind os bound e \<longrightarrow> e \<notin> set bound)
     \<and> (\<forall>bound host p. pick os bound host = Some p \<longrightarrow> 0 < p \<and> may_bind os bound (host, p))"

text \<open>\<open>asyncio.start_server\<close>.\<close>

definition listen :: "os_ops \<Rightarrow> endpoint \<Rightarrow> endpoint list \<Rightarrow> (endpoint \<times> endpoint list) option" where
  "listen os e bound =
     (if snd e = 0 then map_option (\<lambda>p. ((fst e, p), bound @ [(fst e, p)])) (pick os bound (fst e))
      else if may_bind os bound e then Some (e, bound @ [e]) else None)"

record 'sk host_server =
  hs_server :: "'sk server"
  hs_host :: string
  hs_port :: int
  hs_health_port :: "int option"
  hs_listener :: "endpoint option"
  hs_health_listener :: "endpoint option"

definition default_node_host :: "string option \<Rightarrow> string" where
  "default_node_host env = strip (case env of None \<Rightarrow> ''127.0.0.1'' | Some h \<Rightarrow> h)"

definition host_server_init ::
  "string option \<Rightarrow> string \<Rightarrow> world \<Rightarrow> int \<Rightarrow> string \<Rightarrow> bool \<Rightarrow> int option \<Rightarrow> 'sk \<Rightarrow> 'sk host_server" where
  "host_server_init env node_id initial_state port host malicious health_port private_key =
     \<lparr>hs_server = server_init node_id initial_state malicious private_key,
      hs_host = (if host \<noteq> [] then host else default_node_host env), hs_port = port, hs_health_port = health_port,
      hs_listener = None, hs_health_listener = None\<rparr>"

text \<open>Whether it returned, and the state it leaves when it raises as well.\<close>

definition server_start :: "os_ops \<Rightarrow> 'sk host_server \<Rightarrow> endpoint list \<Rightarrow> bool \<times> 'sk host_server \<times> endpoint list" where
  "server_start os s bound =
     (case listen os (hs_host s, hs_port s) bound of
        None \<Rightarrow> (False, s, bound)
      | Some (e, bound) \<Rightarrow>
          let s = s\<lparr>hs_listener := Some e, hs_port := (if hs_port s = 0 then snd e else hs_port s)\<rparr>
          in case hs_health_port s of
               None \<Rightarrow> (True, s, bound)
             | Some hp \<Rightarrow>
                 (case listen os (hs_host s, hp) bound of
                    None \<Rightarrow> (False, s, bound)
                  | Some (he, bound) \<Rightarrow> (True, s\<lparr>hs_health_listener := Some he\<rparr>, bound)))"

definition close_listener :: "endpoint option \<Rightarrow> endpoint list \<Rightarrow> endpoint list" where
  "close_listener l bound = (case l of None \<Rightarrow> bound | Some e \<Rightarrow> remove1 e bound)"

definition server_stop :: "'sk host_server \<Rightarrow> endpoint list \<Rightarrow> 'sk host_server \<times> endpoint list" where
  "server_stop s bound =
     (s\<lparr>hs_listener := None, hs_health_listener := None\<rparr>,
      close_listener (hs_health_listener s) (close_listener (hs_listener s) bound))"

record node_config =
  cf_node_id :: string
  cf_port :: "int option"
  cf_malicious :: "bool option"
  cf_host :: "string option"

text \<open>The loop of \<open>P2PNetwork.create\<close>; \<open>None\<close> when a server could not be started.\<close>

fun start_servers ::
  "os_ops \<Rightarrow> string option \<Rightarrow> world \<Rightarrow> int \<Rightarrow> (node_config \<times> 'sk) list \<Rightarrow> endpoint list
     \<Rightarrow> 'sk host_server list option \<times> endpoint list" where
  "start_servers os env w port [] bound = (Some [], bound)"
| "start_servers os env w port ((cfg, sk) # cfgs) bound =
     (case server_start os (host_server_init env (cf_node_id cfg) w
          (case cf_port cfg of None \<Rightarrow> port | Some p \<Rightarrow> p)
          (case cf_host cfg of None \<Rightarrow> default_node_host env | Some h \<Rightarrow> h) (cf_malicious cfg = Some True) None sk) bound of
        (False, s, bound) \<Rightarrow> (None, bound)
      | (True, s, bound) \<Rightarrow>
          (case start_servers os env w (port + 1) cfgs bound of
             (ss, bound) \<Rightarrow> (map_option (\<lambda>ss. s # ss) ss, bound)))"

fun shutdown_servers :: "'sk host_server list \<Rightarrow> endpoint list \<Rightarrow> 'sk host_server list \<times> endpoint list" where
  "shutdown_servers [] bound = ([], bound)"
| "shutdown_servers (s # ss) bound =
     (case server_stop s bound of (s, bound) \<Rightarrow> (case shutdown_servers ss bound of (ss, bound) \<Rightarrow> (s # ss, bound)))"

text \<open>The end of \<open>lifespan\<close>: the networks of the tenants, then the main network.\<close>

definition lifespan_shutdown :: "'sk host_server list list \<Rightarrow> 'sk host_server list option \<Rightarrow> endpoint list \<Rightarrow> endpoint list" where
  "lifespan_shutdown tenant_networks network bound =
     (let bound = foldl (\<lambda>bound ss. snd (shutdown_servers ss bound)) bound tenant_networks
      in case network of None \<Rightarrow> bound | Some ss \<Rightarrow> snd (shutdown_servers ss bound))"

subsection \<open>What is listened on\<close>

definition listens_on :: "'sk host_server \<Rightarrow> endpoint list" where
  "listens_on s = (case hs_listener s of None \<Rightarrow> [] | Some e \<Rightarrow> [e]) @ (case hs_health_listener s of None \<Rightarrow> [] | Some e \<Rightarrow> [e])"

definition endpoints :: "'sk host_server list \<Rightarrow> endpoint list" where
  "endpoints ss = concat (map listens_on ss)"

lemma endpoints_simps [simp]: "endpoints [] = []" "endpoints (s # ss) = listens_on s @ endpoints ss"
  by (simp_all add: endpoints_def)

lemma listen_fresh:
  assumes "grants_once os" and "listen os e bound = Some (e', bound')"
  shows "bound' = bound @ [e'] \<and> e' \<notin> set bound \<and> snd e' \<noteq> 0 \<and> fst e' = fst e \<and> (snd e \<noteq> 0 \<longrightarrow> e' = e)"
proof -
  have once: "may_bind os bound x \<Longrightarrow> x \<notin> set bound" "pick os bound h = Some p \<Longrightarrow> 0 < p \<and> may_bind os bound (h, p)" for x h p
    using assms(1) unfolding grants_once_def by blast+
  show ?thesis
    using assms(2) once(1) [of e] once(1) [of e'] once(2) [of "fst e" "snd e'"] by (auto simp: listen_def split: if_splits)
qed

lemma start_without_health:
  assumes "grants_once os" and "server_start os s bound = (ok, s', bound')" and "hs_health_port s = None"
    and "hs_listener s = None" and "hs_health_listener s = None"
  shows "hs_server s' = hs_server s \<and> (if ok
    then \<exists>e. listens_on s' = [e] \<and> e = (hs_host s, hs_port s') \<and> hs_port s' \<noteq> 0 \<and> bound' = bound @ [e] \<and> e \<notin> set bound
      \<and> (hs_port s \<noteq> 0 \<longrightarrow> hs_port s' = hs_port s)
    else bound' = bound)"
proof (cases "listen os (hs_host s, hs_port s) bound")
  case None
  then show ?thesis using assms(2) by (auto simp: server_start_def)
next
  case (Some p)
  obtain e b where p: "p = (e, b)" by (cases p)
  note f = listen_fresh [OF assms(1) Some [unfolded p]]
  have "fst e = hs_host s" "snd e \<noteq> 0" "hs_port s \<noteq> 0 \<longrightarrow> snd e = hs_port s" using f by auto
  then show ?thesis using assms(2-5) Some f by (cases e) (auto simp: server_start_def p listens_on_def)
qed

lemmas init_simps = host_server_init_def

lemma start_servers_ok:
  assumes "grants_once os" and "start_servers os env w port cfgs bound = (Some ss, bound')" and "distinct bound"
  shows "bound' = bound @ endpoints ss \<and> distinct bound' \<and> length ss = length cfgs
    \<and> endpoints ss = map (\<lambda>s. (hs_host s, hs_port s)) ss \<and> 0 \<notin> set (map hs_port ss)
    \<and> map (\<lambda>s. sv_node_id (hs_server s)) ss = map (\<lambda>(cfg, sk). cf_node_id cfg) cfgs"
  using assms(2,3)
proof (induction cfgs arbitrary: port bound ss)
  case (Cons cfg cfgs)
  obtain c sk where c: "cfg = (c, sk)" by (cases cfg)
  let ?s0 = "host_server_init env (cf_node_id c) w (case cf_port c of None \<Rightarrow> port | Some p \<Rightarrow> p)
    (case cf_host c of None \<Rightarrow> default_node_host env | Some h \<Rightarrow> h) (cf_malicious c = Some True) None sk"
  obtain s b ss' where s: "server_start os ?s0 bound = (True, s, b)" "start_servers os env w (port + 1) cfgs b = (Some ss', bound')"
    "ss = s # ss'"
    using Cons.prems(1) unfolding c by (auto split: prod.splits bool.splits)
  from start_without_health [OF assms(1) s(1)] have st: "hs_server s = hs_server ?s0"
    "\<exists>e. listens_on s = [e] \<and> e = (hs_host ?s0, hs_port s) \<and> hs_port s \<noteq> 0 \<and> b = bound @ [e] \<and> e \<notin> set bound"
    by (simp_all add: init_simps)
  have names: "hs_host s = hs_host ?s0" "sv_node_id (hs_server ?s0) = cf_node_id c"
    using s(1) by (auto simp: server_start_def init_simps server_init_def node_init_def Let_def split: option.splits)
  have "distinct b" using st(2) Cons.prems(2) by auto
  note ih = Cons.IH [OF s(2) this]
  have bound: "bound' = bound @ endpoints ss" using ih st(2) by (auto simp: s(3))
  have "distinct bound'" using ih by blast
  then show ?case
    by (intro conjI bound) (use ih names st in \<open>auto simp: s(3) c\<close>)
qed simp

lemma start_servers_failed:
  assumes "grants_once os" and "start_servers os env w port cfgs bound = (None, bound')" and "distinct bound"
  shows "\<exists>k ss. k < length cfgs \<and> start_servers os env w port (take k cfgs) bound = (Some ss, bound')"
  using assms(2,3)
proof (induction cfgs arbitrary: port bound)
  case (Cons cfg cfgs)
  obtain c sk where c: "cfg = (c, sk)" by (cases cfg)
  let ?s0 = "host_server_init env (cf_node_id c) w (case cf_port c of None \<Rightarrow> port | Some p \<Rightarrow> p)
    (case cf_host c of None \<Rightarrow> default_node_host env | Some h \<Rightarrow> h) (cf_malicious c = Some True) None sk"
  obtain ok s b where s: "server_start os ?s0 bound = (ok, s, b)" by (cases "server_start os ?s0 bound") auto
  show ?case
  proof (cases ok)
    case False
    then have "bound' = bound" using start_without_health [OF assms(1) s] Cons.prems s by (simp add: init_simps c)
    then show ?thesis by (intro exI [of _ 0]) simp
  next
    case True
    then have "distinct b" using start_without_health [OF assms(1) s] Cons.prems(2) by (auto simp: init_simps)
    moreover have "start_servers os env w (port + 1) cfgs b = (None, bound')"
      using Cons.prems(1) True s by (auto simp: c split: prod.splits)
    ultimately obtain k ss where k: "k < length cfgs" "start_servers os env w (port + 1) (take k cfgs) b = (Some ss, bound')"
      using Cons.IH by blast
    have "start_servers os env w port (take (Suc k) (cfg # cfgs)) bound = (Some (s # ss), bound')"
      using k(2) True s by (simp add: c)
    then show ?thesis using k(1) by (intro exI [of _ "Suc k"] exI [of _ "s # ss"]) simp
  qed
qed simp

lemma mset_close: "mset (close_listener l b) = mset b - mset (case l of None \<Rightarrow> [] | Some e \<Rightarrow> [e])"
  by (simp add: close_listener_def split: option.split)

lemma mset_shutdown: "mset (snd (shutdown_servers ss bound)) = mset bound - mset (endpoints ss)"
proof (induction ss arbitrary: bound)
  case (Cons s ss)
  then show ?case by (simp add: server_stop_def listens_on_def mset_close case_prod_unfold diff_diff_add add.assoc)
qed simp

lemma distinct_shutdown: "distinct bound \<Longrightarrow> distinct (snd (shutdown_servers ss bound))"
  by (induction ss arbitrary: bound)
    (simp_all add: server_stop_def close_listener_def case_prod_unfold distinct_remove1 split: option.split)

lemma shutdown_closes: "endpoints (fst (shutdown_servers ss bound)) = []"
  by (induction ss arbitrary: bound) (auto simp: server_stop_def listens_on_def case_prod_unfold)

subsection \<open>A process\<close>

text \<open>
  What a process can do: create a network, successfully or not, and shut one of its networks down. The
  endpoints are those in use; \<open>leaked\<close> are those left by creations that failed. What the system grants
  may be different each time, as other processes take ports and release them.
\<close>

inductive process :: "'sk host_server list list \<Rightarrow> endpoint list \<Rightarrow> endpoint list \<Rightarrow> bool" where
  start: "process [] [] []"
| create: "process nets leaked bound \<Longrightarrow> grants_once os \<Longrightarrow> start_servers os env w port cfgs bound = (Some ss, bound') \<Longrightarrow>
    process (nets @ [ss]) leaked bound'"
| create_fails: "process nets leaked bound \<Longrightarrow> grants_once os \<Longrightarrow>
    start_servers os env w port (cfgs :: (node_config \<times> 'sk) list) bound = (None, bound @ eps) \<Longrightarrow>
    process nets (leaked @ eps) (bound @ eps)"
| close: "process (xs @ (ss :: 'sk host_server list) # ys) leaked bound \<Longrightarrow> process (xs @ ys) leaked (snd (shutdown_servers ss bound))"

lemma mset_networks: "mset (endpoints (concat (xs @ ss # ys))) = mset (endpoints ss) + mset (endpoints (concat (xs @ ys)))"
  by (simp add: endpoints_def)

lemma process_endpoints:
  assumes "process nets leaked bound"
  shows "mset bound = mset (endpoints (concat nets)) + mset leaked \<and> distinct bound"
  using assms
proof induction
  case (create nets leaked bound os env w port cfgs ss bound')
  note ok = start_servers_ok [OF create(2,3) conjunct2 [OF create(4)]]
  have "bound' = bound @ endpoints ss" "distinct bound'" using ok by blast+
  then show ?case using create(4) by (simp add: endpoints_def)
next
  case (create_fails nets leaked bound os env w port cfgs eps)
  obtain k ss where "start_servers os env w port (take k cfgs) bound = (Some ss, bound @ eps)"
    using start_servers_failed [OF create_fails(2,3) conjunct2 [OF create_fails(4)]] by blast
  note start_servers_ok [OF create_fails(2) this conjunct2 [OF create_fails(4)]]
  then have "distinct (bound @ eps)" by blast
  then show ?case using create_fails(4) by simp
next
  case (close xs ss ys leaked bound)
  let ?after = "snd (shutdown_servers ss bound)"
  have "mset ?after = mset (endpoints (concat (xs @ ys))) + mset leaked"
    using close(2) unfolding mset_shutdown mset_networks by simp
  moreover have "distinct ?after"
    using close(2) distinct_shutdown by blast
  ultimately show ?case by blast
qed simp

lemma mset_shutdown_all:
  "mset (foldl (\<lambda>bound ss. snd (shutdown_servers ss bound)) bound nets) = mset bound - mset (endpoints (concat nets))"
  by (induction nets arbitrary: bound) (simp_all add: mset_shutdown endpoints_def diff_diff_add)

text \<open>C13. The listeners of a process: whatever networks it creates and closes, and however many creations
  fail, the endpoints it listens on are, each once, those of its open networks and those left by failed
  creations; and when the server ends, closing the networks of the tenants and then its own, exactly
  the latter remain. So a process in which no creation failed ends with no listener.\<close>

theorem process_listeners:
  assumes "process (main # tenants) leaked bound"
  shows "mset bound = mset (endpoints main) + mset (endpoints (concat tenants)) + mset leaked \<and> distinct bound
    \<and> mset (lifespan_shutdown tenants (Some main) bound) = mset leaked"
proof -
  note p = process_endpoints [OF assms]
  then show ?thesis
    by (simp add: lifespan_shutdown_def mset_shutdown mset_shutdown_all endpoints_def)
qed

text \<open>C14. A network that cannot be created leaves the listeners it has: when \<open>P2PNetwork.create\<close> fails in some
  state of a process, the servers of the first k configurations, for some k less than their number, were
  started; the endpoints in use are those before and one for each of these k servers, which the process
  then counts among those left by failed creations, with no network that could be closed. If k is
  zero, nothing is left. If k is positive and the port of the first server is fixed, then in every state
  of a process with these endpoints among those left by failed creations, another attempt with the same
  configuration fails without starting anything, whatever the system then grants of the endpoints that
  are not in use.\<close>

theorem failed_creation_leaks:
  fixes cfgs :: "(node_config \<times> 'sk) list"
  assumes "process (nets :: 'sk host_server list list) leaked bound" and "grants_once os"
    and "start_servers os env w port cfgs bound = (None, bound')"
  shows "\<exists>k ss. k < length cfgs \<and> start_servers os env w port (take k cfgs) bound = (Some ss, bound')
    \<and> bound' = bound @ endpoints ss \<and> length (endpoints ss) = k \<and> process nets (leaked @ endpoints ss) bound'
    \<and> (\<forall>os2 (nets2 :: 'sk host_server list list) leaked2 bound2.
         0 < k \<and> (case cf_port (fst (hd cfgs)) of None \<Rightarrow> port | Some p \<Rightarrow> p) \<noteq> 0 \<and> grants_once os2
         \<and> process nets2 leaked2 bound2 \<and> set (endpoints ss) \<subseteq> set leaked2
         \<longrightarrow> start_servers os2 env w port cfgs bound2 = (None, bound2))"
proof -
  have distinct: "distinct bound" using process_endpoints [OF assms(1)] by blast
  obtain k ss where k: "k < length cfgs" "start_servers os env w port (take k cfgs) bound = (Some ss, bound')"
    using start_servers_failed [OF assms(2,3) distinct] by blast
  note ok = start_servers_ok [OF assms(2) k(2) distinct]
  have "length (endpoints ss) = k" using ok k(1) by auto
  moreover have "process nets (leaked @ endpoints ss) bound'"
    using process.create_fails [OF assms(1,2)] assms(3) ok by blast
  moreover have "start_servers os2 env w port cfgs bound2 = (None, bound2)"
    if pos: "0 < k" and fixed: "(case cf_port (fst (hd cfgs)) of None \<Rightarrow> port | Some p \<Rightarrow> p) \<noteq> 0"
      and os2: "grants_once os2" and later: "process (nets2 :: 'sk host_server list list) leaked2 bound2" "set (endpoints ss) \<subseteq> set leaked2"
    for os2 nets2 leaked2 bound2
  proof -
    have "set_mset (mset bound2) = set (endpoints (concat nets2)) \<union> set leaked2"
      using process_endpoints [OF later(1)] by simp
    then have still: "set (endpoints ss) \<subseteq> set bound2" using later(2) by auto
    obtain c sk cfgs' where c: "cfgs = (c, sk) # cfgs'" using k(1) by (cases cfgs) auto
    let ?s0 = "host_server_init env (cf_node_id c) w (case cf_port c of None \<Rightarrow> port | Some p \<Rightarrow> p)
      (case cf_host c of None \<Rightarrow> default_node_host env | Some h \<Rightarrow> h) (cf_malicious c = Some True) None sk"
    obtain k' where k': "k = Suc k'" using pos by (cases k) auto
    have p0: "hs_port ?s0 \<noteq> 0" using fixed by (simp add: c init_simps)
    obtain s b ss' where s: "server_start os ?s0 bound = (True, s, b)" "ss = s # ss'"
      using k(2) unfolding c k' by (auto split: prod.splits bool.splits)
    from start_without_health [OF assms(2) s(1)] have "listens_on s = [(hs_host ?s0, hs_port ?s0)]"
      using p0 by (simp add: init_simps)
    then have "(hs_host ?s0, hs_port ?s0) \<in> set bound2" using still by (auto simp: s(2))
    then have "\<not> may_bind os2 bound2 (hs_host ?s0, hs_port ?s0)" using os2 unfolding grants_once_def by blast
    then have "server_start os2 ?s0 bound2 = (False, ?s0, bound2)" using p0 by (simp add: server_start_def listen_def)
    then show ?thesis by (simp add: c)
  qed
  ultimately show ?thesis using k ok by blast
qed

subsection \<open>Witnesses\<close>

text \<open>Systems that grant every free endpoint, except in the second for one port.\<close>

definition free_os :: os_ops where
  "free_os = \<lparr>may_bind = (\<lambda>bound e. e \<notin> set bound), pick = (\<lambda>bound host. Some (1 + Max (set (0 # map snd bound))))\<rparr>"

definition busy_os :: os_ops where
  "busy_os = free_os\<lparr>may_bind := (\<lambda>bound e. e \<notin> set bound \<and> snd e \<noteq> 18001), pick := (\<lambda>bound host. None)\<rparr>"

lemma grants_once_examples: "grants_once free_os" "grants_once busy_os"
proof -
  have le: "snd e \<le> Max (set (0 # map snd bound))" if "e \<in> set bound" for e :: endpoint and bound by (rule Max_ge) (use that in auto)
  have "(host, 1 + Max (set (0 # map snd bound))) \<notin> set bound" for host :: string and bound :: "endpoint list"
    using le [of "(host, 1 + Max (set (0 # map snd bound)))" bound] by (auto simp del: set_simps)
  moreover have "0 < 1 + Max (insert 0 (snd ` set bound))" for bound :: "endpoint list"
    using Max_ge [OF finite.insertI [OF finite_imageI [OF finite_set [of bound]]] insertI1, of 0 snd]
    by linarith
  ultimately show "grants_once free_os" by (simp add: grants_once_def free_os_def)
  show "grants_once busy_os" by (simp add: grants_once_def busy_os_def free_os_def)
qed

definition plain_config :: "string \<Rightarrow> int option \<Rightarrow> node_config" where
  "plain_config node_id port = \<lparr>cf_node_id = node_id, cf_port = port, cf_malicious = None, cf_host = Some ''h''\<rparr>"

lemmas server_run = plain_config_def host_server_init_def server_start_def listen_def free_os_def busy_os_def Let_def

theorem process_listeners_witness:
  "\<exists>main net bound. start_servers free_os None empty_world 18000 [(plain_config ''A'' None, ''k1''), (plain_config ''B'' None, ''k2'')] []
      = (Some main, bound)
    \<and> bound = [(''h'', 18000), (''h'', 18001)]
    \<and> start_servers free_os None empty_world 0 [(plain_config ''T'' (Some 0), ''k3'')] bound = (Some net, bound @ [(''h'', 18002)])
    \<and> lifespan_shutdown [net] (Some main) (bound @ [(''h'', 18002)]) = []"
proof -
  obtain main where main: "start_servers free_os None empty_world 18000 [(plain_config ''A'' None, ''k1''), (plain_config ''B'' None, ''k2'')] []
      = (Some main, [(''h'', 18000), (''h'', 18001)])"
    by (simp add: server_run)
  obtain net where net: "start_servers free_os None empty_world 0 [(plain_config ''T'' (Some 0), ''k3'')] [(''h'', 18000), (''h'', 18001)]
      = (Some net, [(''h'', 18000), (''h'', 18001), (''h'', 18002)])"
    by (simp add: server_run)
  have "process ([] @ [main]) [] [(''h'', 18000), (''h'', 18001)]"
    by (rule process.create [OF process.start grants_once_examples(1) main])
  from process.create [OF this grants_once_examples(1) net]
  have "process (main # [net]) [] [(''h'', 18000), (''h'', 18001), (''h'', 18002)]" by simp
  from process_listeners [OF this]
  have "lifespan_shutdown [net] (Some main) [(''h'', 18000), (''h'', 18001), (''h'', 18002)] = []" by simp
  with main net show ?thesis by auto
qed

theorem failed_creation_leaks_witness:
  "start_servers busy_os None empty_world 18000 [(plain_config ''A'' None, ''k1''), (plain_config ''B'' None, ''k2'')] []
      = (None, [(''h'', 18000)])
   \<and> start_servers free_os None empty_world 18000 [(plain_config ''A'' None, ''k1''), (plain_config ''B'' None, ''k2'')] [(''h'', 18000)]
      = (None, [(''h'', 18000)])"
proof -
  let ?cfgs = "[(plain_config ''A'' None, ''k1''), (plain_config ''B'' None, ''k2'')]"
  have fails: "start_servers busy_os None empty_world 18000 ?cfgs [] = (None, [(''h'', 18000)])" by (simp add: server_run)
  from failed_creation_leaks [OF process.start grants_once_examples(2) fails] obtain k ss where
    k: "start_servers busy_os None empty_world 18000 (take k ?cfgs) [] = (Some ss, [(''h'', 18000)])"
    "[(''h'', 18000)] = [] @ endpoints ss" "process ([] :: string host_server list list) ([] @ endpoints ss) [(''h'', 18000::int)]"
    and retry: "\<forall>os2 (nets2 :: string host_server list list) leaked2 bound2. 0 < k
      \<and> (case cf_port (fst (hd ?cfgs)) of None \<Rightarrow> 18000 | Some p \<Rightarrow> p) \<noteq> 0 \<and> grants_once os2
      \<and> process nets2 leaked2 bound2 \<and> set (endpoints ss) \<subseteq> set leaked2
      \<longrightarrow> start_servers os2 None empty_world 18000 ?cfgs bound2 = (None, bound2)"
    by (elim exE conjE) (rule that)
  have "0 < k" using k(1) by (cases k) auto
  then have "start_servers free_os None empty_world 18000 ?cfgs [(''h'', 18000)] = (None, [(''h'', 18000)])"
    using k(2,3) grants_once_examples(1) by (intro retry [rule_format, of free_os "[]" "[] @ endpoints ss"]) (simp add: plain_config_def)
  with fails show ?thesis by blast
qed

subsection \<open>The health endpoint\<close>

abbreviation crlf :: string where "crlf \<equiv> [CHR 0x0D, newline]"

definition health_json :: "('sk, 'pk) crypto \<Rightarrow> 'sk host_server \<Rightarrow> json" where
  "health_json C s = JObj
     [(''status'', JStr ''ok''), (''node_id'', JStr (sv_node_id (hs_server s))), (''host'', JStr (hs_host s)),
      (''port'', JInt (hs_port s)), (''malicious'', JBool (n_malicious (sv_node (hs_server s)))),
      (''public_key_hex'',
        JStr (take 16 (public_key_to_hex C (c_public_key C (sv_private_key (hs_server s)))) @ ''...''))]"

definition health_response :: "('sk, 'pk) crypto \<Rightarrow> 'sk host_server \<Rightarrow> string" where
  "health_response C s =
     (let body = dumps (health_json C s)
      in utf8 (''HTTP/1.1 200 OK'' @ crlf @ ''Content-Type: application/json'' @ crlf
           @ ''Content-Length: '' @ str_nat (length body) @ crlf @ ''Connection: close'' @ crlf @ crlf @ body))"

lemma read_line_prefix: "read_line bytes = Some line \<Longrightarrow> length line \<le> length bytes \<and> (line = [] \<longrightarrow> bytes = [])"
proof -
  assume r: "read_line bytes = Some line"
  have "length (takeWhile (\<lambda>c. c \<noteq> newline) bytes) \<le> length bytes" by (rule length_takeWhile_le)
  then show ?thesis using r by (auto simp: read_line_def Let_def split: if_splits)
qed

text \<open>
  The lines of the request are read and discarded up to a blank one or the end of the input; a line that
  is too long raises, and nothing is answered.
\<close>

function drain_request :: "string \<Rightarrow> bool" where
  "drain_request bytes =
     (case read_line bytes of
        None \<Rightarrow> False
      | Some line \<Rightarrow> if line \<in> {[], crlf, [newline]} then True else drain_request (drop (length line) bytes))"
  by pat_completeness auto

termination
  by (relation "measure length") (auto dest!: read_line_prefix simp: diff_less_Suc less_imp_diff_less intro!: diff_less)

declare drain_request.simps [simp del]

definition handle_health :: "('sk, 'pk) crypto \<Rightarrow> string \<Rightarrow> 'sk host_server \<Rightarrow> string" where
  "handle_health C bytes s = (if drain_request bytes then health_response C s else [])"

text \<open>What an HTTP client takes as the body: what follows the first blank line.\<close>

fun http_body :: "string \<Rightarrow> string" where
  "http_body [] = []"
| "http_body (c # cs) = (if take 4 (c # cs) = crlf @ crlf then drop 4 (c # cs) else http_body cs)"

lemma http_body_skip: "CHR 0x0D \<notin> set l \<Longrightarrow> http_body (l @ s) = http_body s"
  by (induction l) auto

lemma http_body_line: "CHR 0x0D \<notin> set l \<Longrightarrow> c \<noteq> CHR 0x0D \<Longrightarrow> http_body (l @ crlf @ c # s) = http_body (c # s)"
  using http_body_skip [of l "crlf @ c # s"] by simp

lemma http_body_last: "CHR 0x0D \<notin> set l \<Longrightarrow> http_body (l @ crlf @ crlf @ body) = body"
  using http_body_skip [of l "crlf @ crlf @ body"] by simp

lemma health_body_ascii: "\<forall>c\<in>set (dumps j). code c < 128"
  using dumps_printable_all(1) [of j] by (auto simp: printable_def)

lemma health_response_text:
  "health_response C s = ''HTTP/1.1 200 OK'' @ crlf @ ''Content-Type: application/json'' @ crlf
     @ ''Content-Length: '' @ str_nat (length (dumps (health_json C s))) @ crlf @ ''Connection: close'' @ crlf @ crlf
     @ dumps (health_json C s)"
proof -
  have digits: "\<forall>c\<in>set (str_nat n). code c < 128" for n by (auto simp: is_digit_def dest: str_nat_digits)
  show ?thesis unfolding health_response_def Let_def by (rule utf8_ascii) (use digits health_body_ascii in auto)
qed

lemma health_response_body: "http_body (health_response C s) = dumps (health_json C s)"
proof -
  have "CHR 0x0D \<notin> set (''Content-Length: '' @ str_nat n)" for n by (auto simp: is_digit_def dest: str_nat_digits)
  from http_body_line [OF this, of "CHR ''C''"] show ?thesis
    unfolding health_response_text using http_body_last [of "''Connection: close''"] by simp
qed

lemma drain_line:
  assumes "newline \<notin> set l" and "l \<noteq> []" and "l \<noteq> [CHR 0x0D]" and "length l \<le> stream_limit"
  shows "drain_request (l @ newline # bytes) = drain_request bytes"
proof -
  have "read_line (l @ newline # bytes) = Some (l @ [newline])"
    using assms(1,4) by (simp add: read_line_def takeWhile_line)
  then show ?thesis using assms(2,3) by (subst drain_request.simps) auto
qed

lemma drain_lines:
  assumes "\<forall>l\<in>set ls. newline \<notin> set l \<and> l \<noteq> [] \<and> l \<noteq> [CHR 0x0D] \<and> length l \<le> stream_limit"
  shows "drain_request (concat (map (\<lambda>l. l @ [newline]) ls) @ crlf @ rest)"
  using assms
proof (induction ls)
  case Nil
  have "read_line (crlf @ rest) = Some crlf" by (simp add: read_line_def stream_limit_def)
  then show ?case by (subst drain_request.simps) simp
next
  case (Cons l ls)
  then show ?case using drain_line [of l] by simp
qed

text \<open>The health endpoint: a request of any lines up to 64 KiB each, whatever its method and path, is
  answered as soon as its blank line has come, and with the same response; the body of the response, which
  is what follows its first blank line, has the length its header announces in bytes, and is the JSON
  object with the id, the port and the mode of the server.\<close>

lemma health_endpoint:
  assumes "\<forall>l\<in>set ls. newline \<notin> set l \<and> l \<noteq> [] \<and> l \<noteq> [CHR 0x0D] \<and> length l \<le> stream_limit"
  shows "let response = handle_health C (concat (map (\<lambda>l. l @ [newline]) ls) @ crlf @ rest) s in
    read_json (http_body response @ [newline]) = Some (health_json C s)
    \<and> (\<exists>before after. response = before @ crlf @ ''Content-Length: '' @ str_nat (length (http_body response)) @ crlf @ after)
    \<and> (\<forall>c\<in>set response. code c < 128)"
proof -
  let ?r = "health_response C s"
  have r: "handle_health C (concat (map (\<lambda>l. l @ [newline]) ls) @ crlf @ rest) s = ?r"
    using drain_lines [OF assms] by (simp add: handle_health_def)
  have "?r = (''HTTP/1.1 200 OK'' @ crlf @ ''Content-Type: application/json'') @ crlf @ ''Content-Length: ''
      @ str_nat (length (http_body ?r)) @ crlf @ (''Connection: close'' @ crlf @ crlf @ dumps (health_json C s))"
    unfolding health_response_body by (simp add: health_response_text)
  moreover have "\<forall>c\<in>set ?r. code c < 128"
    using health_body_ascii [of "health_json C s"] unfolding health_response_text
    by (auto simp: is_digit_def dest: str_nat_digits)
  moreover have "read_json (http_body ?r @ [newline]) = Some (health_json C s)"
    by (simp add: health_response_body read_json_dumps)
  ultimately show ?thesis unfolding r Let_def by blast
qed

lemma health_endpoint_example:
  "read_json (http_body (handle_health example_crypto (''GET /health HTTP/1.1'' @ crlf @ ''Host: h'' @ crlf @ crlf)
      (host_server_init None ''N'' empty_world 9001 ''h'' False (Some 9101) ''k'')) @ [newline]) =
    Some (health_json example_crypto (host_server_init None ''N'' empty_world 9001 ''h'' False (Some 9101) ''k''))"
proof -
  let ?ls = "[''GET /health HTTP/1.1'' @ [CHR 0x0D], ''Host: h'' @ [CHR 0x0D]]"
  have "\<forall>l\<in>set ?ls. newline \<notin> set l \<and> l \<noteq> [] \<and> l \<noteq> [CHR 0x0D] \<and> length l \<le> stream_limit" by (simp add: stream_limit_def)
  from health_endpoint [OF this, of example_crypto "[]" "host_server_init None ''N'' empty_world 9001 ''h'' False (Some 9101) ''k''"]
  show ?thesis by (simp add: Let_def)
qed

end
