(* ===== verification/RoundViews.thy ===== *)
theory RoundViews
  imports Demos
begin

section \<open>What is shown of a round\<close>

text \<open>
  The console reports of \<open>ecn/network.py\<close> and \<open>ecn/p2p_network.py\<close> (\<open>_print_round\<close>), as the values they
  print, the event a tenant's routes return (\<open>_event_to_dict\<close> of \<open>ecn/tenant.py\<close>), the list of tenants,
  and the request id that \<open>ecn/api.py\<close> attaches to a response. The lemmas show that the console, the
  tenant's view and the audit trail tell the same of a round.
\<close>

record round_line =
  rl_node_id :: string
  rl_hash :: string
  rl_signature :: "string option"
  rl_diff :: "(string \<times> int \<times> int) list"
  rl_flags :: "string list"

text \<open>\<open>rp_agreed\<close> is \<open>None\<close> where the failure of the consensus is printed.\<close>

record round_report =
  rr_lines :: "round_line list"
  rr_agreed :: "string option option"
  rr_faulty :: "string list"

definition round_flags :: "consensus_result \<Rightarrow> node_result \<Rightarrow> string list" where
  "round_flags cr r =
     (if nr_node_id r \<in> set (cr_invalid_sig_nodes cr) then [''INVALID SIG'']
      else if nr_node_id r \<in> set (cr_faulty_nodes cr) then [''FAULT DETECTED''] else [])"

definition print_footer :: "consensus_result \<Rightarrow> round_line list \<Rightarrow> round_report" where
  "print_footer cr lines = \<lparr>rr_lines = lines,
     rr_agreed = (if cr_consensus_reached cr then Some (cr_agreed_hash cr) else None), rr_faulty = cr_faulty_nodes cr\<rparr>"

definition network_print_round :: "node_result list \<Rightarrow> consensus_result \<Rightarrow> round_report" where
  "network_print_round results cr = print_footer cr
     (map (\<lambda>r. \<lparr>rl_node_id = nr_node_id r, rl_hash = nr_state_hash r, rl_signature = map_option (take 12) (nr_signature r),
        rl_diff = (case nr_trace_entry r of None \<Rightarrow> [] | Some te \<Rightarrow> te_diff te), rl_flags = round_flags cr r\<rparr>) results)"

text \<open>Over the network an empty signature is shown as none.\<close>

definition p2p_print_round :: "node_result list \<Rightarrow> consensus_result \<Rightarrow> round_report" where
  "p2p_print_round results cr = print_footer cr
     (map (\<lambda>r. \<lparr>rl_node_id = nr_node_id r, rl_hash = nr_state_hash r,
        rl_signature = (case nr_signature r of None \<Rightarrow> None | Some s \<Rightarrow> if s \<noteq> [] then Some (take 12 s) else None),
        rl_diff = [], rl_flags = round_flags cr r\<rparr>) results)"

definition tenant_event_items :: "audit_event \<Rightarrow> json dict" where
  "tenant_event_items e =
    [(''round_id'', JInt (ae_round_id e)), (''timestamp'', JStr (ae_timestamp e)), (''transaction'', ae_transaction e),
     (''consensus_reached'', JBool (ae_consensus_reached e)), (''agreed_hash'', json_opt_str (ae_agreed_hash e)),
     (''honest_nodes'', JList (map JStr (ae_honest_nodes e))), (''faulty_nodes'', JList (map JStr (ae_faulty_nodes e))),
     (''votes'', JList (map vote_to_dict (ae_votes e)))]"

record tenant_line =
  tl_tenant_id :: string
  tl_name :: string
  tl_node_count :: nat

definition list_tenants_route :: "('sk, 'pk, 's) tenant_registry option \<Rightarrow> http_error + tenant_line list" where
  "list_tenants_route reg =
     (case reg of
        None \<Rightarrow> Inl Crash
      | Some reg \<Rightarrow> Inr (map (\<lambda>(tid, name, n). \<lparr>tl_tenant_id = tid, tl_name = name, tl_node_count = n\<rparr>) (list_tenants reg)))"

text \<open>\<open>header\<close> is the request's \<open>X-ECN-Request-ID\<close> and \<open>fresh\<close> the result of \<open>uuid4\<close>.\<close>

definition add_request_id :: "string option \<Rightarrow> string \<Rightarrow> string dict \<Rightarrow> string dict" where
  "add_request_id header fresh response_headers =
     dset ''X-ECN-Request-ID'' (case header of None \<Rightarrow> fresh | Some h \<Rightarrow> if h \<noteq> [] then h else fresh) response_headers"

subsection \<open>The views agree\<close>

definition flag_of :: "string \<Rightarrow> string list" where
  "flag_of status = (if status = ''honest'' then [] else if status = ''hash_fault'' then [''FAULT DETECTED''] else [''INVALID SIG''])"

lemma round_flags_status: "round_flags cr r = flag_of (vote_status cr r)"
  by (simp add: round_flags_def vote_status_def flag_of_def)

lemma request_id_attached:
  "dget (add_request_id header fresh hs) ''X-ECN-Request-ID'' =
    Some (if header \<in> {None, Some []} then fresh else the header)"
  by (auto simp: add_request_id_def split: option.split)

lemma tenant_items_in_trail: "\<exists>items. event_to_dict e = JObj items \<and> set (tenant_event_items e) \<subseteq> set items"
  by (simp add: event_to_dict_def tenant_event_items_def)

text \<open>C15. The views of a round agree: for every round a network with an audit trail completes, the console
  report, the event appended to the trail and the answer of a tenant's route tell the same: the report
  has one line for each vote of the event, with its node and hash, flagged exactly when and as the
  vote is not honest; it names the agreed hash when the event says that consensus was reached, and the
  faulty nodes of the event; and all the route returns is in the event.\<close>

theorem round_views_agree:
  assumes "p2p_broadcast C H R S now clock env t net = (Inr (rs, cr), net')" and "p_audit_log net = Some al"
  shows "\<exists>al' e items. p_audit_log net' = Some al' \<and> al_events al' = al_events al @ [e] \<and> ae_transaction e = tx_json t
    \<and> map (\<lambda>l. (rl_node_id l, rl_hash l, rl_flags l)) (rr_lines (p2p_print_round rs cr)) =
        map (\<lambda>v. (nv_node_id v, nv_state_hash v, flag_of (nv_status v))) (ae_votes e)
    \<and> rr_agreed (p2p_print_round rs cr) = (if ae_consensus_reached e then Some (ae_agreed_hash e) else None)
    \<and> rr_faulty (p2p_print_round rs cr) = ae_faulty_nodes e
    \<and> event_to_dict e = JObj items \<and> set (tenant_event_items e) \<subseteq> set items"
proof -
  let ?e = "make_event (int (length (al_events al)) + 1) now (tx_json t) rs cr"
  let ?al = "snd (audit_record S now (tx_json t) rs cr al)"
  obtain items where "event_to_dict ?e = JObj items" "set (tenant_event_items ?e) \<subseteq> set items"
    using tenant_items_in_trail by blast
  moreover have "p_audit_log net' = Some ?al" using p2p_broadcast_trail(2) [OF assms(1)] assms(2) by simp
  moreover have "al_events ?al = al_events al @ [?e]" by (simp add: audit_record_events)
  ultimately show ?thesis
    by (intro exI [of _ ?al] exI [of _ ?e] exI [of _ items])
      (simp add: p2p_print_round_def print_footer_def make_event_def round_flags_status comp_def)
qed

text \<open>Two of three equal hashes are a strict majority, and the report says that there is none.\<close>

lemma majority_reported_missing:
  "let cr = run_consensus example_crypto [example_vote ''N1'' ''a'', example_vote ''N2'' ''a'', example_vote ''N3'' ''b''] None (7 / 10)
   in rr_agreed (p2p_print_round rs cr) = None \<and> dget (cr_vote_counts cr) ''a'' = Some 2"
  by (simp add: p2p_print_round_def print_footer_def Let_def) code_simp

theorem round_views_agree_witness:
  "\<exists>rs cr net' al' e. p2p_broadcast example_crypto example_sha256 ecn_handlers sqlite_audit ''now'' (\<lambda>_. (0, 0)) (\<lambda>_. delivery.Delivered 5)
      (ship_tx ''X'' ''port'' ''DHL'')
      (p2p_create example_crypto (honest_config [''N1'', ''N2'', ''N3''] @ [(''N4'', Some True)]) [''k1'', ''k2'', ''k3'', ''k4'']
        (make_initial_state [''X'']) (Some \<lparr>al_store = None, al_tenant_id = [], al_events = []\<rparr>) (3 / 4) None None None)
      = (Inr (rs, cr), net')
    \<and> p_audit_log net' = Some al' \<and> al_events al' = [e] \<and> rr_faulty (p2p_print_round rs cr) = ae_faulty_nodes e"
proof -
  let ?audit = "\<lparr>al_store = None, al_tenant_id = [], al_events = []\<rparr> :: audit_table audit_log"
  let ?net = "p2p_create example_crypto (honest_config [''N1'', ''N2'', ''N3''] @ [(''N4'', Some True)]) [''k1'', ''k2'', ''k3'', ''k4'']
    (make_initial_state [''X'']) (Some ?audit) (3 / 4) None None None"
  have ready: "ready example_crypto False (make_initial_state [''X'']) ?net"
    using wf_world_initial by (intro one_attacker_network(1); simp)
  have d: "delivering (\<lambda>_. delivery.Delivered 5)" by (simp add: delivering_def)
  obtain w where w: "execute ecn_handlers (make_initial_state [''X'']) (ship_tx ''X'' ''port'' ''DHL'') = Inr w"
    by (simp add: supply_run)
  obtain rs cr net' where b: "p2p_broadcast example_crypto example_sha256 ecn_handlers sqlite_audit ''now'' (\<lambda>_. (0, 0))
      (\<lambda>_. delivery.Delivered 5) (ship_tx ''X'' ''port'' ''DHL'') ?net = (Inr (rs, cr), net')"
    by (rule ready_round [OF hex_digest_example example_crypto_ok(1) ready d w])
  have "p_audit_log ?net = Some ?audit" by (simp add: p2p_create_def p2p_init_def)
  from round_views_agree [OF b this] obtain al' e where "p_audit_log net' = Some al'" "al_events al' = [e]"
    "rr_faulty (p2p_print_round rs cr) = ae_faulty_nodes e"
    by auto
  with b show ?thesis by blast
qed

end
