(* ===== verification/Spec2Isabelle.thy ===== *)
theory Spec2Isabelle
  imports Network Overlap Client TrustDemo Dashboard Lifecycle RoundViews
begin

text \<open>
  The Executable Consensus Network (ECN): nodes execute every transaction independently, sign the
  hash of the resulting state, and a round of voting settles which hash is agreed; around it, a
  server that audits, bills and publishes every round, for itself and for isolated tenants.

  \<^bold>\<open>Parts of the program and the theories that model them\<close> (paths under \<open>src/ecn\<close>)

  \<^item> \<open>Prelude\<close>, \<open>PyFloat\<close>, \<open>PyText\<close>, \<open>Json\<close>: what the code uses of Python. Results that may raise (\<open>Inl\<close> the
    exception), insertion-ordered dicts, bounded deques, slices; rounded quotients; decimal text, UTF-8, JSON string
    literals, \<open>split\<close>, \<open>strip\<close>, \<open>lower\<close>; JSON values and \<open>_canonical_json\<close>.
  \<^item> \<open>WorldState\<close>: the state dict, products and transactions; \<open>ExecutionEngine\<close>:
    \<open>execution_engine.py\<close>; \<open>SupplyChain\<close>: \<open>use_cases/supply_chain.py\<close>, whose \<open>ecn_handlers\<close> is the
    handler table of the running server.
  \<^item> \<open>StateManager\<close>: \<open>state_manager.py\<close>; \<open>Crypto\<close>: \<open>crypto.py\<close>; \<open>Node\<close>: \<open>node.py\<close>;
    \<open>ConsensusRound\<close>: \<open>consensus.py\<close>; \<open>Network\<close>: the in-process \<open>network.py\<close>.
  \<^item> \<open>NodeHealth\<close>: \<open>node_health.py\<close>; \<open>P2PNetwork\<close>: \<open>node_server.py\<close> and \<open>p2p_network.py\<close>, where a
    broadcast sends to the servers that are not excluded, records their health, runs the consensus
    and appends to the audit log; \<open>Overlap\<close>: broadcasts that wait at the same time; \<open>Lifecycle\<close>: the
    endpoints servers bind, start, stop and the health endpoint.
  \<^item> \<open>JsonText\<close>, \<open>Wire\<close>: the text of the line protocol between a network and its servers and of the
    event stream, with a reader; \<open>RoundViews\<close>: the console reports and the tenants' view of a round.
  \<^item> \<open>Persistence\<close>: \<open>persistence.py\<close>, five stores and the schema version; \<open>AuditLog\<close>: \<open>audit.py\<close>;
    \<open>Transaction\<close>: \<open>transaction.py\<close>; \<open>Billing\<close>: \<open>billing.py\<close>; \<open>Stream\<close>: the event bus of
    \<open>stream.py\<close>; \<open>Sse\<close>: its generator of server-sent events.
  \<^item> \<open>Base64\<close>, \<open>BearerToken\<close>, \<open>Auth\<close>: \<open>auth.py\<close>, its bearer tokens and its API keys.
  \<^item> \<open>Webhooks\<close>, \<open>Api\<close>, \<open>Routes\<close>: \<open>api.py\<close>; \<open>Tenant\<close>: \<open>tenant.py\<close>. \<open>Api\<close> composes the others: a
    submission runs the lifecycle of \<open>Transaction\<close> around a broadcast of \<open>P2PNetwork\<close>, reads the
    event back from \<open>AuditLog\<close>, bills it with \<open>Billing\<close>, publishes it with \<open>Stream\<close> and saves the
    record in memory and in the store of \<open>Persistence\<close>.
  \<^item> \<open>Client\<close>: \<open>sdk.py\<close>, each method as the request it sends and what it makes of the response,
    over the routes of \<open>Routes\<close> and \<open>Tenant\<close>.
  \<^item> \<open>Session\<close>: a script that broadcasts and looks at each round, the common form of the programs
    that follow; \<open>Demos\<close>: \<open>main.py\<close> and \<open>demo_p2p.py\<close>; \<open>TrustDemo\<close>: \<open>trust_failure_demo.py\<close>;
    \<open>Dashboard\<close>: \<open>dashboard.py\<close>, its panels as values and the live run.

  \<^bold>\<open>State and operations.\<close> A class is a record with the fields of its \<open>__init__\<close>; a method is a
  function that returns its result together with the new record; an exception is an \<open>Inl\<close> value,
  with the state it leaves where a handler has already changed something. The globals of the server
  are the record \<open>app\<close>; objects shared by reference (the audit log of a network, the health
  registry) are kept in one place and read from there. Routes return \<open>Http n\<close> for an
  \<open>HTTPException\<close> and \<open>Crash\<close> for an exception nothing catches. What a run does is a fold over its
  operations or an inductive relation (\<open>key_life\<close>, \<open>health_reach\<close>, \<open>life\<close>, \<open>tenant_step\<close>, \<open>sse_run\<close>, \<open>process\<close>), and the
  properties are about all of them.

  \<^bold>\<open>Interfaces.\<close> \<open>world_handler\<close> and \<open>handler_registry\<close> (what the engine needs of a handler) are
  interpreted on the eight handlers and on both tables; \<open>audit_store\<close>, \<open>key_store\<close>,
  \<open>counter_store\<close>, \<open>ledger_store\<close> and \<open>tx_store\<close> (the abstract classes of \<open>persistence.py\<close>) on the
  SQLite stores, the counter and the ledger also on the in-memory ones of \<open>billing.py\<close>;
  \<open>registry_store\<close> (a key registry over any key store), \<open>billing_backends\<close> (a tracker over any
  counters and ledger) and \<open>health_tracker\<close> on the model's own definitions.

  \<^bold>\<open>What the lemmas show.\<close>
  Execution: each handler's exact effect and guards, products that move along the status relation,
  balances that stay non-negative, states that stay well-formed, a trace that replays to the state,
  a hash that identifies the state and a Merkle root that commits to every leaf, up to SHA-256 collisions.
  Agreement: the winner is the least of the most frequent hashes among the results whose signature
  counts; results without a valid signature change nothing; a threshold above one half tolerates exactly a bounded
  dissent; sending line by line is sending as the network is modelled; nodes fed the same
  transactions hold the same state; a broadcast decides for the honest; whatever broadcasts overlap,
  each server is a replica of the transactions it received, in its own order.
  Resources: the endpoints of a process are those of its open networks and those a failed creation left.
  Books: the audit trail, the ledger, the counters and the transaction records are what was
  recorded, tenant by tenant, in memory, in SQLite and after a restart; every settled round is
  recorded, billed and published once.
  Access: who is let in is decided by the history of issued and revoked keys, or by a token that
  carries the right MAC and claims. Events: polling, live queues and event streams deliver what was
  published, in order and at most once. Isolation: nothing a tenant does shows in the view of another.
  Use: a client reads back what the routes hold, and its errors are those of the server; the scenarios of
  the demonstrations pass, and what the trust demo and the dashboard show of a session is what
  happened in it, round by round.
  Several properties state behaviour that is probably not intended: exclusion is for good, rejected
  transactions exclude nodes, faulty nodes are billed twice, a rotated admin key goes on working, a
  refused transaction stays pending, the replay of the event stream leaves a gap, a topic
  named twice leaves a live queue behind, a network that cannot be created leaves its listeners, two
  transactions that exclude each other can both be agreed, a revoked bootstrap key is back after the next
  start, a restart loses the world state but not the books.

  \<^bold>\<open>Parameters.\<close> SHA-256, Ed25519 (with \<open>signs_correctly\<close> and \<open>keys_serialise\<close>, both shown to be
  satisfiable by the witnesses), \<open>json.loads\<close>, the clock, \<open>uuid4\<close>, \<open>token_urlsafe\<close>, the environment
  variables, the fate of each message, the endpoints the operating system grants (\<open>grants_once\<close>) and
  the rendering of milliseconds are arguments, and so are the HTTP session and FastAPI's validation in
  \<open>Client\<close> (\<open>serves\<close>, \<open>validates\<close>); \<open>reads_json\<close>, which \<open>Wire\<close> asks of \<open>json.loads\<close>, holds of the reader
  in \<open>JsonText\<close>. A claim that rests on the absence of collisions names the two strings that would collide.

  \<^bold>\<open>Bounds and conventions.\<close> Strings are lists of code points below 256. Times are integers in
  microseconds. Floats that are compared or summed are rationals: prices have three decimals and
  quotas two, for which the float computation and its rounding agree with the rational one at the
  sizes of a network; a rate rounded to four decimals is computed as the float is (\<open>double_quotient\<close>,
  \<open>round4\<close>). A line of the network has at most 64 KiB. No operation of the program needs fuel: every loop
  runs over a list, halves one (\<open>merkle_levels\<close>, by a measure) or consumes its input (\<open>drain_request\<close>, by
  a measure); the fuel of the JSON reader is the length of the text, which is shown to be enough. A request is one step, except in
  \<open>Overlap\<close> and \<open>Sse\<close>, where it is cut where the code awaits.

  \<^bold>\<open>Not modelled.\<close> What a server does with a request after its client gave up waiting, TCP itself and
  reads that never end. Errors of SQLite and the difference between a file and \<open>:memory:\<close>. The posting of a
  webhook by the HTTP client, log lines, \<open>__repr__\<close>, the module singletons of \<open>billing.py\<close>,
  \<open>node_health.py\<close> and \<open>auth.py\<close> apart from what \<open>app\<close> keeps of them, the description texts of pricing
  tiers and responses. What the demonstrations print besides the rounds, titles, borders and colours of
  the dashboard. Time-outs and connection errors of \<open>sdk.py\<close>. The clients in Go, JavaScript and Java,
  and the deployment files. None of these changes a state the model has: what is left of the Python code
  is text for people, accessors that return a field, and calls into libraries.

  \<^bold>\<open>Outlook.\<close> Requests of the server as interleaved steps, beyond the broadcasts and event streams that
  are modelled so.
\<close>

end
